(* ===== verification/Prelude.thy ===== *)
theory Prelude
  imports Main "HOL-Library.Word" "HOL-Library.List_Lexorder" "HOL-Library.Sublist"
    "HOL-Library.Multiset"
begin

text \<open>
  Shared vocabulary of the development: the Rust types that every component uses, the
  result type of fallible operations, saturating and checked arithmetic at its width, the
  parts of \<open>str\<close> that the client calls, and the generic list lemmas of the later theories.

  \<^item> \<open>Bytes\<close>, \<open>Vec<u8>\<close> and \<open>&[u8]\<close> are lists of 8-bit words, compared lexicographically
    (\<open>HOL-Library.List_Lexorder\<close>), which is Rust's \<open>Ord\<close> on byte slices.
  \<^item> \<open>String\<close> and \<open>&str\<close> are their UTF-8 bytes: a HOL \<open>char\<close> is one byte.
  \<^item> \<open>u32\<close> and \<open>u64\<close> are words; \<open>i32\<close> and \<open>i64\<close> are \<open>int\<close>, \<open>usize\<close> lengths of things held
    in memory are \<open>nat\<close>; an operation that can leave the type's range says so.
  \<^item> a \<open>Duration\<close> is its number of nanoseconds, an \<open>Instant\<close> or \<open>SystemTime\<close> a nanosecond
    count since an origin that the model does not fix.
  \<^item> \<open>Result<T, E>\<close> is \<open>'e + 'a\<close>, with \<open>Inl\<close> for \<open>Err\<close> and \<open>Inr\<close> for \<open>Ok\<close>.
\<close>

section \<open>Types\<close>

type_synonym u8 = "8 word"
type_synonym u32 = "32 word"
type_synonym u64 = "64 word"
type_synonym i32 = int
type_synonym i64 = int
type_synonym bytes = "u8 list"
type_synonym duration = nat
type_synonym instant = nat
type_synonym ('e, 'a) result = "'e + 'a"

abbreviation Err :: "'e \<Rightarrow> ('e, 'a) result" where "Err e \<equiv> Inl e"
abbreviation Ok :: "'a \<Rightarrow> ('e, 'a) result" where "Ok a \<equiv> Inr a"

text \<open>Facts that unfold the small combinators; proofs add the collection they need.\<close>

named_theorems result_simps \<open>how the result combinators compute\<close>
named_theorems width_simps \<open>bounds and wrap-around of fixed-width arithmetic\<close>

section \<open>Results: the question mark and map\_err\<close>

definition and_then :: "('e, 'a) result \<Rightarrow> ('a \<Rightarrow> ('e, 'b) result) \<Rightarrow> ('e, 'b) result" where
  "and_then r f = (case r of Inl e \<Rightarrow> Inl e | Inr a \<Rightarrow> f a)"

definition map_err :: "('e \<Rightarrow> 'f) \<Rightarrow> ('e, 'a) result \<Rightarrow> ('f, 'a) result" where
  "map_err f r = (case r of Inl e \<Rightarrow> Inl (f e) | Inr a \<Rightarrow> Inr a)"

definition map_ok :: "('a \<Rightarrow> 'b) \<Rightarrow> ('e, 'a) result \<Rightarrow> ('e, 'b) result" where
  "map_ok f r = (case r of Inl e \<Rightarrow> Inl e | Inr a \<Rightarrow> Inr (f a))"

definition ok_or :: "'e \<Rightarrow> 'a option \<Rightarrow> ('e, 'a) result" where
  "ok_or e x = (case x of None \<Rightarrow> Inl e | Some a \<Rightarrow> Inr a)"

lemma and_then_simps [simp, result_simps]:
  "and_then (Inl e) f = Inl e" "and_then (Inr a) f = f a"
  by (simp_all add: and_then_def)

lemma map_err_simps [simp, result_simps]:
  "map_err f (Inl e) = Inl (f e)" "map_err f (Inr a) = Inr a"
  by (simp_all add: map_err_def)

lemma map_ok_simps [simp, result_simps]:
  "map_ok f (Inl e) = Inl e" "map_ok f (Inr a) = Inr (f a)"
  by (simp_all add: map_ok_def)

lemma ok_or_simps [simp, result_simps]:
  "ok_or e None = Inl e" "ok_or e (Some a) = Inr a"
  by (simp_all add: ok_or_def)

lemma and_then_Inr_iff: "and_then r f = Inr b \<longleftrightarrow> (\<exists>a. r = Inr a \<and> f a = Inr b)"
  by (cases r) auto

lemma and_then_Inl_iff: "and_then r f = Inl e \<longleftrightarrow> r = Inl e \<or> (\<exists>a. r = Inr a \<and> f a = Inl e)"
  by (cases r) auto

lemma map_err_Inr_iff: "map_err f r = Inr b \<longleftrightarrow> r = Inr b"
  by (cases r) auto

lemma map_err_Inl_iff: "map_err f r = Inl e \<longleftrightarrow> (\<exists>d. r = Inl d \<and> e = f d)"
  by (cases r) auto

lemmas result_iffs = and_then_Inr_iff and_then_Inl_iff map_err_Inr_iff map_err_Inl_iff

section \<open>Fixed-width arithmetic\<close>

definition u32_max :: nat where "u32_max = 2 ^ 32 - 1"
definition u64_max :: nat where "u64_max = 2 ^ 64 - 1"
definition i32_max :: int where "i32_max = 2 ^ 31 - 1"
definition i64_min :: int where "i64_min = - (2 ^ 63)"
definition i64_max :: int where "i64_max = 2 ^ 63 - 1"

text \<open>\<open>u32::saturating_add(1)\<close> and \<open>u32::saturating_sub(1)\<close>.\<close>

definition sat_inc :: "u32 \<Rightarrow> u32" where
  "sat_inc a = (if unat a < u32_max then a + 1 else a)"

definition sat_dec :: "u32 \<Rightarrow> u32" where
  "sat_dec a = (if a = 0 then 0 else a - 1)"

text \<open>\<open>u32::saturating_add\<close> of two counters.\<close>

definition sat_add :: "u32 \<Rightarrow> u32 \<Rightarrow> u32" where
  "sat_add a b = (if unat a + unat b \<le> u32_max then a + b else - 1)"

lemma unat_u32_le [width_simps]: "unat (a :: u32) \<le> u32_max"
  using unsigned_less [of a, where 'a = nat] by (simp add: u32_max_def)

lemma unat_inc_u32 [width_simps]: "unat (a :: u32) < u32_max \<Longrightarrow> unat (a + 1) = Suc (unat a)"
  by (simp add: u32_max_def unat_word_ariths)

lemma unat_sat_inc [width_simps]: "unat (sat_inc a) = min (Suc (unat a)) u32_max"
  using unat_u32_le [of a] by (auto simp: sat_inc_def unat_inc_u32)

lemma unat_sat_dec [width_simps]: "unat (sat_dec a) = unat a - 1"
proof (cases "a = 0")
  case False
  then have "1 \<le> a" by (simp add: word_le_nat_alt unat_gt_0 Suc_leI)
  then show ?thesis using False by (simp add: sat_dec_def unat_sub)
qed (simp add: sat_dec_def)

lemma unat_sat_add [width_simps]: "unat (sat_add a b) = min (unat a + unat b) u32_max"
  by (auto simp: sat_add_def u32_max_def unat_word_ariths unsigned_minus_1_eq_mask mask_eq_exp_minus_1)

section \<open>Strings\<close>

text \<open>
  \<open>str::chars().count()\<close>: the number of code points of a UTF-8 string is the number of its
  bytes that are not continuation bytes (\<open>0b10xxxxxx\<close>).
\<close>

definition is_continuation :: "char \<Rightarrow> bool" where
  "is_continuation c \<longleftrightarrow> 128 \<le> (of_char c :: nat) \<and> (of_char c :: nat) < 192"

definition chars_count :: "string \<Rightarrow> nat" where
  "chars_count s = length (filter (\<lambda>c. \<not> is_continuation c) s)"

text \<open>\<open>str::contains\<close> for a string pattern.\<close>

fun str_contains :: "string \<Rightarrow> string \<Rightarrow> bool" where
  "str_contains pat [] \<longleftrightarrow> pat = []"
| "str_contains pat (c # s) \<longleftrightarrow> take (length pat) (c # s) = pat \<or> str_contains pat s"

text \<open>\<open>u8::is_ascii_alphanumeric\<close>.\<close>

definition is_ascii_alphanumeric :: "char \<Rightarrow> bool" where
  "is_ascii_alphanumeric c \<longleftrightarrow> (let n = (of_char c :: nat) in
     48 \<le> n \<and> n \<le> 57 \<or> 65 \<le> n \<and> n \<le> 90 \<or> 97 \<le> n \<and> n \<le> 122)"

text \<open>
  \<open>str::trim\<close> removes the characters of the Unicode property \<open>White_Space\<close> at both ends;
  these are their UTF-8 encodings.
\<close>

definition white_space :: "string list" where
  "white_space =
    [[CHR 0x09], [CHR 0x0A], [CHR 0x0B], [CHR 0x0C], [CHR 0x0D], [CHR 0x20],
     [CHR 0xC2, CHR 0x85], [CHR 0xC2, CHR 0xA0], [CHR 0xE1, CHR 0x9A, CHR 0x80],
     [CHR 0xE2, CHR 0x80, CHR 0x80], [CHR 0xE2, CHR 0x80, CHR 0x81],
     [CHR 0xE2, CHR 0x80, CHR 0x82], [CHR 0xE2, CHR 0x80, CHR 0x83],
     [CHR 0xE2, CHR 0x80, CHR 0x84], [CHR 0xE2, CHR 0x80, CHR 0x85],
     [CHR 0xE2, CHR 0x80, CHR 0x86], [CHR 0xE2, CHR 0x80, CHR 0x87],
     [CHR 0xE2, CHR 0x80, CHR 0x88], [CHR 0xE2, CHR 0x80, CHR 0x89],
     [CHR 0xE2, CHR 0x80, CHR 0x8A], [CHR 0xE2, CHR 0x80, CHR 0xA8],
     [CHR 0xE2, CHR 0x80, CHR 0xA9], [CHR 0xE2, CHR 0x80, CHR 0xAF],
     [CHR 0xE2, CHR 0x81, CHR 0x9F], [CHR 0xE3, CHR 0x80, CHR 0x80]]"

definition leading :: "string list \<Rightarrow> string \<Rightarrow> string option" where
  "leading ws s = find (\<lambda>w. w \<noteq> [] \<and> take (length w) s = w) ws"

lemma leading_SomeD:
  "leading ws s = Some w \<Longrightarrow> w \<in> set ws \<and> w \<noteq> [] \<and> take (length w) s = w \<and> s \<noteq> []"
  by (auto simp: leading_def find_Some_iff)

function strip_leading :: "string list \<Rightarrow> string \<Rightarrow> string" where
  "strip_leading ws s =
     (case leading ws s of None \<Rightarrow> s | Some w \<Rightarrow> strip_leading ws (drop (length w) s))"
  by pat_completeness auto
termination
  by (relation "measure (\<lambda>(ws, s). length s)") (auto dest!: leading_SomeD)

declare strip_leading.simps [simp del]

definition trim :: "string \<Rightarrow> string" where
  "trim s = rev (strip_leading (map rev white_space) (rev (strip_leading white_space s)))"

text \<open>The decimal digits that \<open>format!\<close> writes for unsigned and signed integers.\<close>

fun show_nat :: "nat \<Rightarrow> string" where
  "show_nat n = (if n < 10 then [char_of (48 + n)]
                 else show_nat (n div 10) @ [char_of (48 + n mod 10)])"

declare show_nat.simps [simp del]

definition show_int :: "int \<Rightarrow> string" where
  "show_int i = (if i < 0 then CHR ''-'' # show_nat (nat (- i)) else show_nat (nat i))"

text \<open>A text between single quotation marks, as several messages write a name.\<close>

definition quoted :: "string \<Rightarrow> string" where
  "quoted s = [CHR 0x27] @ s @ [CHR 0x27]"

subsection \<open>What trim guarantees\<close>

lemma strip_leading_suffix: "\<exists>p. s = p @ strip_leading ws s"
proof (induction ws s rule: strip_leading.induct)
  case (1 ws s)
  show ?case
  proof (cases "leading ws s")
    case None
    then show ?thesis by (simp add: strip_leading.simps)
  next
    case (Some w)
    with 1 obtain p where "drop (length w) s = p @ strip_leading ws (drop (length w) s)" by blast
    then have "s = (take (length w) s @ p) @ strip_leading ws s"
      using Some by (simp add: strip_leading.simps [of ws s])
    then show ?thesis by blast
  qed
qed

lemma leading_strip_leading: "leading ws (strip_leading ws s) = None"
  by (induction ws s rule: strip_leading.induct)
    (metis option.case_eq_if option.collapse strip_leading.simps)

lemma strip_leading_id: "leading ws s = None \<Longrightarrow> strip_leading ws s = s"
  by (simp add: strip_leading.simps)

lemma leading_None_prefix: "leading ws (s @ t) = None \<Longrightarrow> leading ws s = None"
  unfolding leading_def find_None_iff by (metis length_take min.absorb2 take_append
      append_Nil2 diff_is_0_eq' nle_le take0 take_all_iff)

lemma trim_no_leading: "leading white_space (trim s) = None"
proof -
  let ?t = "strip_leading white_space s"
  obtain p where "rev ?t = p @ strip_leading (map rev white_space) (rev ?t)"
    using strip_leading_suffix by blast
  then have "?t = trim s @ rev p"
    by (metis rev_append rev_rev_ident trim_def)
  then show ?thesis
    using leading_strip_leading [of white_space s] leading_None_prefix by metis
qed

lemma trim_no_trailing: "leading (map rev white_space) (rev (trim s)) = None"
  by (simp add: trim_def leading_strip_leading)

lemma trim_idem: "trim (trim s) = trim s"
  using trim_no_leading [of s] trim_no_trailing [of s]
  by (simp add: trim_def [of "trim s"] strip_leading_id)

subsection \<open>Decimal digits\<close>

lemma show_nat_nonempty [simp]: "show_nat n \<noteq> []"
  by (subst show_nat.simps) simp

section \<open>Lists\<close>

text \<open>The first element that satisfies a predicate is replaced, as \<open>iter_mut().find\<close> does.\<close>

fun update_first :: "('a \<Rightarrow> bool) \<Rightarrow> ('a \<Rightarrow> 'a) \<Rightarrow> 'a list \<Rightarrow> 'a list" where
  "update_first p f [] = []"
| "update_first p f (x # xs) = (if p x then f x # xs else x # update_first p f xs)"

lemma update_first_map_key:
  "(\<And>x. k (f x) = k x) \<Longrightarrow> map k (update_first p f xs) = map k xs"
  by (induction xs) auto

lemma length_update_first [simp]: "length (update_first p f xs) = length xs"
  by (induction xs) auto

lemma update_first_split:
  "\<lbrakk>\<forall>x \<in> set xs. \<not> p x; p y\<rbrakk> \<Longrightarrow> update_first p f (xs @ y # ys) = xs @ f y # ys"
  by (induction xs) auto

lemma set_update_first: "x \<in> set (update_first p f xs) \<Longrightarrow> x \<in> set xs \<or> (\<exists>y \<in> set xs. p y \<and> x = f y)"
  by (induction xs) (auto split: if_splits)

lemma enumerate_conv_zip: "enumerate n xs = zip [n..<n + length xs] xs"
  by (simp add: enumerate_eq_zip)

lemma sorted_wrt_snoc: "sorted_wrt r (xs @ [x]) \<longleftrightarrow> sorted_wrt r xs \<and> (\<forall>y \<in> set xs. r y x)"
  by (auto simp: sorted_wrt_append)

end
