(* ===== verification/Errors.thy ===== *)
theory Errors
  imports Prelude
begin

text \<open>
  The error vocabulary of \<open>crates/bigtable-client/src/error.rs\<close>: every enum with the
  source's variants, the failure records of bulk mutations, the accessors, and the
  \<open>Display\<close> texts. Values of third-party error types (transport, metadata, authentication)
  are kept as the text they display. \<open>tonic::Code\<close> is the enum whose variants the client
  names one by one in \<open>telemetry.rs\<close>; \<open>tonic::Status\<close> is the data the client reads of it.
\<close>

section \<open>gRPC codes and statuses\<close>

datatype Code =
    OkCode | Cancelled | Unknown | InvalidArgument | DeadlineExceeded | NotFound
  | AlreadyExists | PermissionDenied | ResourceExhausted | FailedPrecondition | Aborted
  | OutOfRange | Unimplemented | Internal | Unavailable | DataLoss | Unauthenticated

record status =
  st_code :: Code
  st_message :: string
  st_details :: bytes

section \<open>Issue enums\<close>

datatype RowMergeIssue =
    ResetBetweenRows | MissingRowKey | MissingFamily | MissingQualifier | RowKeyChanged
  | FamilyWithoutQualifier | OutOfOrderRowKey | ScanMarkerDuringRow | ResetWithData
  | NegativeValueSize | SplitValueMissingData | SplitValueTooLarge
  | CommitBeforeCellComplete | CellMetadataOnContinuation | SplitValueSizeChanged
  | SplitValueWrongSize | IncompleteRow

datatype MutateRowsResponseIssue =
    NegativeIndex i64
  | IndexOutOfRange i64 nat
  | DuplicateIndex nat
  | MissingIndex nat

datatype BulkMutationPolicyIssue =
    ZeroMaxAttempts | ZeroInitialBackoff | ZeroMaxBackoff | MaxBackoffTooSmall
  | InvalidBackoffMultiplier | ZeroOperationTimeout | ZeroAttemptTimeout
  | ZeroEntriesPerRequest | ZeroRequestBytes | ZeroInFlightRequests | DeadlineTooLarge

datatype ReadPolicyIssue =
    ZeroMaxAttempts | ZeroInitialBackoff | ZeroMaxBackoff | MaxBackoffTooSmall
  | InvalidBackoffMultiplier | ZeroOperationTimeout | ZeroAttemptTimeout | DeadlineTooLarge

datatype MutationIssue =
    EmptyTableId | TableIdTooLong | TableIdContainsSlash | EmptyRowKey | RowKeyTooLong
  | EmptyFamilyName | FamilyNameTooLong | InvalidFamilyName | NegativeTimestamp
  | TimestampNotMillisecondAligned | InvalidTimestampRange | MissingOperation
  | EmptyRowMutation | TooManyMutations | IdempotencyTokenTooShort | ClockBeforeUnixEpoch
  | ClockOutOfRange

datatype QueryIssue =
    EmptyTableId | TableIdTooLong | TableIdContainsSlash | EmptyRowKey | RowKeyTooLong
  | ZeroRowLimit | RowLimitTooLarge

datatype ConfigField =
    ProjectId | InstanceId | AppProfileId | Endpoint | EmulatorHost | ChannelPoolSize
  | ConnectTimeout | RequestTimeout | KeepAliveInterval | KeepAliveTimeout

datatype ConfigIssue = Empty | TooLong nat | InvalidUri | MustBePositive

section \<open>Row mapping errors\<close>

datatype RowValueLocation = RowKey | Cell string bytes i64

record ValueDecodeError =
  vde_target :: string
  vde_source :: string

datatype RowMappingIssue =
    MissingFamily string
  | MissingColumn string bytes
  | MissingCell string bytes
  | InvalidValue RowValueLocation ValueDecodeError

record RowMappingError =
  rme_row_key :: bytes
  rme_row_key_bytes :: nat
  rme_issue :: RowMappingIssue

definition row_mapping_error :: "bytes \<Rightarrow> RowMappingIssue \<Rightarrow> RowMappingError" where
  "row_mapping_error row_key issue =
     \<lparr>rme_row_key = row_key, rme_row_key_bytes = length row_key, rme_issue = issue\<rparr>"

section \<open>Bulk mutation failures\<close>

datatype MutationFailureCause =
    EntryStatus status bool
  | RpcStatus status bool
  | DeadlineExceeded duration
  | InvalidResponse MutateRowsResponseIssue

definition cause_status :: "MutationFailureCause \<Rightarrow> status option" where
  "cause_status c = (case c of
     EntryStatus s _ \<Rightarrow> Some s | RpcStatus s _ \<Rightarrow> Some s
   | MutationFailureCause.DeadlineExceeded _ \<Rightarrow> None | InvalidResponse _ \<Rightarrow> None)"

definition cause_retry_safe :: "MutationFailureCause \<Rightarrow> bool" where
  "cause_retry_safe c = (case c of
     EntryStatus _ safe \<Rightarrow> safe | RpcStatus _ safe \<Rightarrow> safe
   | MutationFailureCause.DeadlineExceeded _ \<Rightarrow> False | InvalidResponse _ \<Rightarrow> False)"

record MutationFailure =
  mf_index :: nat
  mf_attempts :: u32
  mf_cause :: MutationFailureCause

record BulkMutationError =
  bme_total_entries :: nat
  bme_successful_entries :: nat
  bme_rpc_attempts :: u32
  bme_failures :: "MutationFailure list"

section \<open>The client error\<close>

datatype Error =
    InvalidConfig ConfigField ConfigIssue
  | ConfigLoad string
  | Authentication string
  | InvalidAccessToken string
  | InvalidClientMetadata string string
  | Transport string
  | ChannelPoolClosed
  | InvalidQuery QueryIssue
  | RowMapping RowMappingError
  | InvalidMutation MutationIssue
  | InvalidBulkMutationPolicy BulkMutationPolicyIssue
  | BulkMutation BulkMutationError
  | InvalidReadPolicy ReadPolicyIssue
  | InvalidReadRowsResponse RowMergeIssue
  | ReadRows u32 status
  | ReadDeadlineExceeded u32 duration

definition invalid_config :: "ConfigField \<Rightarrow> ConfigIssue \<Rightarrow> Error" where
  [simp]: "invalid_config field issue = InvalidConfig field issue"

definition invalid_query :: "QueryIssue \<Rightarrow> Error" where
  [simp]: "invalid_query issue = InvalidQuery issue"

definition invalid_mutation :: "MutationIssue \<Rightarrow> Error" where
  [simp]: "invalid_mutation issue = InvalidMutation issue"

definition invalid_bulk_mutation_policy :: "BulkMutationPolicyIssue \<Rightarrow> Error" where
  [simp]: "invalid_bulk_mutation_policy issue = InvalidBulkMutationPolicy issue"

definition invalid_read_policy :: "ReadPolicyIssue \<Rightarrow> Error" where
  [simp]: "invalid_read_policy issue = InvalidReadPolicy issue"

section \<open>Display\<close>

fun show_row_merge_issue :: "RowMergeIssue \<Rightarrow> string" where
  "show_row_merge_issue ResetBetweenRows = ''reset_row is not valid between rows''"
| "show_row_merge_issue MissingRowKey = ''a new row is missing its row key''"
| "show_row_merge_issue RowMergeIssue.MissingFamily = ''a new row is missing its column family''"
| "show_row_merge_issue MissingQualifier = ''a new row is missing its column qualifier''"
| "show_row_merge_issue RowKeyChanged = ''the row key changed before commit_row''"
| "show_row_merge_issue FamilyWithoutQualifier =
     ''a new column family did not include a column qualifier''"
| "show_row_merge_issue OutOfOrderRowKey = ''row keys are not in strict query order''"
| "show_row_merge_issue ScanMarkerDuringRow =
     ''last_scanned_row_key appeared during an incomplete row''"
| "show_row_merge_issue ResetWithData = ''reset_row must not include cell data''"
| "show_row_merge_issue NegativeValueSize = ''value_size must not be negative''"
| "show_row_merge_issue SplitValueMissingData = ''a split cell must start with value bytes''"
| "show_row_merge_issue SplitValueTooLarge = ''a split cell exceeded its declared value_size''"
| "show_row_merge_issue CommitBeforeCellComplete =
     ''commit_row appeared before a split cell completed''"
| "show_row_merge_issue CellMetadataOnContinuation =
     ''a split cell continuation repeated cell metadata''"
| "show_row_merge_issue SplitValueSizeChanged =
     ''a split cell continuation changed its declared value_size''"
| "show_row_merge_issue SplitValueWrongSize =
     ''a split cell ended before reaching its declared value_size''"
| "show_row_merge_issue IncompleteRow = ''the response stream ended before commit_row''"

fun show_bulk_mutation_policy_issue :: "BulkMutationPolicyIssue \<Rightarrow> string" where
  "show_bulk_mutation_policy_issue BulkMutationPolicyIssue.ZeroMaxAttempts =
     ''max_attempts must be greater than zero''"
| "show_bulk_mutation_policy_issue BulkMutationPolicyIssue.ZeroInitialBackoff =
     ''initial_backoff must be greater than zero''"
| "show_bulk_mutation_policy_issue BulkMutationPolicyIssue.ZeroMaxBackoff =
     ''max_backoff must be greater than zero''"
| "show_bulk_mutation_policy_issue BulkMutationPolicyIssue.MaxBackoffTooSmall =
     ''max_backoff must not be smaller than initial_backoff''"
| "show_bulk_mutation_policy_issue BulkMutationPolicyIssue.InvalidBackoffMultiplier =
     ''multiplier must be finite and greater than or equal to one''"
| "show_bulk_mutation_policy_issue BulkMutationPolicyIssue.ZeroOperationTimeout =
     ''operation_timeout must be greater than zero''"
| "show_bulk_mutation_policy_issue BulkMutationPolicyIssue.ZeroAttemptTimeout =
     ''attempt_timeout must be greater than zero''"
| "show_bulk_mutation_policy_issue ZeroEntriesPerRequest =
     ''max_entries_per_request must be greater than zero''"
| "show_bulk_mutation_policy_issue ZeroRequestBytes =
     ''max_request_bytes must be greater than zero''"
| "show_bulk_mutation_policy_issue ZeroInFlightRequests =
     ''max_in_flight_requests must be greater than zero''"
| "show_bulk_mutation_policy_issue BulkMutationPolicyIssue.DeadlineTooLarge =
     ''deadline is too large for the runtime clock''"

fun show_mutate_rows_response_issue :: "MutateRowsResponseIssue \<Rightarrow> string" where
  "show_mutate_rows_response_issue (NegativeIndex index) =
     ''response index '' @ show_int index @ '' must not be negative''"
| "show_mutate_rows_response_issue (IndexOutOfRange index entry_count) =
     ''response index '' @ show_int index @ '' is outside the '' @ show_nat entry_count
       @ ''-entry request''"
| "show_mutate_rows_response_issue (DuplicateIndex index) =
     ''response index '' @ show_nat index @ '' was reported more than once''"
| "show_mutate_rows_response_issue (MissingIndex index) =
     ''response index '' @ show_nat index @ '' was not reported''"

fun show_mutation_issue :: "MutationIssue \<Rightarrow> string" where
  "show_mutation_issue MutationIssue.EmptyTableId = ''table_id must not be empty''"
| "show_mutation_issue MutationIssue.TableIdTooLong = ''table_id must not exceed 50 characters''"
| "show_mutation_issue MutationIssue.TableIdContainsSlash =
     ''table_id must not contain '' @ quoted ''/''"
| "show_mutation_issue MutationIssue.EmptyRowKey = ''row key must not be empty''"
| "show_mutation_issue MutationIssue.RowKeyTooLong = ''row key must not exceed 4 KiB''"
| "show_mutation_issue EmptyFamilyName = ''family_name must not be empty''"
| "show_mutation_issue FamilyNameTooLong = ''family_name must not exceed 64 characters''"
| "show_mutation_issue InvalidFamilyName =
     ''family_name may contain only ASCII letters, digits, '' @ quoted ''-'' @ '', ''
       @ quoted ''_'' @ '', and '' @ quoted ''.''"
| "show_mutation_issue NegativeTimestamp = ''timestamp_micros must not be negative''"
| "show_mutation_issue TimestampNotMillisecondAligned =
     ''timestamp_micros must be a multiple of 1000''"
| "show_mutation_issue InvalidTimestampRange =
     ''timestamp range start must be smaller than its end''"
| "show_mutation_issue MissingOperation = ''protobuf mutation must contain an operation''"
| "show_mutation_issue EmptyRowMutation = ''row mutation must contain at least one change''"
| "show_mutation_issue TooManyMutations = ''row mutation must not exceed 100000 changes''"
| "show_mutation_issue IdempotencyTokenTooShort =
     ''idempotency token must contain at least eight bytes''"
| "show_mutation_issue ClockBeforeUnixEpoch =
     ''system clock must not be earlier than the Unix epoch''"
| "show_mutation_issue ClockOutOfRange =
     ''system clock is too large for a Bigtable timestamp''"

fun show_query_issue :: "QueryIssue \<Rightarrow> string" where
  "show_query_issue QueryIssue.EmptyTableId = ''table_id must not be empty''"
| "show_query_issue QueryIssue.TableIdTooLong = ''table_id must not exceed 50 characters''"
| "show_query_issue QueryIssue.TableIdContainsSlash =
     ''table_id must not contain '' @ quoted ''/''"
| "show_query_issue QueryIssue.EmptyRowKey = ''exact row keys must not be empty''"
| "show_query_issue QueryIssue.RowKeyTooLong = ''row keys and range bounds must not exceed 4 KiB''"
| "show_query_issue ZeroRowLimit = ''row limit must be greater than zero''"
| "show_query_issue RowLimitTooLarge = ''row limit must fit in a signed 64-bit integer''"

fun show_read_policy_issue :: "ReadPolicyIssue \<Rightarrow> string" where
  "show_read_policy_issue ReadPolicyIssue.ZeroMaxAttempts =
     ''max_attempts must be greater than zero''"
| "show_read_policy_issue ReadPolicyIssue.ZeroInitialBackoff =
     ''initial_backoff must be greater than zero''"
| "show_read_policy_issue ReadPolicyIssue.ZeroMaxBackoff =
     ''max_backoff must be greater than zero''"
| "show_read_policy_issue ReadPolicyIssue.MaxBackoffTooSmall =
     ''max_backoff must not be smaller than initial_backoff''"
| "show_read_policy_issue ReadPolicyIssue.InvalidBackoffMultiplier =
     ''multiplier must be finite and greater than or equal to one''"
| "show_read_policy_issue ReadPolicyIssue.ZeroOperationTimeout =
     ''operation_timeout must be greater than zero''"
| "show_read_policy_issue ReadPolicyIssue.ZeroAttemptTimeout =
     ''attempt_timeout must be greater than zero''"
| "show_read_policy_issue ReadPolicyIssue.DeadlineTooLarge =
     ''deadline is too large for the runtime clock''"

fun show_config_field :: "ConfigField \<Rightarrow> string" where
  "show_config_field ProjectId = ''project_id''"
| "show_config_field InstanceId = ''instance_id''"
| "show_config_field AppProfileId = ''app_profile_id''"
| "show_config_field Endpoint = ''endpoint''"
| "show_config_field EmulatorHost = ''emulator_host''"
| "show_config_field ChannelPoolSize = ''channel_pool_size''"
| "show_config_field ConnectTimeout = ''connect_timeout''"
| "show_config_field RequestTimeout = ''request_timeout''"
| "show_config_field KeepAliveInterval = ''keep_alive_interval''"
| "show_config_field KeepAliveTimeout = ''keep_alive_timeout''"

fun show_config_issue :: "ConfigIssue \<Rightarrow> string" where
  "show_config_issue ConfigIssue.Empty = ''must not be empty''"
| "show_config_issue (TooLong max_chars) =
     ''must not exceed '' @ show_nat max_chars @ '' characters''"
| "show_config_issue InvalidUri = ''must be an absolute HTTP or HTTPS URI''"
| "show_config_issue MustBePositive = ''must be greater than zero''"

text \<open>
  The remaining texts embed \<open>Debug\<close> and \<open>Display\<close> output of other crates and of
  \<open>Duration\<close>; those formatters are parameters.
\<close>

record formatters =
  dbg_bytes :: "bytes \<Rightarrow> string"
  dbg_duration :: "duration \<Rightarrow> string"
  show_status :: "status \<Rightarrow> string"

fun show_row_value_location :: "formatters \<Rightarrow> RowValueLocation \<Rightarrow> string" where
  "show_row_value_location fmt RowKey = ''row key''"
| "show_row_value_location fmt (Cell family qualifier timestamp_micros) =
     ''column family '' @ quoted family @ '', qualifier '' @ dbg_bytes fmt qualifier
       @ '', timestamp '' @ show_int timestamp_micros"

definition show_value_decode_error :: "ValueDecodeError \<Rightarrow> string" where
  "show_value_decode_error e = ''cannot decode value as '' @ vde_target e @ '': '' @ vde_source e"

fun show_row_mapping_issue :: "formatters \<Rightarrow> RowMappingIssue \<Rightarrow> string" where
  "show_row_mapping_issue fmt (RowMappingIssue.MissingFamily family) =
     ''required column family '' @ quoted family @ '' is missing''"
| "show_row_mapping_issue fmt (MissingColumn family qualifier) =
     ''required qualifier '' @ dbg_bytes fmt qualifier @ '' is missing from column family ''
       @ quoted family"
| "show_row_mapping_issue fmt (MissingCell family qualifier) =
     ''qualifier '' @ dbg_bytes fmt qualifier @ '' in column family '' @ quoted family
       @ '' has no cells''"
| "show_row_mapping_issue fmt (InvalidValue location source) =
     ''invalid value at '' @ show_row_value_location fmt location @ '': ''
       @ show_value_decode_error source"

definition show_row_mapping_error :: "formatters \<Rightarrow> RowMappingError \<Rightarrow> string" where
  "show_row_mapping_error fmt e =
     ''failed to map Bigtable row (row_key_bytes='' @ show_nat (rme_row_key_bytes e) @ ''): ''
       @ show_row_mapping_issue fmt (rme_issue e)"

fun show_mutation_failure_cause :: "formatters \<Rightarrow> MutationFailureCause \<Rightarrow> string" where
  "show_mutation_failure_cause fmt (EntryStatus s _) = ''entry failed: '' @ show_status fmt s"
| "show_mutation_failure_cause fmt (RpcStatus s _) =
     ''mutation result was interrupted: '' @ show_status fmt s"
| "show_mutation_failure_cause fmt (MutationFailureCause.DeadlineExceeded timeout) =
     ''mutation exceeded the '' @ dbg_duration fmt timeout @ '' operation deadline''"
| "show_mutation_failure_cause fmt (InvalidResponse issue) =
     ''invalid MutateRows response: '' @ show_mutate_rows_response_issue issue"

definition show_bulk_mutation_error :: "BulkMutationError \<Rightarrow> string" where
  "show_bulk_mutation_error e =
     ''Bigtable MutateRows confirmed '' @ show_nat (bme_successful_entries e) @ '' of ''
       @ show_nat (bme_total_entries e) @ '' entries after ''
       @ show_nat (unat (bme_rpc_attempts e)) @ '' RPC attempt(s); ''
       @ show_nat (length (bme_failures e)) @ '' failed''"

fun show_error :: "formatters \<Rightarrow> Error \<Rightarrow> string" where
  "show_error fmt (InvalidConfig field issue) =
     ''invalid Bigtable configuration for '' @ show_config_field field @ '': ''
       @ show_config_issue issue"
| "show_error fmt (ConfigLoad source) = ''failed to load Bigtable configuration: '' @ source"
| "show_error fmt (Authentication source) =
     ''failed to authenticate with Google Cloud: '' @ source"
| "show_error fmt (InvalidAccessToken source) =
     ''Google Cloud returned an invalid access token: '' @ source"
| "show_error fmt (InvalidClientMetadata header source) =
     ''failed to encode the '' @ header @ '' metadata header: '' @ source"
| "show_error fmt (Transport source) = ''failed to connect to Bigtable: '' @ source"
| "show_error fmt ChannelPoolClosed = ''failed to initialize the Bigtable channel pool''"
| "show_error fmt (InvalidQuery issue) = ''invalid Bigtable query: '' @ show_query_issue issue"
| "show_error fmt (RowMapping e) = show_row_mapping_error fmt e"
| "show_error fmt (InvalidMutation issue) =
     ''invalid Bigtable mutation: '' @ show_mutation_issue issue"
| "show_error fmt (InvalidBulkMutationPolicy issue) =
     ''invalid Bigtable bulk mutation policy: '' @ show_bulk_mutation_policy_issue issue"
| "show_error fmt (BulkMutation e) = show_bulk_mutation_error e"
| "show_error fmt (InvalidReadPolicy issue) =
     ''invalid Bigtable read policy: '' @ show_read_policy_issue issue"
| "show_error fmt (InvalidReadRowsResponse issue) =
     ''invalid Bigtable ReadRows response: '' @ show_row_merge_issue issue"
| "show_error fmt (ReadRows attempts source) =
     ''Bigtable ReadRows failed after '' @ show_nat (unat attempts) @ '' attempt(s): ''
       @ show_status fmt source"
| "show_error fmt (ReadDeadlineExceeded attempts timeout) =
     ''Bigtable ReadRows exceeded its '' @ dbg_duration fmt timeout @ '' deadline after ''
       @ show_nat (unat attempts) @ '' attempt(s)''"

end
