(* ===== verification/Config.thy ===== *)
theory Config
  imports Errors
begin

text \<open>
  \<open>config.rs\<close>: the validated connection settings, the raw settings they are made from, and
  the builders; \<open>resource.rs\<close>: table identifiers and resource names; \<open>channel.rs\<close>: the
  endpoint built from the settings. The URI parser of the \<open>http\<close> crate is the parameter
  \<open>parse_uri\<close>, and what the \<open>figment\<close> crate extracts from the defaults and from the environment
  variables with a given prefix is the parameter \<open>extract\<close>.
\<close>

section \<open>Durations\<close>

definition secs :: "nat \<Rightarrow> duration" where "secs n = n * 1000000000"
definition millis :: "nat \<Rightarrow> duration" where "millis n = n * 1000000"

section \<open>Settings\<close>

record Uri =
  uri_scheme :: "string option"
  uri_authority :: "string option"
  uri_path :: string
  uri_query :: "string option"

record ClientConfig =
  project_id :: string
  instance_id :: string
  app_profile_id :: string
  endpoint :: string
  emulator_host :: "string option"
  channel_pool_size :: nat
  connect_timeout :: duration
  request_timeout :: duration
  keep_alive_interval :: duration
  keep_alive_timeout :: duration

record RawConfig =
  raw_project_id :: string
  raw_instance_id :: string
  raw_app_profile_id :: string
  raw_endpoint :: string
  raw_emulator_host :: "string option"
  raw_channel_pool_size :: nat
  raw_connect_timeout :: duration
  raw_request_timeout :: duration
  raw_keep_alive_interval :: duration
  raw_keep_alive_timeout :: duration

definition max_app_profile_id_chars :: nat where "max_app_profile_id_chars = 50"

definition raw_config_default :: RawConfig where
  "raw_config_default =
     \<lparr>raw_project_id = [], raw_instance_id = [], raw_app_profile_id = ''default'',
      raw_endpoint = ''https://bigtable.googleapis.com'', raw_emulator_host = None,
      raw_channel_pool_size = 1, raw_connect_timeout = secs 10,
      raw_request_timeout = secs 600, raw_keep_alive_interval = secs 60,
      raw_keep_alive_timeout = secs 20\<rparr>"

section \<open>Checks\<close>

definition non_empty :: "string \<Rightarrow> ConfigField \<Rightarrow> (Error, string) result" where
  "non_empty value field =
     (let trimmed = trim value
      in if trimmed = [] then Err (invalid_config field ConfigIssue.Empty) else Ok trimmed)"

definition non_empty_with_max_chars ::
    "string \<Rightarrow> ConfigField \<Rightarrow> nat \<Rightarrow> (Error, string) result" where
  "non_empty_with_max_chars value field max_chars =
     and_then (non_empty value field) (\<lambda>value.
       if chars_count value > max_chars then Err (invalid_config field (TooLong max_chars))
       else Ok value)"

definition valid_uri ::
    "(string \<Rightarrow> Uri option) \<Rightarrow> string \<Rightarrow> ConfigField \<Rightarrow> (Error, string) result" where
  "valid_uri parse_uri value field =
     and_then (non_empty value field) (\<lambda>value.
     and_then (ok_or (invalid_config field InvalidUri) (parse_uri value)) (\<lambda>uri.
       let valid_scheme = (uri_scheme uri = Some ''http'' \<or> uri_scheme uri = Some ''https'');
           valid_path = (uri_path uri = '''' \<or> uri_path uri = ''/'')
       in if \<not> valid_scheme \<or> uri_authority uri = None \<or> \<not> valid_path \<or> uri_query uri \<noteq> None
          then Err (invalid_config field InvalidUri)
          else Ok value))"

definition ensure_positive :: "nat \<Rightarrow> ConfigField \<Rightarrow> (Error, unit) result" where
  "ensure_positive value field =
     (if value = 0 then Err (invalid_config field MustBePositive) else Ok ())"

definition ensure_nonzero :: "duration \<Rightarrow> ConfigField \<Rightarrow> (Error, unit) result" where
  "ensure_nonzero value field =
     (if value = 0 then Err (invalid_config field MustBePositive) else Ok ())"

definition normalize_emulator_host :: "string \<Rightarrow> string" where
  "normalize_emulator_host host =
     (if str_contains ''://'' host then host else ''http://'' @ host)"

definition transpose_result :: "('e, 'a) result option \<Rightarrow> ('e, 'a option) result" where
  "transpose_result x = (case x of None \<Rightarrow> Ok None | Some r \<Rightarrow> map_ok Some r)"

section \<open>From raw to validated settings\<close>

definition config_try_from ::
    "(string \<Rightarrow> Uri option) \<Rightarrow> RawConfig \<Rightarrow> (Error, ClientConfig) result" where
  "config_try_from parse_uri raw =
     and_then (non_empty (raw_project_id raw) ProjectId) (\<lambda>project.
     and_then (non_empty (raw_instance_id raw) InstanceId) (\<lambda>inst.
     and_then (non_empty_with_max_chars (raw_app_profile_id raw) AppProfileId
                 max_app_profile_id_chars) (\<lambda>profile.
     and_then (valid_uri parse_uri (raw_endpoint raw) Endpoint) (\<lambda>endp.
     and_then (transpose_result (map_option
                 (\<lambda>host. valid_uri parse_uri (normalize_emulator_host host) EmulatorHost)
                 (raw_emulator_host raw))) (\<lambda>emulator.
     and_then (ensure_positive (raw_channel_pool_size raw) ChannelPoolSize) (\<lambda>_.
     and_then (ensure_nonzero (raw_connect_timeout raw) ConnectTimeout) (\<lambda>_.
     and_then (ensure_nonzero (raw_request_timeout raw) RequestTimeout) (\<lambda>_.
     and_then (ensure_nonzero (raw_keep_alive_interval raw) KeepAliveInterval) (\<lambda>_.
     and_then (ensure_nonzero (raw_keep_alive_timeout raw) KeepAliveTimeout) (\<lambda>_.
       Ok \<lparr>project_id = project, instance_id = inst, app_profile_id = profile,
           endpoint = endp, emulator_host = emulator,
           channel_pool_size = raw_channel_pool_size raw,
           connect_timeout = raw_connect_timeout raw,
           request_timeout = raw_request_timeout raw,
           keep_alive_interval = raw_keep_alive_interval raw,
           keep_alive_timeout = raw_keep_alive_timeout raw\<rparr>))))))))))"

definition config_new ::
    "(string \<Rightarrow> Uri option) \<Rightarrow> string \<Rightarrow> string \<Rightarrow> (Error, ClientConfig) result" where
  "config_new parse_uri project inst =
     config_try_from parse_uri
       (raw_config_default\<lparr>raw_project_id := project, raw_instance_id := inst\<rparr>)"

definition config_load ::
    "(RawConfig \<Rightarrow> string \<Rightarrow> (string, RawConfig) result) \<Rightarrow> (string \<Rightarrow> Uri option)
     \<Rightarrow> (Error, ClientConfig) result" where
  "config_load extract parse_uri =
     and_then (map_err ConfigLoad (extract raw_config_default ''BIGTABLE_''))
       (config_try_from parse_uri)"

section \<open>Builders\<close>

definition with_app_profile_id :: "ClientConfig \<Rightarrow> string \<Rightarrow> (Error, ClientConfig) result" where
  "with_app_profile_id self profile =
     map_ok (\<lambda>v. self\<lparr>app_profile_id := v\<rparr>)
       (non_empty_with_max_chars profile AppProfileId max_app_profile_id_chars)"

definition with_endpoint ::
    "(string \<Rightarrow> Uri option) \<Rightarrow> ClientConfig \<Rightarrow> string \<Rightarrow> (Error, ClientConfig) result" where
  "with_endpoint parse_uri self e =
     map_ok (\<lambda>v. self\<lparr>endpoint := v\<rparr>) (valid_uri parse_uri e Endpoint)"

definition with_emulator_host ::
    "(string \<Rightarrow> Uri option) \<Rightarrow> ClientConfig \<Rightarrow> string \<Rightarrow> (Error, ClientConfig) result" where
  "with_emulator_host parse_uri self host =
     map_ok (\<lambda>v. self\<lparr>emulator_host := Some v\<rparr>)
       (valid_uri parse_uri (normalize_emulator_host host) EmulatorHost)"

definition with_channel_pool_size :: "ClientConfig \<Rightarrow> nat \<Rightarrow> (Error, ClientConfig) result" where
  "with_channel_pool_size self n =
     map_ok (\<lambda>_. self\<lparr>channel_pool_size := n\<rparr>) (ensure_positive n ChannelPoolSize)"

definition with_connect_timeout :: "ClientConfig \<Rightarrow> duration \<Rightarrow> (Error, ClientConfig) result" where
  "with_connect_timeout self t =
     map_ok (\<lambda>_. self\<lparr>connect_timeout := t\<rparr>) (ensure_nonzero t ConnectTimeout)"

definition with_request_timeout :: "ClientConfig \<Rightarrow> duration \<Rightarrow> (Error, ClientConfig) result" where
  "with_request_timeout self t =
     map_ok (\<lambda>_. self\<lparr>request_timeout := t\<rparr>) (ensure_nonzero t RequestTimeout)"

definition with_keep_alive ::
    "ClientConfig \<Rightarrow> duration \<Rightarrow> duration \<Rightarrow> (Error, ClientConfig) result" where
  "with_keep_alive self interval timeout =
     and_then (ensure_nonzero interval KeepAliveInterval) (\<lambda>_.
     map_ok (\<lambda>_. self\<lparr>keep_alive_interval := interval, keep_alive_timeout := timeout\<rparr>)
       (ensure_nonzero timeout KeepAliveTimeout))"

definition service_endpoint :: "ClientConfig \<Rightarrow> string" where
  "service_endpoint self =
     (case emulator_host self of Some host \<Rightarrow> host | None \<Rightarrow> endpoint self)"

definition uses_emulator :: "ClientConfig \<Rightarrow> bool" where
  "uses_emulator self \<longleftrightarrow> emulator_host self \<noteq> None"

section \<open>Every configuration the API hands out is well formed\<close>

definition usable_uri :: "(string \<Rightarrow> Uri option) \<Rightarrow> string \<Rightarrow> bool" where
  "usable_uri parse_uri s \<longleftrightarrow>
     (case parse_uri s of None \<Rightarrow> False
      | Some uri \<Rightarrow> uri_scheme uri \<in> {Some ''http'', Some ''https''} \<and> uri_authority uri \<noteq> None
          \<and> uri_path uri \<in> {'''', ''/''} \<and> uri_query uri = None)"

definition trimmed_nonempty :: "string \<Rightarrow> bool" where
  "trimmed_nonempty s \<longleftrightarrow> s \<noteq> [] \<and> trim s = s"

definition config_ok :: "(string \<Rightarrow> Uri option) \<Rightarrow> ClientConfig \<Rightarrow> bool" where
  "config_ok parse_uri c \<longleftrightarrow>
     trimmed_nonempty (project_id c) \<and> trimmed_nonempty (instance_id c)
   \<and> trimmed_nonempty (app_profile_id c)
   \<and> chars_count (app_profile_id c) \<le> max_app_profile_id_chars
   \<and> usable_uri parse_uri (endpoint c)
   \<and> (\<forall>host. emulator_host c = Some host \<longrightarrow> usable_uri parse_uri host)
   \<and> 0 < channel_pool_size c \<and> 0 < connect_timeout c \<and> 0 < request_timeout c
   \<and> 0 < keep_alive_interval c \<and> 0 < keep_alive_timeout c"

text \<open>
  The configurations an application can hold: made by \<open>TryFrom\<close>, as \<open>new\<close> and \<open>load\<close> do, and
  changed by builders.
\<close>

inductive config_built :: "(string \<Rightarrow> Uri option) \<Rightarrow> ClientConfig \<Rightarrow> bool"
  for parse_uri :: "string \<Rightarrow> Uri option" where
  raw: "config_try_from parse_uri r = Ok c \<Longrightarrow> config_built parse_uri c"
| profile: "config_built parse_uri c \<Longrightarrow> with_app_profile_id c s = Ok c' \<Longrightarrow> config_built parse_uri c'"
| endpoint: "config_built parse_uri c \<Longrightarrow> with_endpoint parse_uri c s = Ok c' \<Longrightarrow> config_built parse_uri c'"
| emulator: "config_built parse_uri c \<Longrightarrow> with_emulator_host parse_uri c s = Ok c' \<Longrightarrow>
     config_built parse_uri c'"
| pool: "config_built parse_uri c \<Longrightarrow> with_channel_pool_size c n = Ok c' \<Longrightarrow> config_built parse_uri c'"
| connect: "config_built parse_uri c \<Longrightarrow> with_connect_timeout c t = Ok c' \<Longrightarrow> config_built parse_uri c'"
| request: "config_built parse_uri c \<Longrightarrow> with_request_timeout c t = Ok c' \<Longrightarrow> config_built parse_uri c'"
| alive: "config_built parse_uri c \<Longrightarrow> with_keep_alive c t u = Ok c' \<Longrightarrow> config_built parse_uri c'"

lemma non_empty_Ok: "non_empty v f = Ok s \<longleftrightarrow> s = trim v \<and> trimmed_nonempty s"
  by (auto simp: non_empty_def trimmed_nonempty_def Let_def trim_idem)

lemma non_empty_with_max_chars_Ok:
  "non_empty_with_max_chars v f n = Ok s \<longleftrightarrow> s = trim v \<and> trimmed_nonempty s \<and> chars_count s \<le> n"
  by (auto simp: non_empty_with_max_chars_def and_then_Inr_iff non_empty_Ok split: if_splits)

lemma valid_uri_Ok:
  "valid_uri p v f = Ok s \<longleftrightarrow> s = trim v \<and> trimmed_nonempty s \<and> usable_uri p s"
proof (cases "non_empty v f")
  case (Inl e)
  then have "\<not> trimmed_nonempty (trim v)"
    using non_empty_Ok [of v f "trim v"] by simp
  with Inl show ?thesis by (auto simp: valid_uri_def)
next
  case (Inr t)
  then have t: "t = trim v" "trimmed_nonempty t" by (auto simp: non_empty_Ok)
  show ?thesis
  proof (cases "p t")
    case None
    with Inr t show ?thesis by (auto simp: valid_uri_def usable_uri_def)
  next
    case (Some uri)
    with Inr t show ?thesis by (auto simp: valid_uri_def usable_uri_def Let_def)
  qed
qed

lemma ensure_Ok [simp]:
  "ensure_positive n f = Ok u \<longleftrightarrow> 0 < n" "ensure_nonzero n f = Ok u \<longleftrightarrow> 0 < n"
  by (auto simp: ensure_positive_def ensure_nonzero_def)

lemma map_ok_Inr_iff: "map_ok f r = Inr b \<longleftrightarrow> (\<exists>a. r = Inr a \<and> b = f a)"
  by (cases r) auto

lemma transpose_Ok:
  "transpose_result (map_option f x) = Ok y \<longleftrightarrow>
     (case x of None \<Rightarrow> y = None | Some a \<Rightarrow> (\<exists>b. f a = Ok b \<and> y = Some b))"
  by (cases x) (auto simp: transpose_result_def map_ok_Inr_iff)

lemmas config_check_iffs =
  and_then_Inr_iff map_ok_Inr_iff non_empty_Ok non_empty_with_max_chars_Ok valid_uri_Ok

lemma config_try_from_ok:
  assumes "config_try_from p r = Ok c"
  shows "config_ok p c"
proof -
  from assms obtain project inst profile endp emulator where parts:
      "trimmed_nonempty project" "trimmed_nonempty inst" "trimmed_nonempty profile"
      "chars_count profile \<le> max_app_profile_id_chars" "usable_uri p endp"
    and em: "transpose_result (map_option
          (\<lambda>host. valid_uri p (normalize_emulator_host host) EmulatorHost)
          (raw_emulator_host r)) = Ok emulator"
    and pos: "0 < raw_channel_pool_size r" "0 < raw_connect_timeout r"
      "0 < raw_request_timeout r" "0 < raw_keep_alive_interval r" "0 < raw_keep_alive_timeout r"
    and c: "c = \<lparr>project_id = project, instance_id = inst, app_profile_id = profile,
        endpoint = endp, emulator_host = emulator,
        channel_pool_size = raw_channel_pool_size r, connect_timeout = raw_connect_timeout r,
        request_timeout = raw_request_timeout r,
        keep_alive_interval = raw_keep_alive_interval r,
        keep_alive_timeout = raw_keep_alive_timeout r\<rparr>"
    unfolding config_try_from_def and_then_Inr_iff non_empty_Ok non_empty_with_max_chars_Ok
      valid_uri_Ok ensure_Ok by blast
  from em have "\<forall>host. emulator = Some host \<longrightarrow> usable_uri p host"
    by (cases "raw_emulator_host r")
      (auto simp: transpose_result_def map_ok_Inr_iff valid_uri_Ok)
  with parts pos show ?thesis by (simp add: config_ok_def c)
qed

lemma builders_ok:
  assumes "config_ok p c"
  shows "with_app_profile_id c s = Ok c' \<Longrightarrow> config_ok p c'"
    and "with_endpoint p c s = Ok c' \<Longrightarrow> config_ok p c'"
    and "with_emulator_host p c s = Ok c' \<Longrightarrow> config_ok p c'"
    and "with_channel_pool_size c n = Ok c' \<Longrightarrow> config_ok p c'"
    and "with_connect_timeout c t = Ok c' \<Longrightarrow> config_ok p c'"
    and "with_request_timeout c t = Ok c' \<Longrightarrow> config_ok p c'"
    and "with_keep_alive c t u = Ok c' \<Longrightarrow> config_ok p c'"
  using assms
  by (auto simp: with_app_profile_id_def with_endpoint_def with_emulator_host_def
      with_channel_pool_size_def with_connect_timeout_def with_request_timeout_def
      with_keep_alive_def config_check_iffs config_ok_def)

lemma config_built_ok: "config_built p c \<Longrightarrow> config_ok p c"
  by (induction rule: config_built.induct) (auto intro: config_try_from_ok dest: builders_ok)

lemma loaded_configuration_is_built:
  "config_load extract p = Ok c \<Longrightarrow> config_built p c"
  by (auto simp: config_load_def and_then_Inr_iff intro: config_built.raw)

text \<open>A rejected setting is reported with the field it belongs to.\<close>

lemma config_check_errors:
  "non_empty v f = Err e \<Longrightarrow> \<exists>i. e = InvalidConfig f i"
  "non_empty_with_max_chars v f n = Err e \<Longrightarrow> \<exists>i. e = InvalidConfig f i"
  "valid_uri p v f = Err e \<Longrightarrow> \<exists>i. e = InvalidConfig f i"
  "ensure_positive m f = Err e \<Longrightarrow> \<exists>i. e = InvalidConfig f i"
  "ensure_nonzero d f = Err e \<Longrightarrow> \<exists>i. e = InvalidConfig f i"
  "transpose_result (map_option (\<lambda>h. valid_uri p (g h) f) x) = Err e \<Longrightarrow> \<exists>i. e = InvalidConfig f i"
proof -
  show ne: "\<exists>i. e = InvalidConfig f i" if "non_empty v f = Err e" for v e
    using that by (auto simp: non_empty_def Let_def split: if_splits)
  show "non_empty_with_max_chars v f n = Err e \<Longrightarrow> \<exists>i. e = InvalidConfig f i"
    by (auto simp: non_empty_with_max_chars_def and_then_Inl_iff dest: ne split: if_splits)
  show uri: "\<exists>i. e = InvalidConfig f i" if "valid_uri p v f = Err e" for v e
    using that by (auto simp: valid_uri_def and_then_Inl_iff Let_def ok_or_def
        dest: ne split: if_splits option.splits)
  show "ensure_positive m f = Err e \<Longrightarrow> \<exists>i. e = InvalidConfig f i"
    "ensure_nonzero d f = Err e \<Longrightarrow> \<exists>i. e = InvalidConfig f i"
    by (auto simp: ensure_positive_def ensure_nonzero_def split: if_splits)
  show "transpose_result (map_option (\<lambda>h. valid_uri p (g h) f) x) = Err e \<Longrightarrow> \<exists>i. e = InvalidConfig f i"
    by (cases x) (auto simp: transpose_result_def map_ok_def dest: uri split: sum.splits)
qed

lemma config_try_from_error:
  assumes "config_try_from p r = Err e"
  shows "\<exists>f i. e = InvalidConfig f i"
  using assms unfolding config_try_from_def and_then_Inl_iff
  by (elim disjE exE conjE) (blast dest: config_check_errors | simp)+

text \<open>A settings source that cannot be parsed is reported as such, whatever the URI parser does.\<close>

lemma config_load_error:
  "config_load extract p = Err (ConfigLoad source) \<longleftrightarrow>
     extract raw_config_default ''BIGTABLE_'' = Err source"
proof (cases "extract raw_config_default ''BIGTABLE_''")
  case (Inr raw)
  then show ?thesis
    using config_try_from_error [of p raw "ConfigLoad source"] by (auto simp: config_load_def)
qed (auto simp: config_load_def)

text \<open>An environment that sets nothing leaves the project identifier empty.\<close>

lemma config_load_of_empty_environment:
  assumes "extract raw_config_default ''BIGTABLE_'' = Ok raw_config_default"
  shows "config_load extract p = Err (InvalidConfig ProjectId ConfigIssue.Empty)"
proof -
  have "trim [] = []" by (simp add: trim_def strip_leading.simps leading_def white_space_def)
  with assms show ?thesis
    by (simp add: config_load_def config_try_from_def raw_config_default_def non_empty_def)
qed

section \<open>Table identifiers and resource names\<close>

definition max_table_id_chars :: nat where "max_table_id_chars = 50"
definition max_row_key_bytes :: nat where "max_row_key_bytes = 4 * 1024"

datatype TableIdIssue = Empty | TooLong | ContainsSlash

definition validate_table_id :: "string \<Rightarrow> (TableIdIssue, unit) result" where
  "validate_table_id table_id =
     (if table_id = [] then Err TableIdIssue.Empty
      else if chars_count table_id > max_table_id_chars then Err TableIdIssue.TooLong
      else if CHR ''/'' \<in> set table_id then Err ContainsSlash
      else Ok ())"

definition table_name :: "ClientConfig \<Rightarrow> string \<Rightarrow> string" where
  "table_name config table_id =
     ''projects/'' @ project_id config @ ''/instances/'' @ instance_id config
       @ ''/tables/'' @ table_id"

definition valid_table_id :: "string \<Rightarrow> bool" where
  "valid_table_id t \<longleftrightarrow> t \<noteq> [] \<and> chars_count t \<le> max_table_id_chars \<and> CHR ''/'' \<notin> set t"

lemma validate_table_id_Ok: "validate_table_id t = Ok u \<longleftrightarrow> valid_table_id t"
  by (auto simp: validate_table_id_def valid_table_id_def)

text \<open>
  A name determines its table: the identifier is what follows the last slash, so two
  different valid identifiers never name the same resource under one configuration.
\<close>

definition after_last_slash :: "string \<Rightarrow> string" where
  "after_last_slash s = rev (takeWhile (\<lambda>c. c \<noteq> CHR ''/'') (rev s))"

lemma after_last_slash_append:
  "CHR ''/'' \<notin> set t \<Longrightarrow> after_last_slash (s @ CHR ''/'' # t) = t"
proof -
  assume "CHR ''/'' \<notin> set t"
  then have "takeWhile (\<lambda>c. c \<noteq> CHR ''/'') (rev t @ CHR ''/'' # rev s) = rev t"
    by (subst takeWhile_append2) auto
  then show ?thesis by (simp add: after_last_slash_def)
qed

lemma after_last_slash_table_name:
  "valid_table_id t \<Longrightarrow> after_last_slash (table_name config t) = t"
  using after_last_slash_append
    [of t "''projects/'' @ project_id config @ ''/instances/'' @ instance_id config @ ''/tables''"]
  by (simp add: table_name_def valid_table_id_def)

section \<open>The channel endpoint\<close>

record EndpointSettings =
  es_uri :: Uri
  es_connect_timeout :: duration
  es_http2_keep_alive_interval :: duration
  es_keep_alive_timeout :: duration
  es_keep_alive_while_idle :: bool
  es_tcp_nodelay :: bool
  es_tls_webpki_roots :: bool

text \<open>
  \<open>channel::build\_endpoint\<close>. Turning on TLS is a call into tonic that can fail with a
  transport error: \<open>tls_config\<close> is its outcome, \<open>None\<close> for success.
\<close>

definition build_endpoint ::
    "(string \<Rightarrow> Uri option) \<Rightarrow> string option \<Rightarrow> ClientConfig \<Rightarrow> (Error, EndpointSettings) result" where
  "build_endpoint parse_uri tls_config config =
     and_then (ok_or (InvalidConfig (if uses_emulator config then EmulatorHost else Endpoint)
                        InvalidUri) (parse_uri (service_endpoint config))) (\<lambda>uri.
       let e = \<lparr>es_uri = uri, es_connect_timeout = connect_timeout config,
                es_http2_keep_alive_interval = keep_alive_interval config,
                es_keep_alive_timeout = keep_alive_timeout config,
                es_keep_alive_while_idle = True, es_tcp_nodelay = True,
                es_tls_webpki_roots = False\<rparr>
       in if \<not> uses_emulator config
          then (case tls_config of None \<Rightarrow> Ok (e\<lparr>es_tls_webpki_roots := True\<rparr>)
                | Some source \<Rightarrow> Err (Transport source))
          else Ok e)"

lemma config_ok_service_endpoint:
  "config_ok p c \<Longrightarrow> usable_uri p (service_endpoint c)"
  by (auto simp: config_ok_def service_endpoint_def split: option.splits)

section \<open>Properties\<close>

text \<open>
  C15. Every configuration that an application can hold, however it was made and changed,
  satisfies all the checks of the API, and the channel built from it never reports an invalid
  URI: the only failure left is that of setting up TLS.
\<close>

theorem built_configuration_is_usable:
  assumes "config_built parse_uri c"
  shows "config_ok parse_uri c \<and>
    build_endpoint parse_uri tls c \<noteq> Err (InvalidConfig field InvalidUri)"
proof -
  have ok: "config_ok parse_uri c" using assms by (rule config_built_ok)
  then have "usable_uri parse_uri (service_endpoint c)" by (rule config_ok_service_endpoint)
  then obtain uri where "parse_uri (service_endpoint c) = Some uri"
    by (cases "parse_uri (service_endpoint c)") (auto simp: usable_uri_def)
  then show ?thesis
    using ok by (simp add: build_endpoint_def Let_def split: option.split)
qed

definition sample_parse_uri :: "string \<Rightarrow> Uri option" where
  "sample_parse_uri s =
     (if take 8 s = ''https://''
      then Some \<lparr>uri_scheme = Some ''https'', uri_authority = Some (drop 8 s), uri_path = '''',
                 uri_query = None\<rparr>
      else None)"

definition sample_config :: ClientConfig where
  "sample_config =
     \<lparr>project_id = ''p'', instance_id = ''i'', app_profile_id = ''default'',
      endpoint = ''https://bigtable.googleapis.com'', emulator_host = None,
      channel_pool_size = 4, connect_timeout = secs 10, request_timeout = secs 600,
      keep_alive_interval = secs 60, keep_alive_timeout = secs 20\<rparr>"

lemmas trim_eval = trim_def strip_leading.simps leading_def white_space_def

lemma sample_trims:
  "trim '' p'' = ''p''" "trim ''i '' = ''i''" "trim ''default'' = ''default''"
  "trim ''https://bigtable.googleapis.com'' = ''https://bigtable.googleapis.com''"
  by (simp_all add: trim_eval)

lemma sample_config_built: "config_built sample_parse_uri sample_config"
proof (rule config_built.pool [OF config_built.raw])
  show "config_try_from sample_parse_uri
      (raw_config_default\<lparr>raw_project_id := '' p'', raw_instance_id := ''i ''\<rparr>)
    = Ok (sample_config\<lparr>channel_pool_size := 1\<rparr>)"
    by (simp add: config_try_from_def raw_config_default_def sample_config_def non_empty_def
        non_empty_with_max_chars_def valid_uri_def sample_trims sample_parse_uri_def
        transpose_result_def ensure_positive_def ensure_nonzero_def secs_def
        chars_count_def is_continuation_def max_app_profile_id_chars_def)
  show "with_channel_pool_size (sample_config\<lparr>channel_pool_size := 1\<rparr>) 4 = Ok sample_config"
    by (simp add: with_channel_pool_size_def ensure_positive_def sample_config_def)
qed

theorem built_configuration_is_usable_witness:
  "config_ok sample_parse_uri sample_config
   \<and> build_endpoint sample_parse_uri None sample_config \<noteq> Err (InvalidConfig Endpoint InvalidUri)"
  by (rule built_configuration_is_usable [OF sample_config_built])

text \<open>
  Resource names do not collide: under one configuration two valid table identifiers
  that differ give different table names, and the identifier can be read off the name.
\<close>

theorem table_names_are_unambiguous:
  assumes "validate_table_id s = Ok ()" and "validate_table_id t = Ok ()"
  shows "(table_name config s = table_name config t \<longleftrightarrow> s = t)
    \<and> after_last_slash (table_name config s) = s"
  using assms unfolding validate_table_id_Ok by (metis after_last_slash_table_name)

theorem table_names_are_unambiguous_witness:
  "table_name sample_config ''users'' \<noteq> table_name sample_config ''orders''
   \<and> after_last_slash (table_name sample_config ''users'') = ''users''"
proof -
  have "validate_table_id ''users'' = Ok ()" "validate_table_id ''orders'' = Ok ()"
    by (simp_all add: validate_table_id_def chars_count_def is_continuation_def
        max_table_id_chars_def)
  from table_names_are_unambiguous [OF this, of sample_config] show ?thesis by simp
qed

end
