(* ===== verification/Query.thy ===== *)
theory Query
  imports Config
begin

text \<open>
  \<open>query.rs\<close>: row ranges, the query builder, its validation, and the \<open>ReadRows\<close> request it
  becomes. The request, row set and row range messages are generated code; the model keeps
  the fields the client fills or reads, all others stay at their protobuf default. A
  \<open>RowFilter\<close> is never looked into and is kept as its encoded bytes.
\<close>

type_synonym RowFilter = bytes

section \<open>Protobuf messages of a read\<close>

datatype StartKey = StartKeyClosed bytes | StartKeyOpen bytes
datatype EndKey = EndKeyOpen bytes | EndKeyClosed bytes

record ProtoRowRange =
  start_key :: "StartKey option"
  end_key :: "EndKey option"

record RowSet =
  rs_row_keys :: "bytes list"
  rs_row_ranges :: "ProtoRowRange list"

record ReadRowsRequest =
  rr_table_name :: string
  rr_app_profile_id :: string
  rr_rows :: "RowSet option"
  rr_filter :: "RowFilter option"
  rr_rows_limit :: i64
  rr_reversed :: bool

text \<open>The keys a range, a row set and a request select: what these messages mean.\<close>

definition after_start :: "StartKey option \<Rightarrow> bytes \<Rightarrow> bool" where
  "after_start s k = (case s of None \<Rightarrow> True
     | Some (StartKeyClosed a) \<Rightarrow> a \<le> k | Some (StartKeyOpen a) \<Rightarrow> a < k)"

definition before_end :: "EndKey option \<Rightarrow> bytes \<Rightarrow> bool" where
  "before_end e k = (case e of None \<Rightarrow> True
     | Some (EndKeyClosed b) \<Rightarrow> k \<le> b | Some (EndKeyOpen b) \<Rightarrow> k < b)"

definition in_proto_range :: "ProtoRowRange \<Rightarrow> bytes \<Rightarrow> bool" where
  "in_proto_range r k \<longleftrightarrow> after_start (start_key r) k \<and> before_end (end_key r) k"

definition in_row_set :: "RowSet \<Rightarrow> bytes \<Rightarrow> bool" where
  "in_row_set rs k \<longleftrightarrow> k \<in> set (rs_row_keys rs) \<or> (\<exists>r \<in> set (rs_row_ranges rs). in_proto_range r k)"

definition request_selects :: "ReadRowsRequest \<Rightarrow> bytes \<Rightarrow> bool" where
  "request_selects req k = (case rr_rows req of None \<Rightarrow> True | Some rs \<Rightarrow> in_row_set rs k)"

section \<open>Row ranges\<close>

datatype RowBound = Unbounded | Inclusive bytes | Exclusive bytes

record RowRange =
  range_start :: RowBound
  range_end :: RowBound

definition row_range_new :: "RowBound \<Rightarrow> RowBound \<Rightarrow> RowRange" where
  "row_range_new s e = \<lparr>range_start = s, range_end = e\<rparr>"

definition in_row_range :: "RowRange \<Rightarrow> bytes \<Rightarrow> bool" where
  "in_row_range r k \<longleftrightarrow>
     (case range_start r of Unbounded \<Rightarrow> True | Inclusive a \<Rightarrow> a \<le> k | Exclusive a \<Rightarrow> a < k)
   \<and> (case range_end r of Unbounded \<Rightarrow> True | Inclusive b \<Rightarrow> k \<le> b | Exclusive b \<Rightarrow> k < b)"

text \<open>\<open>slice.iter().rposition\<close>: the index of the last element that satisfies a predicate.\<close>

definition rposition :: "('a \<Rightarrow> bool) \<Rightarrow> 'a list \<Rightarrow> nat option" where
  "rposition p xs = find (\<lambda>i. p (xs ! i)) (rev [0..<length xs])"

definition prefix_successor :: "bytes \<Rightarrow> bytes option" where
  "prefix_successor pre =
     (case rposition (\<lambda>byte. byte \<noteq> 255) pre of
        None \<Rightarrow> None
      | Some index \<Rightarrow> Some (take (index + 1) (pre[index := pre ! index + 1])))"

definition row_range_prefix :: "bytes \<Rightarrow> RowRange" where
  "row_range_prefix p =
     row_range_new (Inclusive p)
       (case prefix_successor p of None \<Rightarrow> Unbounded | Some e \<Rightarrow> Exclusive e)"

definition proto_row_range :: "RowRange \<Rightarrow> ProtoRowRange" where
  "proto_row_range r =
     \<lparr>start_key = (case range_start r of Unbounded \<Rightarrow> None
        | Inclusive k \<Rightarrow> Some (StartKeyClosed k) | Exclusive k \<Rightarrow> Some (StartKeyOpen k)),
      end_key = (case range_end r of Unbounded \<Rightarrow> None
        | Inclusive k \<Rightarrow> Some (EndKeyClosed k) | Exclusive k \<Rightarrow> Some (EndKeyOpen k))\<rparr>"

lemma in_proto_row_range [simp]: "in_proto_range (proto_row_range r) k = in_row_range r k"
  by (auto simp: in_proto_range_def proto_row_range_def in_row_range_def after_start_def
      before_end_def split: RowBound.splits)

subsection \<open>The prefix range is exactly the keys with the prefix\<close>

lemma find_append: "find p (xs @ ys) = (case find p xs of None \<Rightarrow> find p ys | Some x \<Rightarrow> Some x)"
  by (induction xs) auto

lemma find_map_index: "find p (map f xs) = map_option f (find (\<lambda>x. p (f x)) xs)"
  by (induction xs) auto

lemma rposition_Nil [simp]: "rposition p [] = None"
  by (simp add: rposition_def)

lemma rposition_Cons:
  "rposition p (x # xs) =
     (case rposition p xs of Some i \<Rightarrow> Some (Suc i) | None \<Rightarrow> if p x then Some 0 else None)"
proof -
  have "[0..<length (x # xs)] = 0 # map Suc [0..<length xs]"
    by (simp add: map_Suc_upt upt_conv_Cons del: upt_Suc)
  then have "rev [0..<length (x # xs)] = map Suc (rev [0..<length xs]) @ [0]"
    by (simp add: rev_map)
  then have "rposition p (x # xs) =
      find (\<lambda>i. p ((x # xs) ! i)) (map Suc (rev [0..<length xs]) @ [0])"
    by (simp only: rposition_def)
  then show ?thesis
    unfolding find_append find_map_index rposition_def
    by (cases "find (\<lambda>i. p (xs ! i)) (rev [0..<length xs])") simp_all
qed

lemma prefix_successor_Nil [simp]: "prefix_successor [] = None"
  by (simp add: prefix_successor_def)

lemma prefix_successor_Cons:
  "prefix_successor (b # p) =
     (case prefix_successor p of Some e \<Rightarrow> Some (b # e)
      | None \<Rightarrow> if b = 255 then None else Some [b + 1])"
  by (cases "rposition (\<lambda>byte. byte \<noteq> 255) p") (simp_all add: prefix_successor_def rposition_Cons)

lemma u8_less_inc: "(b :: u8) \<noteq> 255 \<Longrightarrow> y < b + 1 \<longleftrightarrow> y \<le> b"
proof -
  assume "b \<noteq> 255"
  then have "unat b \<noteq> 255" by (auto simp: word_unat_eq_iff)
  with unsigned_less [of b, where 'a = nat] have "unat (b + 1) = unat b + 1"
    by (simp add: unat_word_ariths)
  then show ?thesis by (simp add: word_less_nat_alt word_le_nat_alt less_Suc_eq_le)
qed

lemma u8_le_255: "\<not> (255 :: u8) < b"
  using unsigned_less [of b, where 'a = nat] by (simp add: word_less_nat_alt)

lemma prefix_successor_bounds:
  "p \<le> k \<and> (case prefix_successor p of None \<Rightarrow> True | Some e \<Rightarrow> k < e) \<longleftrightarrow> prefix p k"
proof (induction p arbitrary: k)
  case Nil
  then show ?case by simp
next
  case (Cons b p)
  show ?case
  proof (cases k)
    case Nil
    then show ?thesis by simp
  next
    case (Cons y ys)
    have IH: "p \<le> ys \<and> (case prefix_successor p of None \<Rightarrow> True | Some e \<Rightarrow> ys < e) \<longleftrightarrow> prefix p ys"
      by (rule Cons.IH)
    show ?thesis
    proof (cases "prefix_successor p")
      case None
      with IH Cons show ?thesis
        by (auto simp: prefix_successor_Cons u8_less_inc u8_le_255)
    next
      case (Some e)
      with IH Cons show ?thesis by (auto simp: prefix_successor_Cons)
    qed
  qed
qed

lemma in_row_range_prefix: "in_row_range (row_range_prefix p) k \<longleftrightarrow> prefix p k"
  using prefix_successor_bounds [of p k]
  by (auto simp: in_row_range_def row_range_prefix_def row_range_new_def split: option.splits)

section \<open>Queries\<close>

record Query =
  q_table_id :: string
  q_row_keys :: "bytes list"
  q_row_ranges :: "RowRange list"
  q_filter :: "RowFilter option"
  q_limit :: "i64 option"
  q_reversed :: bool

definition query_new :: "string \<Rightarrow> (Error, Query) result" where
  "query_new table_id =
     and_then (map_err (\<lambda>issue. invalid_query (case issue of
                  TableIdIssue.Empty \<Rightarrow> QueryIssue.EmptyTableId
                | TableIdIssue.TooLong \<Rightarrow> QueryIssue.TableIdTooLong
                | ContainsSlash \<Rightarrow> QueryIssue.TableIdContainsSlash))
                (validate_table_id table_id)) (\<lambda>_.
       Ok \<lparr>q_table_id = table_id, q_row_keys = [], q_row_ranges = [], q_filter = None,
           q_limit = None, q_reversed = False\<rparr>)"

definition query_row_key :: "Query \<Rightarrow> bytes \<Rightarrow> Query" where
  "query_row_key self key = self\<lparr>q_row_keys := q_row_keys self @ [key]\<rparr>"

definition query_row_keys :: "Query \<Rightarrow> bytes list \<Rightarrow> Query" where
  "query_row_keys self keys = self\<lparr>q_row_keys := q_row_keys self @ keys\<rparr>"

definition query_row_range :: "Query \<Rightarrow> RowRange \<Rightarrow> Query" where
  "query_row_range self r = self\<lparr>q_row_ranges := q_row_ranges self @ [r]\<rparr>"

definition query_prefix :: "Query \<Rightarrow> bytes \<Rightarrow> Query" where
  "query_prefix self pre = query_row_range self (row_range_prefix pre)"

definition query_filter :: "Query \<Rightarrow> RowFilter \<Rightarrow> Query" where
  "query_filter self f = self\<lparr>q_filter := Some f\<rparr>"

definition query_limit :: "Query \<Rightarrow> u64 \<Rightarrow> (Error, Query) result" where
  "query_limit self limit =
     (if limit = 0 then Err (invalid_query ZeroRowLimit)
      else if uint limit \<le> i64_max then Ok (self\<lparr>q_limit := Some (uint limit)\<rparr>)
      else Err (invalid_query RowLimitTooLarge))"

definition query_reversed :: "Query \<Rightarrow> Query" where
  "query_reversed self = self\<lparr>q_reversed := True\<rparr>"

subsection \<open>Validation\<close>

definition validate_key_size :: "bytes \<Rightarrow> (Error, unit) result" where
  "validate_key_size key =
     (if length key > max_row_key_bytes then Err (invalid_query QueryIssue.RowKeyTooLong)
      else Ok ())"

definition validate_bound_size :: "RowBound \<Rightarrow> (Error, unit) result" where
  "validate_bound_size bound =
     (case bound of Unbounded \<Rightarrow> Ok ()
      | Inclusive key \<Rightarrow> validate_key_size key | Exclusive key \<Rightarrow> validate_key_size key)"

text \<open>A \<open>for\<close> loop whose body can return early with an error.\<close>

fun for_each :: "('a \<Rightarrow> (Error, unit) result) \<Rightarrow> 'a list \<Rightarrow> (Error, unit) result" where
  "for_each body [] = Ok ()"
| "for_each body (x # xs) = and_then (body x) (\<lambda>_. for_each body xs)"

definition query_validate :: "Query \<Rightarrow> (Error, unit) result" where
  "query_validate self =
     and_then (for_each (\<lambda>key. if key = [] then Err (invalid_query QueryIssue.EmptyRowKey)
                               else validate_key_size key) (q_row_keys self)) (\<lambda>_.
     for_each (\<lambda>r. and_then (validate_bound_size (range_start r)) (\<lambda>_.
                   validate_bound_size (range_end r))) (q_row_ranges self))"

definition into_request :: "Query \<Rightarrow> ClientConfig \<Rightarrow> ReadRowsRequest" where
  "into_request self config =
     (let rows = (if q_row_keys self = [] \<and> q_row_ranges self = [] then None
                  else Some \<lparr>rs_row_keys = q_row_keys self,
                             rs_row_ranges = map proto_row_range (q_row_ranges self)\<rparr>)
      in \<lparr>rr_table_name = table_name config (q_table_id self),
          rr_app_profile_id = app_profile_id config,
          rr_rows = rows,
          rr_filter = q_filter self,
          rr_rows_limit = (case q_limit self of None \<Rightarrow> 0 | Some l \<Rightarrow> l),
          rr_reversed = q_reversed self\<rparr>)"

subsection \<open>What the builders and the request guarantee\<close>

lemma for_each_Ok: "for_each body xs = Ok u \<longleftrightarrow> (\<forall>x \<in> set xs. body x = Ok ())"
  by (induction xs) (auto simp: and_then_Inr_iff)

lemma validate_key_size_Ok [simp]: "validate_key_size k = Ok u \<longleftrightarrow> length k \<le> max_row_key_bytes"
  by (auto simp: validate_key_size_def)

definition bound_key :: "RowBound \<Rightarrow> bytes" where
  "bound_key b = (case b of Unbounded \<Rightarrow> [] | Inclusive k \<Rightarrow> k | Exclusive k \<Rightarrow> k)"

lemma validate_bound_size_Ok [simp]:
  "validate_bound_size b = Ok u \<longleftrightarrow> length (bound_key b) \<le> max_row_key_bytes"
  by (auto simp: validate_bound_size_def bound_key_def split: RowBound.splits)

lemma query_validate_Ok:
  "query_validate q = Ok u \<longleftrightarrow>
     (\<forall>k \<in> set (q_row_keys q). k \<noteq> [] \<and> length k \<le> max_row_key_bytes)
   \<and> (\<forall>r \<in> set (q_row_ranges q). length (bound_key (range_start r)) \<le> max_row_key_bytes
        \<and> length (bound_key (range_end r)) \<le> max_row_key_bytes)"
  by (auto simp: query_validate_def and_then_Inr_iff for_each_Ok split: if_splits)

inductive query_built :: "Query \<Rightarrow> bool" where
  new: "query_new t = Ok q \<Longrightarrow> query_built q"
| row_key: "query_built q \<Longrightarrow> query_built (query_row_key q k)"
| row_keys: "query_built q \<Longrightarrow> query_built (query_row_keys q ks)"
| row_range: "query_built q \<Longrightarrow> query_built (query_row_range q r)"
| prefix: "query_built q \<Longrightarrow> query_built (query_prefix q p)"
| filter: "query_built q \<Longrightarrow> query_built (query_filter q f)"
| limit: "query_built q \<Longrightarrow> query_limit q n = Ok q' \<Longrightarrow> query_built q'"
| reversed: "query_built q \<Longrightarrow> query_built (query_reversed q)"

definition query_ok :: "Query \<Rightarrow> bool" where
  "query_ok q \<longleftrightarrow> valid_table_id (q_table_id q)
     \<and> (\<forall>l. q_limit q = Some l \<longrightarrow> 0 < l \<and> l \<le> i64_max)"

lemma query_new_ok: "query_new t = Ok q \<Longrightarrow> query_ok q"
  by (auto simp: query_new_def and_then_Inr_iff map_err_Inr_iff validate_table_id_Ok query_ok_def)

lemma query_limit_ok: "query_ok q \<Longrightarrow> query_limit q n = Ok q' \<Longrightarrow> query_ok q'"
  by (auto simp: query_limit_def query_ok_def word_neq_0_conv word_less_alt split: if_splits)

lemma query_builder_ok:
  "query_ok q \<Longrightarrow> query_ok (query_row_key q k)"
  "query_ok q \<Longrightarrow> query_ok (query_row_keys q ks)"
  "query_ok q \<Longrightarrow> query_ok (query_row_range q r)"
  "query_ok q \<Longrightarrow> query_ok (query_prefix q p)"
  "query_ok q \<Longrightarrow> query_ok (query_filter q f)"
  "query_ok q \<Longrightarrow> query_ok (query_reversed q)"
  by (simp_all add: query_ok_def query_row_key_def query_row_keys_def query_row_range_def
      query_prefix_def query_filter_def query_reversed_def)

lemma query_built_ok: "query_built q \<Longrightarrow> query_ok q"
  by (induction rule: query_built.induct)
    (simp_all add: query_new_ok query_limit_ok query_builder_ok)

lemma request_selects_into_request:
  "request_selects (into_request q c) k \<longleftrightarrow>
     q_row_keys q = [] \<and> q_row_ranges q = [] \<or> k \<in> set (q_row_keys q)
   \<or> (\<exists>r \<in> set (q_row_ranges q). in_row_range r k)"
  by (auto simp: request_selects_def into_request_def in_row_set_def Let_def)

section \<open>Properties\<close>

text \<open>
  C16. A prefix query selects exactly the keys that start with the prefix: the exclusive end
  bound computed by \<open>prefix_successor\<close> drops trailing bytes 255 and increments the last other
  byte without overflow, and no bound is needed when every byte is 255.
\<close>

theorem prefix_query_selects_prefix:
  "request_selects (into_request (query_prefix q p) config) k \<longleftrightarrow>
     prefix p k \<or> k \<in> set (q_row_keys q) \<or> (\<exists>r \<in> set (q_row_ranges q). in_row_range r k)"
  by (auto simp: request_selects_into_request query_prefix_def query_row_range_def
      in_row_range_prefix)

definition request_within_limits :: "ReadRowsRequest \<Rightarrow> bool" where
  "request_within_limits req \<longleftrightarrow> 0 \<le> rr_rows_limit req \<and> rr_rows_limit req \<le> i64_max
     \<and> valid_table_id (after_last_slash (rr_table_name req))
     \<and> (case rr_rows req of None \<Rightarrow> True
        | Some rows \<Rightarrow> list_all (\<lambda>k. k \<noteq> [] \<and> length k \<le> max_row_key_bytes) (rs_row_keys rows))"


definition sample_query :: Query where
  "sample_query = \<lparr>q_table_id = ''t'', q_row_keys = [[1]], q_row_ranges = [], q_filter = None,
     q_limit = Some 5, q_reversed = False\<rparr>"

lemma sample_query_built: "query_built sample_query"
proof -
  have "query_new ''t'' = Ok (sample_query\<lparr>q_row_keys := [], q_limit := None\<rparr>)"
    by (simp add: query_new_def validate_table_id_def chars_count_def is_continuation_def
        max_table_id_chars_def sample_query_def)
  then have "query_built (sample_query\<lparr>q_row_keys := [], q_limit := None\<rparr>)"
    by (rule query_built.new)
  then have "query_built (query_row_key (sample_query\<lparr>q_row_keys := [], q_limit := None\<rparr>) [1])"
    by (rule query_built.row_key)
  moreover have "query_limit (query_row_key (sample_query\<lparr>q_row_keys := [], q_limit := None\<rparr>) [1]) 5
      = Ok sample_query"
    by (simp add: query_limit_def query_row_key_def sample_query_def i64_max_def)
  ultimately show ?thesis by (rule query_built.limit)
qed


end
