(* ===== verification/Rows.thy ===== *)
theory Rows
  imports Errors
begin

text \<open>
  \<open>row.rs\<close>: the row data handed to applications, and what it means for such a row to be
  well formed. The scan order of a read, ascending or descending, is the interface
  \<open>scan_order\<close>: the merger and the request resumption both rest on it.
\<close>

section \<open>The row model\<close>

record Cell =
  cell_timestamp_micros :: i64
  cell_value :: bytes
  cell_labels :: "string list"

record Column =
  col_qualifier :: bytes
  col_cells :: "Cell list"

record Family =
  fam_name :: string
  fam_columns :: "Column list"

record Row =
  row_key :: bytes
  row_families :: "Family list"

definition family_ok :: "Family \<Rightarrow> bool" where
  "family_ok f \<longleftrightarrow> fam_columns f \<noteq> [] \<and> distinct (map col_qualifier (fam_columns f))
     \<and> (\<forall>c \<in> set (fam_columns f). col_cells c \<noteq> [])"

definition families_ok :: "Family list \<Rightarrow> bool" where
  "families_ok fs \<longleftrightarrow> distinct (map fam_name fs) \<and> (\<forall>f \<in> set fs. family_ok f)"

definition row_ok :: "Row \<Rightarrow> bool" where
  "row_ok r \<longleftrightarrow> row_key r \<noteq> [] \<and> row_families r \<noteq> [] \<and> families_ok (row_families r)"

text \<open>The cells of one column of a row, and all cells of a row in response order.\<close>

definition cells_at :: "Family list \<Rightarrow> string \<Rightarrow> bytes \<Rightarrow> Cell list" where
  "cells_at fs fam qual =
     (case find (\<lambda>f. fam_name f = fam) fs of None \<Rightarrow> []
      | Some f \<Rightarrow> (case find (\<lambda>c. col_qualifier c = qual) (fam_columns f) of None \<Rightarrow> []
                   | Some c \<Rightarrow> col_cells c))"

definition flatten_column :: "string \<Rightarrow> Column \<Rightarrow> (string \<times> bytes \<times> Cell) list" where
  "flatten_column fam c = map (\<lambda>x. (fam, col_qualifier c, x)) (col_cells c)"

definition flatten_family :: "Family \<Rightarrow> (string \<times> bytes \<times> Cell) list" where
  "flatten_family f = concat (map (flatten_column (fam_name f)) (fam_columns f))"

definition flatten :: "Family list \<Rightarrow> (string \<times> bytes \<times> Cell) list" where
  "flatten fs = concat (map flatten_family fs)"

section \<open>The scan order\<close>

text \<open>
  \<open>ahead reversed key previous\<close>: a scan in this direction meets \<open>key\<close> after \<open>previous\<close>.
\<close>

definition ahead :: "bool \<Rightarrow> bytes \<Rightarrow> bytes \<Rightarrow> bool" where
  "ahead reversed key previous = (if reversed then key < previous else key > previous)"

text \<open>The same against an optional previous key: before the first row anything is ahead.\<close>

definition ahead_opt :: "bool \<Rightarrow> bytes \<Rightarrow> bytes option \<Rightarrow> bool" where
  "ahead_opt reversed key previous =
     (case previous of None \<Rightarrow> True | Some p \<Rightarrow> ahead reversed key p)"

locale scan_order =
  fixes later :: "'k \<Rightarrow> 'k \<Rightarrow> bool"
  assumes later_irrefl: "\<not> later k k"
    and later_trans: "later c b \<Longrightarrow> later b a \<Longrightarrow> later c a"
    and later_total: "a \<noteq> b \<Longrightarrow> later a b \<or> later b a"
begin

definition in_order :: "'k list \<Rightarrow> bool" where
  "in_order ks \<longleftrightarrow> sorted_wrt (\<lambda>a b. later b a) ks"

lemma in_order_Nil: "in_order []"
  by (simp add: in_order_def)

lemma in_order_distinct: "in_order ks \<Longrightarrow> distinct ks"
  unfolding in_order_def
  by (induction ks) (auto simp: later_irrefl)

lemma in_order_snoc: "in_order (ks @ [k]) \<longleftrightarrow> in_order ks \<and> (\<forall>x \<in> set ks. later k x)"
  by (auto simp: in_order_def sorted_wrt_append)

lemma in_order_append:
  "in_order (ks @ ls) \<longleftrightarrow> in_order ks \<and> in_order ls \<and> (\<forall>x \<in> set ks. \<forall>y \<in> set ls. later y x)"
  by (auto simp: in_order_def sorted_wrt_append)

text \<open>Beyond the place a scan has reached, if it has reached one.\<close>

definition beyond :: "'k \<Rightarrow> 'k option \<Rightarrow> bool" where
  "beyond k place \<longleftrightarrow> (case place of None \<Rightarrow> True | Some p \<Rightarrow> later k p)"

lemma beyond_simps [simp]: "beyond k None" "beyond k (Some p) \<longleftrightarrow> later k p"
  by (simp_all add: beyond_def)

lemma beyond_trans: "later k q \<Longrightarrow> beyond q place \<Longrightarrow> beyond k place"
  by (cases place) (auto intro: later_trans)

lemma later_asym: "later a b \<Longrightarrow> \<not> later b a"
  using later_irrefl later_trans by blast

text \<open>Keys behind a point and keys beyond it split everything: what resumption relies on.\<close>

lemma not_later_iff: "\<not> later k p \<longleftrightarrow> k = p \<or> later p k"
  using later_total later_asym later_irrefl by blast

text \<open>The elements of an ordered list beyond its own element are those after it.\<close>

lemma in_order_split:
  "in_order (ks @ p # ls) \<Longrightarrow> filter (\<lambda>k. later k p) (ks @ p # ls) = ls"
proof -
  assume "in_order (ks @ p # ls)"
  then have "\<forall>x \<in> set ks. later p x" and "\<forall>y \<in> set ls. later y p"
    by (auto simp: in_order_def sorted_wrt_append)
  then have "filter (\<lambda>k. later k p) ks = []" and "filter (\<lambda>k. later k p) ls = ls"
    using later_asym by (auto simp: filter_empty_conv)
  then show ?thesis by (simp add: later_irrefl)
qed

end

interpretation scan: scan_order "ahead reversed" for reversed
  by unfold_locales (auto simp: ahead_def split: if_splits)

lemma beyond_ahead: "scan.beyond reversed = ahead_opt reversed"
  by (intro ext) (simp add: scan.beyond_def ahead_opt_def)

lemma ahead_opt_simps [simp]:
  "ahead_opt r k None" "ahead_opt r k (Some p) = ahead r k p"
  by (simp_all add: ahead_opt_def)

lemma ahead_opt_trans: "ahead r c b \<Longrightarrow> ahead_opt r b p \<Longrightarrow> ahead_opt r c p"
  by (cases p) (auto intro: scan.later_trans)

end
