(* ===== verification/Merge.thy ===== *)
theory Merge
  imports Rows
begin

text \<open>
  \<open>merge.rs\<close>: the state machine that assembles streamed cell chunks into complete rows.
  Every method takes the merger and returns the result together with the merger as the
  method leaves it, on error paths too. The reference it is compared with is
  \<open>add_cell\<close>, which files one cell under its family and column.
\<close>

section \<open>Chunks and the merger state\<close>

datatype RowStatus = ResetRow bool | CommitRow bool

record CellChunk =
  ch_row_key :: bytes
  ch_family_name :: "string option"
  ch_qualifier :: "bytes option"
  ch_timestamp_micros :: i64
  ch_labels :: "string list"
  ch_value :: bytes
  ch_value_size :: i32
  ch_row_status :: "RowStatus option"

datatype State = NewRow | NewCell | CellValue

record RowMerger =
  m_reversed :: bool
  m_state :: State
  m_last_complete_key :: "bytes option"
  m_row :: Row
  m_family :: string
  m_qualifier :: bytes
  m_timestamp_micros :: i64
  m_labels :: "string list"
  m_value :: bytes
  m_expected_value_size :: nat
  m_remaining_value_bytes :: nat

definition empty_row :: Row where
  "empty_row = \<lparr>row_key = [], row_families = []\<rparr>"

definition merger_new :: "bool \<Rightarrow> RowMerger" where
  "merger_new reversed =
     \<lparr>m_reversed = reversed, m_state = NewRow, m_last_complete_key = None,
      m_row = empty_row, m_family = [], m_qualifier = [], m_timestamp_micros = 0,
      m_labels = [], m_value = [], m_expected_value_size = 0, m_remaining_value_bytes = 0\<rparr>"

definition is_reset :: "CellChunk \<Rightarrow> bool" where
  "is_reset chunk \<longleftrightarrow> ch_row_status chunk = Some (ResetRow True)"

definition is_commit :: "CellChunk \<Rightarrow> bool" where
  "is_commit chunk \<longleftrightarrow> ch_row_status chunk = Some (CommitRow True)"

section \<open>Operations\<close>

definition clear_cell :: "RowMerger \<Rightarrow> RowMerger" where
  "clear_cell self =
     self\<lparr>m_timestamp_micros := 0, m_labels := [], m_value := [],
          m_expected_value_size := 0, m_remaining_value_bytes := 0\<rparr>"

definition clear_active_row :: "RowMerger \<Rightarrow> RowMerger" where
  "clear_active_row self =
     (clear_cell (self\<lparr>m_row := empty_row, m_family := [], m_qualifier := []\<rparr>))
       \<lparr>m_state := NewRow\<rparr>"

definition validate_order :: "RowMerger \<Rightarrow> bytes \<Rightarrow> (RowMergeIssue, unit) result" where
  "validate_order self key =
     (case m_last_complete_key self of
        None \<Rightarrow> Ok ()
      | Some previous \<Rightarrow>
          let ordered = (if m_reversed self then key < previous else key > previous)
          in if ordered then Ok () else Err OutOfOrderRowKey)"

definition validate_reset :: "CellChunk \<Rightarrow> (RowMergeIssue, unit) result" where
  "validate_reset chunk =
     (let has_other_data = (ch_row_key chunk \<noteq> [] \<or> ch_family_name chunk \<noteq> None
            \<or> ch_qualifier chunk \<noteq> None \<or> ch_timestamp_micros chunk \<noteq> 0
            \<or> ch_labels chunk \<noteq> [] \<or> ch_value chunk \<noteq> [] \<or> ch_value_size chunk \<noteq> 0)
      in if has_other_data then Err ResetWithData else Ok ())"

definition finish_cell :: "RowMerger \<Rightarrow> RowMerger" where
  "finish_cell self =
     (let cell = \<lparr>cell_timestamp_micros = m_timestamp_micros self,
                  cell_value = m_value self, cell_labels = m_labels self\<rparr>;
          self = self\<lparr>m_value := [], m_labels := []\<rparr>;
          families = row_families (m_row self);
          column = \<lparr>col_qualifier = m_qualifier self, col_cells = [cell]\<rparr>;
          families' =
            (if \<exists>f \<in> set families. fam_name f = m_family self
             then update_first (\<lambda>f. fam_name f = m_family self)
               (\<lambda>f. f\<lparr>fam_columns :=
                  (if \<exists>c \<in> set (fam_columns f). col_qualifier c = m_qualifier self
                   then update_first (\<lambda>c. col_qualifier c = m_qualifier self)
                     (\<lambda>c. c\<lparr>col_cells := col_cells c @ [cell]\<rparr>) (fam_columns f)
                   else fam_columns f @ [column])\<rparr>) families
             else families @ [\<lparr>fam_name = m_family self, fam_columns = [column]\<rparr>])
      in self\<lparr>m_row := (m_row self)\<lparr>row_families := families'\<rparr>\<rparr>)"

definition commit_row :: "RowMerger \<Rightarrow> Row \<times> RowMerger" where
  "commit_row self =
     (let row = m_row self;
          self = self\<lparr>m_row := empty_row, m_last_complete_key := Some (row_key row)\<rparr>
      in (row, (clear_cell self)\<lparr>m_state := NewRow\<rparr>))"

type_synonym push_result = "(RowMergeIssue, Row option) result \<times> RowMerger"

definition start_cell :: "RowMerger \<Rightarrow> CellChunk \<Rightarrow> push_result" where
  "start_cell self chunk =
     (if is_reset chunk then
        (case validate_reset chunk of
           Inl issue \<Rightarrow> (Err issue, self)
         | Inr _ \<Rightarrow> (Ok None, clear_active_row self))
      else if ch_row_key chunk \<noteq> [] \<and> ch_row_key chunk \<noteq> row_key (m_row self) then
        (Err RowKeyChanged, self)
      else if ch_family_name chunk \<noteq> None \<and> ch_qualifier chunk = None then
        (Err FamilyWithoutQualifier, self)
      else
        let self = (case ch_family_name chunk of None \<Rightarrow> self
                    | Some family \<Rightarrow> self\<lparr>m_family := family\<rparr>);
            self = (case ch_qualifier chunk of None \<Rightarrow> self
                    | Some qualifier \<Rightarrow> self\<lparr>m_qualifier := qualifier\<rparr>)
        in if ch_value_size chunk < 0 then (Err NegativeValueSize, self)
        else
          let self = self\<lparr>m_timestamp_micros := ch_timestamp_micros chunk,
                          m_labels := ch_labels chunk, m_value := []\<rparr>
          in if ch_value_size chunk > 0 then
            if ch_value chunk = [] then (Err SplitValueMissingData, self)
            else if is_commit chunk then (Err CommitBeforeCellComplete, self)
            else
              let expected = nat (ch_value_size chunk)
              in if length (ch_value chunk) > expected then (Err SplitValueTooLarge, self)
              else (Ok None,
                    self\<lparr>m_value := m_value self @ ch_value chunk,
                         m_expected_value_size := expected,
                         m_remaining_value_bytes := expected - length (ch_value chunk),
                         m_state := CellValue\<rparr>)
          else
            let self = finish_cell (self\<lparr>m_value := m_value self @ ch_value chunk\<rparr>)
            in if is_commit chunk
               then let (row, self) = commit_row self in (Ok (Some row), self)
               else (Ok None, self\<lparr>m_state := NewCell\<rparr>))"

definition start_row :: "RowMerger \<Rightarrow> CellChunk \<Rightarrow> push_result" where
  "start_row self chunk =
     (if is_reset chunk then (Err ResetBetweenRows, self)
      else if ch_row_key chunk = [] then (Err MissingRowKey, self)
      else case ch_family_name chunk of
        None \<Rightarrow> (Err RowMergeIssue.MissingFamily, self)
      | Some family \<Rightarrow> (case ch_qualifier chunk of
          None \<Rightarrow> (Err MissingQualifier, self)
        | Some qualifier \<Rightarrow> (case validate_order self (ch_row_key chunk) of
            Inl issue \<Rightarrow> (Err issue, self)
          | Inr _ \<Rightarrow>
              start_cell
                (self\<lparr>m_row := \<lparr>row_key = ch_row_key chunk, row_families = []\<rparr>,
                      m_family := family, m_qualifier := qualifier, m_state := NewCell\<rparr>)
                chunk)))"

definition continue_cell :: "RowMerger \<Rightarrow> CellChunk \<Rightarrow> push_result" where
  "continue_cell self chunk =
     (if is_reset chunk then
        (case validate_reset chunk of
           Inl issue \<Rightarrow> (Err issue, self)
         | Inr _ \<Rightarrow> (Ok None, clear_active_row self))
      else if ch_row_key chunk \<noteq> [] \<or> ch_family_name chunk \<noteq> None
           \<or> ch_qualifier chunk \<noteq> None \<or> ch_timestamp_micros chunk \<noteq> 0
           \<or> ch_labels chunk \<noteq> [] then (Err CellMetadataOnContinuation, self)
      else if ch_value_size chunk < 0 then (Err NegativeValueSize, self)
      else if length (ch_value chunk) > m_remaining_value_bytes self then
        (Err SplitValueTooLarge, self)
      else
        let terminal = (ch_value_size chunk = 0)
        in if terminal \<and> length (ch_value chunk) \<noteq> m_remaining_value_bytes self then
          (Err SplitValueWrongSize, self)
        else if \<not> terminal \<and> nat (ch_value_size chunk) \<noteq> m_expected_value_size self then
          (Err SplitValueSizeChanged, self)
        else if \<not> terminal \<and> is_commit chunk then (Err CommitBeforeCellComplete, self)
        else
          let self = self\<lparr>m_value := m_value self @ ch_value chunk,
                          m_remaining_value_bytes :=
                            m_remaining_value_bytes self - length (ch_value chunk)\<rparr>
          in if \<not> terminal then (Ok None, self)
          else
            let self = finish_cell self
            in if is_commit chunk
               then let (row, self) = commit_row self in (Ok (Some row), self)
               else (Ok None, self\<lparr>m_state := NewCell\<rparr>))"

definition push :: "RowMerger \<Rightarrow> CellChunk \<Rightarrow> push_result" where
  "push self chunk =
     (case m_state self of
        NewRow \<Rightarrow> start_row self chunk
      | NewCell \<Rightarrow> start_cell self chunk
      | CellValue \<Rightarrow> continue_cell self chunk)"

definition scan_marker :: "RowMerger \<Rightarrow> bytes \<Rightarrow> (RowMergeIssue, unit) result \<times> RowMerger" where
  "scan_marker self key =
     (if m_state self \<noteq> NewRow then (Err ScanMarkerDuringRow, self)
      else case validate_order self key of
        Inl issue \<Rightarrow> (Err issue, self)
      | Inr _ \<Rightarrow> (Ok (), self\<lparr>m_last_complete_key := Some key\<rparr>))"

definition discard_partial :: "RowMerger \<Rightarrow> RowMerger" where
  "discard_partial self = (if m_state self \<noteq> NewRow then clear_active_row self else self)"

definition merger_finish :: "RowMerger \<Rightarrow> (RowMergeIssue, unit) result" where
  "merger_finish self = (if m_state self = NewRow then Ok () else Err IncompleteRow)"

section \<open>Filing one cell\<close>

definition add_cell_to_columns :: "bytes \<Rightarrow> Cell \<Rightarrow> Column list \<Rightarrow> Column list" where
  "add_cell_to_columns qual cell cs =
     (if \<exists>c \<in> set cs. col_qualifier c = qual
      then update_first (\<lambda>c. col_qualifier c = qual) (\<lambda>c. c\<lparr>col_cells := col_cells c @ [cell]\<rparr>) cs
      else cs @ [\<lparr>col_qualifier = qual, col_cells = [cell]\<rparr>])"

definition add_cell :: "Family list \<Rightarrow> string \<times> bytes \<times> Cell \<Rightarrow> Family list" where
  "add_cell fs = (\<lambda>(fam, qual, cell).
     if \<exists>f \<in> set fs. fam_name f = fam
     then update_first (\<lambda>f. fam_name f = fam)
       (\<lambda>f. f\<lparr>fam_columns := add_cell_to_columns qual cell (fam_columns f)\<rparr>) fs
     else fs @ [\<lparr>fam_name = fam, fam_columns = add_cell_to_columns qual cell []\<rparr>])"

abbreviation current_cell :: "RowMerger \<Rightarrow> Cell" where
  "current_cell m \<equiv> \<lparr>cell_timestamp_micros = m_timestamp_micros m,
      cell_value = m_value m, cell_labels = m_labels m\<rparr>"

lemma finish_cell_eq:
  "finish_cell m = m\<lparr>m_value := [], m_labels := [],
     m_row := (m_row m)\<lparr>row_families :=
       add_cell (row_families (m_row m)) (m_family m, m_qualifier m, current_cell m)\<rparr>\<rparr>"
  by (simp add: finish_cell_def Let_def add_cell_def add_cell_to_columns_def cong: if_cong)

text \<open>From here on \<open>finish_cell\<close> is read through \<open>add_cell\<close>.\<close>

lemma validate_order_Ok [simp]:
  "validate_order m k = Ok u \<longleftrightarrow> ahead_opt (m_reversed m) k (m_last_complete_key m)"
  by (auto simp: validate_order_def ahead_opt_def ahead_def Let_def split: option.splits)

lemma validate_order_cases:
  "validate_order m k =
     (if ahead_opt (m_reversed m) k (m_last_complete_key m) then Ok () else Err OutOfOrderRowKey)"
  by (auto simp: validate_order_def ahead_opt_def ahead_def Let_def split: option.splits)


subsection \<open>Filing keeps the row well formed\<close>

lemma columns_ok_add_cell:
  assumes "distinct (map col_qualifier cs)" and "\<forall>c \<in> set cs. col_cells c \<noteq> []"
  shows "distinct (map col_qualifier (add_cell_to_columns q x cs))"
    and "\<forall>c \<in> set (add_cell_to_columns q x cs). col_cells c \<noteq> []"
    and "add_cell_to_columns q x cs \<noteq> []"
proof -
  show "distinct (map col_qualifier (add_cell_to_columns q x cs))"
    using assms(1) by (auto simp: add_cell_to_columns_def update_first_map_key)
  show "\<forall>c \<in> set (add_cell_to_columns q x cs). col_cells c \<noteq> []"
    using assms(2) by (auto simp: add_cell_to_columns_def dest!: set_update_first)
  show "add_cell_to_columns q x cs \<noteq> []"
    by (cases cs) (auto simp: add_cell_to_columns_def)
qed

lemma family_ok_add_cell:
  "family_ok f \<Longrightarrow> family_ok (f\<lparr>fam_columns := add_cell_to_columns q x (fam_columns f)\<rparr>)"
  using columns_ok_add_cell [of "fam_columns f" q x] by (simp add: family_ok_def)

lemma family_ok_new: "family_ok \<lparr>fam_name = n, fam_columns = add_cell_to_columns q x []\<rparr>"
  using columns_ok_add_cell [of "[]" q x] by (simp add: family_ok_def)

lemma families_ok_add_cell: "families_ok fs \<Longrightarrow> families_ok (add_cell fs x)"
  by (cases x) (auto simp: families_ok_def add_cell_def update_first_map_key family_ok_new
      dest!: set_update_first intro: family_ok_add_cell)

lemma add_cell_nonempty [simp]: "add_cell fs x \<noteq> []"
  by (cases x; cases fs) (auto simp: add_cell_def)

lemma families_ok_Nil [simp]: "families_ok []"
  by (simp add: families_ok_def)

section \<open>The merger invariant\<close>

text \<open>
  Between rows nothing of a row is held; within a row the key is set, lies ahead of the
  last complete key, and what has been filed is well formed; within a split value the bytes
  received and the bytes still expected add up to the announced size.
\<close>

definition row_in_progress :: "RowMerger \<Rightarrow> bool" where
  "row_in_progress m \<longleftrightarrow> row_key (m_row m) \<noteq> []
     \<and> ahead_opt (m_reversed m) (row_key (m_row m)) (m_last_complete_key m)
     \<and> families_ok (row_families (m_row m))"

definition merger_inv :: "RowMerger \<Rightarrow> bool" where
  "merger_inv m \<longleftrightarrow> (case m_state m of
      NewRow \<Rightarrow> m_row m = empty_row
    | NewCell \<Rightarrow> row_in_progress m
    | CellValue \<Rightarrow> row_in_progress m
        \<and> length (m_value m) + m_remaining_value_bytes m = m_expected_value_size m
        \<and> 0 < m_expected_value_size m)"

lemma merger_new_fields [simp]:
  "m_reversed (merger_new reversed) = reversed" "m_last_complete_key (merger_new reversed) = None"
  "m_state (merger_new reversed) = NewRow"
  by (simp_all add: merger_new_def)

lemma merger_inv_new [simp]: "merger_inv (merger_new reversed)"
  by (simp add: merger_inv_def merger_new_def)

text \<open>The outcome of a push: either no row, or a complete one ahead of the previous key.\<close>

definition push_out_ok :: "bool \<Rightarrow> bytes option \<Rightarrow> push_result \<Rightarrow> bool" where
  "push_out_ok reversed prev out \<longleftrightarrow> merger_inv (snd out) \<and> m_reversed (snd out) = reversed \<and>
     (case fst out of
        Inl _ \<Rightarrow> m_last_complete_key (snd out) = prev
      | Inr None \<Rightarrow> m_last_complete_key (snd out) = prev
      | Inr (Some r) \<Rightarrow> row_ok r \<and> ahead_opt reversed (row_key r) prev
          \<and> m_last_complete_key (snd out) = Some (row_key r))"

definition push_ok :: "RowMerger \<Rightarrow> push_result \<Rightarrow> bool" where
  "push_ok m out = push_out_ok (m_reversed m) (m_last_complete_key m) out"

lemma push_ok_simps [simp]:
  "push_ok m (Inl e, m') \<longleftrightarrow> merger_inv m' \<and> m_reversed m' = m_reversed m
     \<and> m_last_complete_key m' = m_last_complete_key m"
  "push_ok m (Inr None, m') \<longleftrightarrow> merger_inv m' \<and> m_reversed m' = m_reversed m
     \<and> m_last_complete_key m' = m_last_complete_key m"
  "push_ok m (Inr (Some r), m') \<longleftrightarrow> merger_inv m' \<and> m_reversed m' = m_reversed m
     \<and> row_ok r \<and> ahead_opt (m_reversed m) (row_key r) (m_last_complete_key m)
     \<and> m_last_complete_key m' = Some (row_key r)"
  by (auto simp: push_ok_def push_out_ok_def)

text \<open>What the two states inside a row share once a cell is complete: it is filed, and the
  chunk may commit the row.\<close>

definition close_cell :: "RowMerger \<Rightarrow> CellChunk \<Rightarrow> push_result" where
  "close_cell m chunk =
     (let m = finish_cell m
      in if is_commit chunk then let (row, m) = commit_row m in (Ok (Some row), m)
         else (Ok None, m\<lparr>m_state := NewCell\<rparr>))"

lemma close_cell_ok:
  assumes "row_in_progress m"
  shows "push_ok m (close_cell m chunk)"
proof (cases "is_commit chunk")
  case True
  then show ?thesis
    using assms by (simp add: close_cell_def Let_def finish_cell_eq commit_row_def clear_cell_def
        row_in_progress_def row_ok_def merger_inv_def families_ok_add_cell)
next
  case False
  then show ?thesis
    using assms by (simp add: close_cell_def Let_def finish_cell_eq
        row_in_progress_def merger_inv_def families_ok_add_cell)
qed

text \<open>The part of \<open>start_cell\<close> after the names of the cell are known.\<close>

definition start_value :: "RowMerger \<Rightarrow> CellChunk \<Rightarrow> push_result" where
  "start_value m chunk =
     (if ch_value_size chunk < 0 then (Err NegativeValueSize, m)
      else
        let m = m\<lparr>m_timestamp_micros := ch_timestamp_micros chunk,
                  m_labels := ch_labels chunk, m_value := []\<rparr>
        in if ch_value_size chunk > 0 then
          if ch_value chunk = [] then (Err SplitValueMissingData, m)
          else if is_commit chunk then (Err CommitBeforeCellComplete, m)
          else if length (ch_value chunk) > nat (ch_value_size chunk)
          then (Err SplitValueTooLarge, m)
          else (Ok None,
                m\<lparr>m_value := ch_value chunk,
                  m_expected_value_size := nat (ch_value_size chunk),
                  m_remaining_value_bytes := nat (ch_value_size chunk) - length (ch_value chunk),
                  m_state := CellValue\<rparr>)
        else close_cell (m\<lparr>m_value := ch_value chunk\<rparr>) chunk)"

lemma start_cell_eq:
  "start_cell m chunk =
     (if is_reset chunk then
        (case validate_reset chunk of
           Inl issue \<Rightarrow> (Err issue, m) | Inr _ \<Rightarrow> (Ok None, clear_active_row m))
      else if ch_row_key chunk \<noteq> [] \<and> ch_row_key chunk \<noteq> row_key (m_row m) then
        (Err RowKeyChanged, m)
      else if ch_family_name chunk \<noteq> None \<and> ch_qualifier chunk = None then
        (Err FamilyWithoutQualifier, m)
      else start_value
        (m\<lparr>m_family := (case ch_family_name chunk of None \<Rightarrow> m_family m | Some f \<Rightarrow> f),
           m_qualifier := (case ch_qualifier chunk of None \<Rightarrow> m_qualifier m | Some q \<Rightarrow> q)\<rparr>)
        chunk)"
  by (simp add: start_cell_def start_value_def close_cell_def Let_def split: option.split)

lemma continue_cell_eq:
  "continue_cell m chunk =
     (if is_reset chunk then
        (case validate_reset chunk of
           Inl issue \<Rightarrow> (Err issue, m) | Inr _ \<Rightarrow> (Ok None, clear_active_row m))
      else if ch_row_key chunk \<noteq> [] \<or> ch_family_name chunk \<noteq> None
           \<or> ch_qualifier chunk \<noteq> None \<or> ch_timestamp_micros chunk \<noteq> 0
           \<or> ch_labels chunk \<noteq> [] then (Err CellMetadataOnContinuation, m)
      else if ch_value_size chunk < 0 then (Err NegativeValueSize, m)
      else if length (ch_value chunk) > m_remaining_value_bytes m then
        (Err SplitValueTooLarge, m)
      else if ch_value_size chunk = 0 then
        if length (ch_value chunk) \<noteq> m_remaining_value_bytes m then (Err SplitValueWrongSize, m)
        else close_cell (m\<lparr>m_value := m_value m @ ch_value chunk, m_remaining_value_bytes := 0\<rparr>)
          chunk
      else if nat (ch_value_size chunk) \<noteq> m_expected_value_size m then
        (Err SplitValueSizeChanged, m)
      else if is_commit chunk then (Err CommitBeforeCellComplete, m)
      else (Ok None, m\<lparr>m_value := m_value m @ ch_value chunk,
             m_remaining_value_bytes := m_remaining_value_bytes m - length (ch_value chunk)\<rparr>))"
  by (simp add: continue_cell_def close_cell_def Let_def)

lemma push_ok_names:
  "push_ok (m\<lparr>m_family := f, m_qualifier := q\<rparr>) out \<longleftrightarrow> push_ok m out"
  by (simp add: push_ok_def)

lemma merger_inv_clear [simp]: "merger_inv (clear_active_row m)"
  by (simp add: merger_inv_def clear_active_row_def clear_cell_def)

lemma clear_active_row_fields [simp]:
  "m_reversed (clear_active_row m) = m_reversed m"
  "m_last_complete_key (clear_active_row m) = m_last_complete_key m"
  "m_state (clear_active_row m) = NewRow"
  "m_row (clear_active_row m) = empty_row"
  by (simp_all add: clear_active_row_def clear_cell_def)

lemma start_value_ok:
  assumes "row_in_progress m" and "m_state m = NewCell"
  shows "push_ok m (start_value m chunk)"
proof -
  let ?m = "m\<lparr>m_timestamp_micros := ch_timestamp_micros chunk, m_labels := ch_labels chunk,
      m_value := ch_value chunk\<rparr>"
  have "push_ok ?m (close_cell ?m chunk)"
    using assms by (intro close_cell_ok) (simp add: row_in_progress_def)
  then have "push_ok m (close_cell ?m chunk)"
    by (simp add: push_ok_def)
  then show ?thesis
    using assms by (simp add: start_value_def Let_def merger_inv_def row_in_progress_def)
qed

lemma start_cell_ok:
  assumes "row_in_progress m" and "m_state m = NewCell"
  shows "push_ok m (start_cell m chunk)"
proof -
  have "push_ok m (start_value (m\<lparr>m_family := f, m_qualifier := q\<rparr>) chunk)" for f q
    using start_value_ok [of "m\<lparr>m_family := f, m_qualifier := q\<rparr>" chunk] assms
    by (simp add: push_ok_names row_in_progress_def)
  then show ?thesis
    using assms by (simp add: start_cell_eq merger_inv_def split: sum.split)
qed

lemma start_row_ok:
  assumes "m_state m = NewRow" and "m_row m = empty_row"
  shows "push_ok m (start_row m chunk)"
proof (cases "\<exists>fam qual. ch_family_name chunk = Some fam \<and> ch_qualifier chunk = Some qual
    \<and> \<not> is_reset chunk \<and> ch_row_key chunk \<noteq> []
    \<and> ahead_opt (m_reversed m) (ch_row_key chunk) (m_last_complete_key m)")
  case True
  then obtain fam qual where c: "ch_family_name chunk = Some fam" "ch_qualifier chunk = Some qual"
    "\<not> is_reset chunk" "ch_row_key chunk \<noteq> []"
    "ahead_opt (m_reversed m) (ch_row_key chunk) (m_last_complete_key m)" by blast
  let ?m = "m\<lparr>m_row := \<lparr>row_key = ch_row_key chunk, row_families = []\<rparr>,
      m_family := fam, m_qualifier := qual, m_state := NewCell\<rparr>"
  have "push_ok ?m (start_cell ?m chunk)"
    by (rule start_cell_ok) (use c in \<open>simp_all add: row_in_progress_def\<close>)
  then have "push_ok m (start_cell ?m chunk)"
    by (simp add: push_ok_def)
  then show ?thesis
    using c by (simp add: start_row_def validate_order_cases)
next
  case False
  then show ?thesis
    using assms by (auto simp: start_row_def merger_inv_def validate_order_cases
        split: option.splits)
qed

lemma continue_cell_ok:
  assumes "merger_inv m" and "m_state m = CellValue"
  shows "push_ok m (continue_cell m chunk)"
proof -
  let ?m = "m\<lparr>m_value := m_value m @ ch_value chunk, m_remaining_value_bytes := 0\<rparr>"
  have "push_ok ?m (close_cell ?m chunk)"
    using assms by (intro close_cell_ok) (simp add: row_in_progress_def merger_inv_def)
  then have "push_ok m (close_cell ?m chunk)"
    by (simp add: push_ok_def)
  then show ?thesis
    using assms by (simp add: continue_cell_eq merger_inv_def row_in_progress_def split: sum.split)
qed

lemma push_ok: "merger_inv m \<Longrightarrow> push_ok m (push m chunk)"
  using start_row_ok start_cell_ok continue_cell_ok
  by (cases "m_state m") (simp_all add: push_def merger_inv_def)

section \<open>Runs of the merger\<close>

text \<open>
  What a read does to its merger, as a sequence of operations: chunks, scan markers, and the
  discarding of a partial row when an attempt is abandoned. A run stops at the first issue.
\<close>

datatype MergeOp = PushChunk CellChunk | ScanMarker bytes | DiscardPartial

fun merge_step :: "RowMerger \<Rightarrow> MergeOp \<Rightarrow> push_result" where
  "merge_step m (PushChunk chunk) = push m chunk"
| "merge_step m (ScanMarker key) =
     (case scan_marker m key of (Inl issue, m) \<Rightarrow> (Err issue, m) | (Inr _, m) \<Rightarrow> (Ok None, m))"
| "merge_step m DiscardPartial = (Ok None, discard_partial m)"

fun merge_run :: "RowMerger \<Rightarrow> MergeOp list \<Rightarrow> Row list \<times> (RowMergeIssue, RowMerger) result" where
  "merge_run m [] = ([], Ok m)"
| "merge_run m (op # ops) =
     (case merge_step m op of
        (Inl issue, _) \<Rightarrow> ([], Err issue)
      | (Inr None, m') \<Rightarrow> merge_run m' ops
      | (Inr (Some row), m') \<Rightarrow> (let (rows, out) = merge_run m' ops in (row # rows, out)))"

text \<open>The key after a step: a committed row, a scan marker, or the key before.\<close>

definition step_ok :: "RowMerger \<Rightarrow> push_result \<Rightarrow> bool" where
  "step_ok m out \<longleftrightarrow> merger_inv (snd out) \<and> m_reversed (snd out) = m_reversed m \<and>
     (case fst out of
        Inr (Some r) \<Rightarrow> row_ok r \<and> ahead_opt (m_reversed m) (row_key r) (m_last_complete_key m)
          \<and> m_last_complete_key (snd out) = Some (row_key r)
      | _ \<Rightarrow> m_last_complete_key (snd out) = m_last_complete_key m
          \<or> (\<exists>k. m_last_complete_key (snd out) = Some k
                \<and> ahead_opt (m_reversed m) k (m_last_complete_key m)))"

lemma push_ok_step_ok: "push_ok m out \<Longrightarrow> step_ok m out"
  by (auto simp: push_ok_def push_out_ok_def step_ok_def split: sum.splits option.splits)

lemma scan_marker_eq:
  "scan_marker m key =
     (if m_state m \<noteq> NewRow then (Err ScanMarkerDuringRow, m)
      else if ahead_opt (m_reversed m) key (m_last_complete_key m)
      then (Ok (), m\<lparr>m_last_complete_key := Some key\<rparr>)
      else (Err OutOfOrderRowKey, m))"
  by (simp add: scan_marker_def validate_order_cases)

lemma merge_step_ok: "merger_inv m \<Longrightarrow> step_ok m (merge_step m op)"
proof (cases op)
  case (PushChunk chunk)
  then show "merger_inv m \<Longrightarrow> ?thesis" by (simp add: push_ok push_ok_step_ok)
next
  case (ScanMarker key)
  have "merger_inv m \<Longrightarrow> m_state m = NewRow \<Longrightarrow> merger_inv (m\<lparr>m_last_complete_key := k\<rparr>)" for k
    by (simp add: merger_inv_def)
  then show "merger_inv m \<Longrightarrow> ?thesis"
    using ScanMarker by (auto simp: scan_marker_eq step_ok_def)
next
  case DiscardPartial
  then show "merger_inv m \<Longrightarrow> ?thesis"
    by (simp add: discard_partial_def step_ok_def)
qed

text \<open>
  What a reader relies on in whatever assembles rows for it, and what it gets: if every step keeps
  the invariant, gives only complete rows, each beyond the place of the scan, which moves to it,
  and otherwise moves the place forward or not at all, then the rows of a run are complete and in
  the order of the scan.
\<close>

locale row_source = scan_order later for later :: "'k \<Rightarrow> 'k \<Rightarrow> bool" +
  fixes step :: "'s \<Rightarrow> 'op \<Rightarrow> ('e, 'r option) result \<times> 's"
    and inv :: "'s \<Rightarrow> bool" and place :: "'s \<Rightarrow> 'k option"
    and key :: "'r \<Rightarrow> 'k" and finished :: "'r \<Rightarrow> bool"
  assumes step_inv: "\<lbrakk>inv s; step s op = (out, s')\<rbrakk> \<Longrightarrow> inv s'"
    and step_row: "\<lbrakk>inv s; step s op = (Inr (Some r), s')\<rbrakk>
      \<Longrightarrow> finished r \<and> beyond (key r) (place s) \<and> place s' = Some (key r)"
    and step_quiet: "\<lbrakk>inv s; step s op = (Inr None, s'); beyond k (place s')\<rbrakk> \<Longrightarrow> beyond k (place s)"
begin

fun run :: "'s \<Rightarrow> 'op list \<Rightarrow> 'r list \<times> ('e, 's) result" where
  "run s [] = ([], Inr s)"
| "run s (op # ops) =
     (case step s op of
        (Inl issue, _) \<Rightarrow> ([], Inl issue)
      | (Inr None, s') \<Rightarrow> run s' ops
      | (Inr (Some r), s') \<Rightarrow> (let (rs, out) = run s' ops in (r # rs, out)))"

lemma run_rows:
  assumes "inv s"
  shows "list_all finished (fst (run s ops)) \<and> in_order (map key (fst (run s ops)))
    \<and> list_all (\<lambda>r. beyond (key r) (place s)) (fst (run s ops))"
  using assms
proof (induction ops arbitrary: s)
  case (Cons op ops)
  obtain out s' where step: "step s op = (out, s')" by fastforce
  note later_rows = Cons.IH [OF step_inv [OF Cons.prems step]]
  consider e where "out = Inl e" | "out = Inr None" | r where "out = Inr (Some r)"
    by (cases out; cases "projr out") auto
  then show ?case
  proof cases
    case 2
    then show ?thesis
      using later_rows step step_quiet [OF Cons.prems] by (auto simp: list_all_iff)
  next
    case (3 r)
    then have "finished r \<and> beyond (key r) (place s) \<and> place s' = Some (key r)"
      using step_row [OF Cons.prems] step by blast
    then show ?thesis
      using later_rows step 3
      by (auto simp: list_all_iff split_beta in_order_def intro: beyond_trans)
  qed (simp add: step in_order_Nil)
qed (simp add: in_order_Nil)

lemma run_inv: "inv s \<Longrightarrow> snd (run s ops) = Inr s' \<Longrightarrow> inv s'"
proof (induction ops arbitrary: s)
  case (Cons op ops)
  obtain out t where step: "step s op = (out, t)" by fastforce
  then show ?case
    using Cons.IH [OF step_inv [OF Cons.prems(1) step]] Cons.prems(2)
    by (auto split: sum.splits option.splits prod.splits)
qed simp

end

text \<open>The merger is such a source, in either direction.\<close>

lemma merge_step_source:
  assumes "merger_inv m \<and> m_reversed m = reversed" and "merge_step m op = (out, m')"
  shows "merger_inv m' \<and> m_reversed m' = reversed"
    and "out = Inr (Some r) \<Longrightarrow> row_ok r \<and> scan.beyond reversed (row_key r) (m_last_complete_key m)
      \<and> m_last_complete_key m' = Some (row_key r)"
    and "\<lbrakk>out = Inr None; scan.beyond reversed k (m_last_complete_key m')\<rbrakk>
      \<Longrightarrow> scan.beyond reversed k (m_last_complete_key m)"
  using merge_step_ok [of m op] assms
  by (auto simp: step_ok_def beyond_ahead intro: ahead_opt_trans)

interpretation assembler: row_source "ahead reversed" merge_step
    "\<lambda>m. merger_inv m \<and> m_reversed m = reversed" m_last_complete_key row_key row_ok
  for reversed
  by unfold_locales (erule (1) merge_step_source(1), erule (1) merge_step_source(2) [OF _ _ refl],
      erule (2) merge_step_source(3) [OF _ _ refl])

lemma merge_run_source: "merge_run m ops = assembler.run m ops"
  by (induction m ops rule: merge_run.induct) (auto split: prod.splits sum.splits option.splits)

lemma merge_run_ok:
  assumes "merger_inv m"
  shows "list_all row_ok (fst (merge_run m ops))"
    and "list_all (\<lambda>r. ahead_opt (m_reversed m) (row_key r) (m_last_complete_key m))
           (fst (merge_run m ops))"
    and "scan.in_order (m_reversed m) (map row_key (fst (merge_run m ops)))"
    and "snd (merge_run m ops) = Ok m' \<Longrightarrow> merger_inv m'"
  using assembler.run_rows [where reversed = "m_reversed m" and s = m and ops = ops]
    assembler.run_inv [where reversed = "m_reversed m" and s = m and ops = ops and s' = m'] assms
  by (simp_all add: merge_run_source beyond_ahead)

lemma merge_run_append:
  "merge_run m (xs @ ys) =
     (case merge_run m xs of
        (rows, Inl issue) \<Rightarrow> (rows, Err issue)
      | (rows, Inr m') \<Rightarrow> (let (rows', out) = merge_run m' ys in (rows @ rows', out)))"
  by (induction m xs rule: merge_run.induct)
    (auto split: prod.splits sum.splits option.splits)

text \<open>Between rows, an accepted chunk either commits a row or opens one.\<close>

lemma push_keeps_row_open:
  "\<lbrakk>push m chunk = (Ok None, m'); \<not> is_reset chunk\<rbrakk> \<Longrightarrow> m_state m' \<noteq> NewRow"
  by (cases "m_state m")
    (auto simp: push_def start_row_def start_cell_eq start_value_def continue_cell_eq close_cell_def
      Let_def split: if_splits option.splits sum.splits prod.splits)

section \<open>Properties\<close>

text \<open>
  C4. Whatever chunks, scan markers and abandoned attempts a merger is fed, the rows it emits
  are complete (a key, no empty family or column, no duplicate family or column), and their
  keys are strictly ahead of one another in the direction of the scan: no row is delivered
  twice and none out of order, up to the point where the merger stops at an issue.
\<close>

theorem merged_rows_ordered_and_complete:
  "scan.in_order reversed (map row_key (fst (merge_run (merger_new reversed) ops)))
   \<and> list_all row_ok (fst (merge_run (merger_new reversed) ops))"
  using merge_run_ok(1,3) [of "merger_new reversed" ops] by simp

end
