(* ===== verification/Encoding.thy ===== *)
theory Encoding
  imports Merge
begin

text \<open>
  The wire form of a row, as the comments of the \<open>ReadRowsResponse\<close> message describe it:
  one chunk per cell, or several when the value is split, the family and the qualifier left
  out where they repeat. The merger of \<open>merge.rs\<close> is compared with this reference encoder:
  whatever way a row is cut into chunks, the merger gives the row back.
\<close>

section \<open>A reference encoder\<close>

text \<open>
  One cell as a server may send it: the row key repeated or left empty, the family and the
  qualifier present or inherited, the value cut into pieces.
\<close>

record WireCell =
  w_key :: bytes
  w_family :: "string option"
  w_qualifier :: "bytes option"
  w_cell :: Cell
  w_pieces :: "bytes list"

definition blank_chunk :: CellChunk where
  "blank_chunk = \<lparr>ch_row_key = [], ch_family_name = None, ch_qualifier = None,
     ch_timestamp_micros = 0, ch_labels = [], ch_value = [], ch_value_size = 0,
     ch_row_status = None\<rparr>"

fun rest_chunks :: "int \<Rightarrow> RowStatus option \<Rightarrow> bytes list \<Rightarrow> CellChunk list" where
  "rest_chunks whole status [] = []"
| "rest_chunks whole status [p] =
     [blank_chunk\<lparr>ch_value := p, ch_row_status := status\<rparr>]"
| "rest_chunks whole status (p # q # ps) =
     blank_chunk\<lparr>ch_value := p, ch_value_size := whole\<rparr> # rest_chunks whole status (q # ps)"

definition cell_chunks :: "RowStatus option \<Rightarrow> WireCell \<Rightarrow> CellChunk list" where
  "cell_chunks status w =
     (let whole = int (length (concat (w_pieces w)));
          head = \<lparr>ch_row_key = w_key w, ch_family_name = w_family w,
                  ch_qualifier = w_qualifier w,
                  ch_timestamp_micros = cell_timestamp_micros (w_cell w),
                  ch_labels = cell_labels (w_cell w), ch_value = hd (w_pieces w),
                  ch_value_size = 0, ch_row_status = None\<rparr>
      in case tl (w_pieces w) of
           [] \<Rightarrow> [head\<lparr>ch_row_status := status\<rparr>]
         | ps \<Rightarrow> head\<lparr>ch_value_size := whole\<rparr> # rest_chunks whole status ps)"

fun row_chunks :: "WireCell list \<Rightarrow> CellChunk list" where
  "row_chunks [] = []"
| "row_chunks [w] = cell_chunks (Some (CommitRow True)) w"
| "row_chunks (w # v # ws) = cell_chunks None w @ row_chunks (v # ws)"

text \<open>A split value has bytes in its first piece.\<close>

definition wire_cell_ok :: "bytes \<Rightarrow> WireCell \<Rightarrow> bool" where
  "wire_cell_ok key w \<longleftrightarrow> (w_key w = [] \<or> w_key w = key)
     \<and> (w_family w \<noteq> None \<longrightarrow> w_qualifier w \<noteq> None)
     \<and> w_pieces w \<noteq> [] \<and> concat (w_pieces w) = cell_value (w_cell w)
     \<and> (tl (w_pieces w) \<noteq> [] \<longrightarrow> hd (w_pieces w) \<noteq> [])"

definition wire_row_ok :: "bytes \<Rightarrow> WireCell list \<Rightarrow> bool" where
  "wire_row_ok key ws \<longleftrightarrow> key \<noteq> [] \<and> ws \<noteq> [] \<and> list_all (wire_cell_ok key) ws
     \<and> w_key (hd ws) = key \<and> w_family (hd ws) \<noteq> None \<and> w_qualifier (hd ws) \<noteq> None"

text \<open>The cell each wire cell means: names that are left out repeat the previous ones.\<close>

fun resolve :: "string \<Rightarrow> bytes \<Rightarrow> WireCell list \<Rightarrow> (string \<times> bytes \<times> Cell) list" where
  "resolve fam qual [] = []"
| "resolve fam qual (w # ws) =
     (let fam = (case w_family w of None \<Rightarrow> fam | Some f \<Rightarrow> f);
          qual = (case w_qualifier w of None \<Rightarrow> qual | Some q \<Rightarrow> q)
      in (fam, qual, w_cell w) # resolve fam qual ws)"

section \<open>The merger decodes it\<close>

text \<open>Inside a row: its key, the families filed so far, and the names of the last cell.\<close>

definition in_row :: "bool \<Rightarrow> bytes option \<Rightarrow> bytes \<Rightarrow> Family list \<Rightarrow> string \<Rightarrow> bytes \<Rightarrow> RowMerger \<Rightarrow> bool"
  where
  "in_row reversed prev key fs fam qual m \<longleftrightarrow> m_state m = NewCell
     \<and> m_reversed m = reversed \<and> m_last_complete_key m = prev
     \<and> m_row m = \<lparr>row_key = key, row_families = fs\<rparr> \<and> m_family m = fam \<and> m_qualifier m = qual"

definition between_rows :: "bool \<Rightarrow> bytes option \<Rightarrow> RowMerger \<Rightarrow> bool" where
  "between_rows reversed prev m \<longleftrightarrow> m_state m = NewRow \<and> m_row m = empty_row
     \<and> m_reversed m = reversed \<and> m_last_complete_key m = prev"

text \<open>Inside a split value.\<close>

definition in_value :: "bool \<Rightarrow> bytes option \<Rightarrow> bytes \<Rightarrow> Family list \<Rightarrow> string \<Rightarrow> bytes
    \<Rightarrow> i64 \<Rightarrow> string list \<Rightarrow> bytes \<Rightarrow> nat \<Rightarrow> RowMerger \<Rightarrow> bool" where
  "in_value reversed prev key fs fam qual ts labels got whole m \<longleftrightarrow> m_state m = CellValue
     \<and> m_reversed m = reversed \<and> m_last_complete_key m = prev
     \<and> m_row m = \<lparr>row_key = key, row_families = fs\<rparr> \<and> m_family m = fam \<and> m_qualifier m = qual
     \<and> m_timestamp_micros m = ts \<and> m_labels m = labels \<and> m_value m = got
     \<and> m_expected_value_size m = whole \<and> length got + m_remaining_value_bytes m = whole"

text \<open>What the last chunk of a cell leads to.\<close>

definition cell_done :: "RowStatus option \<Rightarrow> bool \<Rightarrow> bytes option \<Rightarrow> bytes \<Rightarrow> Family list \<Rightarrow> string
    \<Rightarrow> bytes \<Rightarrow> Row list \<times> (RowMergeIssue, RowMerger) result \<Rightarrow> bool" where
  "cell_done status reversed prev key fs fam qual out \<longleftrightarrow>
     (if status = Some (CommitRow True)
      then \<exists>m. out = ([\<lparr>row_key = key, row_families = fs\<rparr>], Ok m)
             \<and> between_rows reversed (Some key) m
      else \<exists>m. out = ([], Ok m) \<and> in_row reversed prev key fs fam qual m)"

lemma close_cell_done:
  assumes "m_reversed m = reversed" "m_last_complete_key m = prev" "m_row m = \<lparr>row_key = key, row_families = fs\<rparr>"
    "m_family m = fam" "m_qualifier m = qual" "ch_row_status chunk = status"
    and push: "push m' chunk = close_cell m chunk"
  shows "cell_done status reversed prev key (add_cell fs (fam, qual, current_cell m)) fam qual
    (merge_run m' [PushChunk chunk])"
  using assms
  by (auto simp: cell_done_def close_cell_def Let_def finish_cell_eq commit_row_def clear_cell_def
      is_commit_def between_rows_def in_row_def)

lemma blank_chunk_sel [simp]:
  "ch_row_key blank_chunk = []" "ch_family_name blank_chunk = None"
  "ch_qualifier blank_chunk = None" "ch_timestamp_micros blank_chunk = 0"
  "ch_labels blank_chunk = []" "ch_value_size blank_chunk = 0" "ch_row_status blank_chunk = None"
  by (simp_all add: blank_chunk_def)

lemma rest_chunks_done:
  assumes "in_value reversed prev key fs fam qual ts labels got whole m"
    and "ps \<noteq> []" "length got + length (concat ps) = whole" "0 < whole"
    and "status = None \<or> status = Some (CommitRow True)"
  shows "cell_done status reversed prev key
    (add_cell fs (fam, qual, \<lparr>cell_timestamp_micros = ts, cell_value = got @ concat ps,
       cell_labels = labels\<rparr>)) fam qual
    (merge_run m (map PushChunk (rest_chunks (int whole) status ps)))"
  using assms
proof (induction "int whole" status ps arbitrary: got m rule: rest_chunks.induct)
  case (2 status p)
  let ?c = "blank_chunk\<lparr>ch_value := p, ch_row_status := status\<rparr>"
  let ?m = "m\<lparr>m_value := got @ p, m_remaining_value_bytes := 0\<rparr>"
  have "push m ?c = close_cell ?m ?c"
    using 2 by (auto simp: push_def in_value_def continue_cell_eq is_reset_def)
  then show ?case
    using close_cell_done [of ?m reversed prev key fs fam qual ?c status m] 2
    by (simp add: in_value_def)
next
  case (3 status p q ps)
  let ?c = "blank_chunk\<lparr>ch_value := p, ch_value_size := int whole\<rparr>"
  let ?m = "m\<lparr>m_value := got @ p,
      m_remaining_value_bytes := m_remaining_value_bytes m - length p\<rparr>"
  have "push m ?c = (Ok None, ?m)"
    using 3 by (auto simp: push_def in_value_def continue_cell_eq is_reset_def is_commit_def)
  moreover have "in_value reversed prev key fs fam qual ts labels (got @ p) whole ?m"
    using 3 by (auto simp: in_value_def)
  ultimately show ?case
    using 3(1) [of "got @ p" ?m] 3 by simp
qed simp

lemma cell_of_fields [simp]:
  "\<lparr>cell_timestamp_micros = cell_timestamp_micros c, cell_value = cell_value c,
     cell_labels = cell_labels c\<rparr> = (c :: Cell)"
  by (cases c) simp

lemma cell_chunks_done:
  assumes "in_row reversed prev key fs fam0 qual0 m" and w: "wire_cell_ok key w"
    and status: "status = None \<or> status = Some (CommitRow True)"
    and names: "fam = (case w_family w of None \<Rightarrow> fam0 | Some f \<Rightarrow> f)"
      "qual = (case w_qualifier w of None \<Rightarrow> qual0 | Some q \<Rightarrow> q)"
  shows "cell_done status reversed prev key (add_cell fs (fam, qual, w_cell w)) fam qual
    (merge_run m (map PushChunk (cell_chunks status w)))"
proof -
  obtain p ps where pieces: "w_pieces w = p # ps" and val: "p @ concat ps = cell_value (w_cell w)"
    and split: "ps \<noteq> [] \<Longrightarrow> p \<noteq> []"
    using w by (cases "w_pieces w") (auto simp: wire_cell_ok_def)
  have m: "m_state m = NewCell" "m_reversed m = reversed" "m_last_complete_key m = prev"
    "m_row m = \<lparr>row_key = key, row_families = fs\<rparr>" "m_family m = fam0" "m_qualifier m = qual0"
    using assms(1) by (simp_all add: in_row_def)
  let ?h = "\<lparr>ch_row_key = w_key w, ch_family_name = w_family w, ch_qualifier = w_qualifier w,
      ch_timestamp_micros = cell_timestamp_micros (w_cell w), ch_labels = cell_labels (w_cell w),
      ch_value = p, ch_value_size = 0, ch_row_status = None\<rparr>"
  let ?n = "m\<lparr>m_family := fam, m_qualifier := qual\<rparr>"
  have start: "push m (?h\<lparr>ch_value_size := s, ch_row_status := t\<rparr>)
      = start_value ?n (?h\<lparr>ch_value_size := s, ch_row_status := t\<rparr>)"
    if "t = None \<or> t = Some (CommitRow True)" for s t
    using that m w names
    by (auto simp: push_def start_cell_eq is_reset_def wire_cell_ok_def split: option.splits)
  show ?thesis
  proof (cases ps)
    case Nil
    let ?c = "?h\<lparr>ch_value_size := 0, ch_row_status := status\<rparr>"
    let ?m = "?n\<lparr>m_timestamp_micros := cell_timestamp_micros (w_cell w),
      m_labels := cell_labels (w_cell w), m_value := p\<rparr>"
    have "push m ?c = close_cell ?m ?c"
      using start [OF status, of 0] by (simp add: start_value_def Let_def)
    then show ?thesis
      using close_cell_done [of ?m reversed prev key fs fam qual ?c status m] m Nil pieces val
      by (simp add: cell_chunks_def Let_def)
  next
    case (Cons q qs)
    define t where "t = length (concat (w_pieces w))"
    have t: "length p \<le> t" "0 < t" "t = length p + length (concat ps)"
      using split Cons pieces by (auto simp: t_def)
    let ?c = "?h\<lparr>ch_value_size := int t, ch_row_status := None\<rparr>"
    let ?m = "?n\<lparr>m_timestamp_micros := cell_timestamp_micros (w_cell w),
      m_labels := cell_labels (w_cell w), m_value := p, m_expected_value_size := t,
      m_remaining_value_bytes := t - length p, m_state := CellValue\<rparr>"
    have "push m ?c = (Ok None, ?m)"
      using start [of None "int t"] split Cons t(1,2)
      by (simp add: start_value_def Let_def is_commit_def)
    moreover have "in_value reversed prev key fs fam qual (cell_timestamp_micros (w_cell w))
        (cell_labels (w_cell w)) p t ?m"
      using m t by (simp add: in_value_def)
    ultimately have step: "push m ?c = (Ok None, ?m)"
      and rest: "cell_done status reversed prev key
        (add_cell fs (fam, qual, \<lparr>cell_timestamp_micros = cell_timestamp_micros (w_cell w),
           cell_value = p @ concat ps, cell_labels = cell_labels (w_cell w)\<rparr>)) fam qual
        (merge_run ?m (map PushChunk (rest_chunks (int t) status ps)))"
      using t status Cons by (blast, intro rest_chunks_done) simp_all
    have "cell_chunks status w = ?c # rest_chunks (int t) status ps"
      by (simp add: cell_chunks_def Cons pieces t_def Let_def)
    moreover have "merge_run m (map PushChunk (?c # rest_chunks (int t) status ps))
        = merge_run ?m (map PushChunk (rest_chunks (int t) status ps))"
      by (simp only: list.map merge_run.simps merge_step.simps step prod.case sum.case option.case)
    ultimately show ?thesis
      using rest by (simp only: val cell_of_fields)
  qed
qed

lemma start_row_push:
  assumes "between_rows reversed prev m" and "ch_row_key chunk = key" "key \<noteq> []"
    and "ch_family_name chunk = Some fam" "ch_qualifier chunk = Some qual"
    and "ahead_opt reversed key prev" "\<not> is_reset chunk"
  shows "\<exists>m'. push m chunk = push m' chunk \<and> in_row reversed prev key [] fam qual m'"
  using assms
  by (intro exI [of _ "m\<lparr>m_row := \<lparr>row_key = key, row_families = []\<rparr>,
      m_family := fam, m_qualifier := qual, m_state := NewCell\<rparr>"])
    (simp add: push_def between_rows_def start_row_def validate_order_cases in_row_def)

lemma map_cell_chunks:
  "w_pieces w \<noteq> [] \<Longrightarrow> cell_chunks status w \<noteq> []
     \<and> ch_row_key (hd (cell_chunks status w)) = w_key w
     \<and> ch_family_name (hd (cell_chunks status w)) = w_family w
     \<and> ch_qualifier (hd (cell_chunks status w)) = w_qualifier w
     \<and> ch_row_status (hd (cell_chunks status w)) \<in> {None, status}"
  by (auto simp: cell_chunks_def Let_def split: list.split)

lemma merge_run_cong_push:
  "push m c = push m' c \<Longrightarrow> merge_run m (PushChunk c # ops) = merge_run m' (PushChunk c # ops)"
  by simp

text \<open>Within a row, all its wire cells.\<close>

lemma row_chunks_in_row:
  assumes "in_row reversed prev key fs fam qual m" and "ws \<noteq> []" "list_all (wire_cell_ok key) ws"
  shows "\<exists>m'. merge_run m (map PushChunk (row_chunks ws)) =
      ([\<lparr>row_key = key, row_families = foldl add_cell fs (resolve fam qual ws)\<rparr>], Ok m')
    \<and> between_rows reversed (Some key) m'"
  using assms
proof (induction ws arbitrary: fs fam qual m rule: row_chunks.induct)
  case (2 w)
  then show ?case
    using cell_chunks_done [OF 2(1), of w "Some (CommitRow True)", OF _ _ refl refl]
    by (simp add: cell_done_def Let_def)
next
  case (3 w v ws)
  let ?fam = "case w_family w of None \<Rightarrow> fam | Some f \<Rightarrow> f"
  let ?qual = "case w_qualifier w of None \<Rightarrow> qual | Some q \<Rightarrow> q"
  obtain m1 where m1: "merge_run m (map PushChunk (cell_chunks None w)) = ([], Ok m1)"
    "in_row reversed prev key (add_cell fs (?fam, ?qual, w_cell w)) ?fam ?qual m1"
    using cell_chunks_done [OF 3(2), of w None, OF _ _ refl refl] 3(4)
    by (auto simp: cell_done_def)
  show ?case
    using 3(1) [OF m1(2)] 3(4) m1(1) by (simp add: merge_run_append Let_def)
qed simp

lemma row_chunks_between:
  assumes "between_rows reversed prev m" and "wire_row_ok key ws" and "ahead_opt reversed key prev"
  shows "\<exists>m'. merge_run m (map PushChunk (row_chunks ws)) =
      ([\<lparr>row_key = key, row_families = foldl add_cell [] (resolve [] [] ws)\<rparr>], Ok m')
    \<and> between_rows reversed (Some key) m'"
proof -
  obtain w vs where ws: "ws = w # vs" using assms(2) by (cases ws) (auto simp: wire_row_ok_def)
  obtain fam qual where names: "w_family w = Some fam" "w_qualifier w = Some qual"
    using assms(2) ws by (auto simp: wire_row_ok_def)
  have pieces: "w_pieces w \<noteq> []"
    using assms(2) ws by (simp add: wire_row_ok_def wire_cell_ok_def)
  obtain status rest where chunks: "row_chunks ws = cell_chunks status w @ rest"
    and status: "status \<in> {None, Some (CommitRow True)}"
    using ws by (cases vs) auto
  obtain c cs where c: "cell_chunks status w = c # cs"
    using map_cell_chunks [OF pieces] by (cases "cell_chunks status w") auto
  have "\<exists>m'. push m c = push m' c \<and> in_row reversed prev key [] fam qual m'"
    by (rule start_row_push)
      (use assms ws names status c map_cell_chunks [OF pieces, of status] in
        \<open>auto simp: wire_row_ok_def is_reset_def\<close>)
  then obtain m' where m': "push m c = push m' c" "in_row reversed prev key [] fam qual m'"
    by blast
  have "merge_run m (map PushChunk (row_chunks ws)) = merge_run m' (map PushChunk (row_chunks ws))"
    using merge_run_cong_push [OF m'(1)] by (simp add: chunks c)
  moreover have "resolve [] [] ws = resolve fam qual ws" by (simp add: ws names)
  ultimately show ?thesis
    using row_chunks_in_row [OF m'(2), of ws] assms(2) by (simp add: wire_row_ok_def)
qed

section \<open>Filing all cells of a well-formed row rebuilds it\<close>

lemma update_first_last:
  "\<lbrakk>q \<notin> k ` set xs; k y = q\<rbrakk>
   \<Longrightarrow> update_first (\<lambda>x. k x = q) f (xs @ [y]) = xs @ [f y]"
  by (induction xs) auto

text \<open>Cells of the column that was opened last.\<close>

lemma add_column_rest:
  assumes "q \<notin> set (map col_qualifier cs)"
  shows "foldl (\<lambda>cs x. add_cell_to_columns q x cs) (cs @ [\<lparr>col_qualifier = q, col_cells = ys\<rparr>]) xs
    = cs @ [\<lparr>col_qualifier = q, col_cells = ys @ xs\<rparr>]"
proof (induction xs arbitrary: ys)
  case (Cons x xs)
  have "add_cell_to_columns q x (cs @ [\<lparr>col_qualifier = q, col_cells = ys\<rparr>])
      = cs @ [\<lparr>col_qualifier = q, col_cells = ys @ [x]\<rparr>]"
    using assms by (simp add: add_cell_to_columns_def update_first_last)
  then show ?case using Cons [of "ys @ [x]"] by simp
qed simp

lemma add_cell_to_columns_new:
  "q \<notin> set (map col_qualifier cs)
   \<Longrightarrow> add_cell_to_columns q x cs = cs @ [\<lparr>col_qualifier = q, col_cells = [x]\<rparr>]"
  unfolding add_cell_to_columns_def by (subst if_not_P) auto

lemma add_cell_new:
  "fam \<notin> set (map fam_name fs) \<Longrightarrow> add_cell fs (fam, q, x)
     = fs @ [\<lparr>fam_name = fam, fam_columns = add_cell_to_columns q x []\<rparr>]"
  unfolding add_cell_def prod.case by (subst if_not_P) auto

lemma add_column:
  assumes "col_qualifier c \<notin> set (map col_qualifier cs)" and "col_cells c \<noteq> []"
  shows "foldl (\<lambda>cs x. add_cell_to_columns (col_qualifier c) x cs) cs (col_cells c) = cs @ [c]"
proof -
  obtain x xs where cells: "col_cells c = x # xs" using assms(2) by (cases "col_cells c") auto
  have "add_cell_to_columns (col_qualifier c) x cs = cs @ [\<lparr>col_qualifier = col_qualifier c, col_cells = [x]\<rparr>]"
    using assms(1) by (simp add: add_cell_to_columns_new)
  moreover have "\<lparr>col_qualifier = col_qualifier c, col_cells = x # xs\<rparr> = c"
    using cells by (cases c) simp
  ultimately show ?thesis
    using add_column_rest [OF assms(1), of "[x]" xs] cells by simp
qed

text \<open>Cells of the family that was opened last.\<close>

lemma add_cell_last_family:
  assumes "fam \<notin> set (map fam_name fs)"
  shows "add_cell (fs @ [\<lparr>fam_name = fam, fam_columns = cs\<rparr>]) (fam, q, x)
    = fs @ [\<lparr>fam_name = fam, fam_columns = add_cell_to_columns q x cs\<rparr>]"
  using assms by (simp add: add_cell_def update_first_last)

lemma add_family_cells:
  assumes "fam \<notin> set (map fam_name fs)"
  shows "foldl add_cell (fs @ [\<lparr>fam_name = fam, fam_columns = cs\<rparr>]) (map (\<lambda>x. (fam, q, x)) xs)
    = fs @ [\<lparr>fam_name = fam, fam_columns = foldl (\<lambda>cs x. add_cell_to_columns q x cs) cs xs\<rparr>]"
  by (induction xs arbitrary: cs) (simp_all add: add_cell_last_family [OF assms])

lemma add_family_columns:
  assumes "fam \<notin> set (map fam_name fs)"
    and "distinct (map col_qualifier (cs @ ds))" "\<forall>c \<in> set ds. col_cells c \<noteq> []"
  shows "foldl add_cell (fs @ [\<lparr>fam_name = fam, fam_columns = cs\<rparr>])
      (concat (map (flatten_column fam) ds))
    = fs @ [\<lparr>fam_name = fam, fam_columns = cs @ ds\<rparr>]"
  using assms(2,3)
proof (induction ds arbitrary: cs)
  case (Cons d ds)
  then show ?case
    using add_family_cells [OF assms(1), of cs "col_qualifier d" "col_cells d"]
      add_column [of d cs] Cons(1) [of "cs @ [d]"]
    by (simp add: flatten_column_def)
qed simp

lemma add_family:
  assumes "fam_name f \<notin> set (map fam_name fs)" and "family_ok f"
  shows "foldl add_cell fs (flatten_family f) = fs @ [f]"
proof -
  obtain c cs x xs where f: "fam_columns f = c # cs" "col_cells c = x # xs"
    using assms(2) by (cases "fam_columns f"; cases "col_cells (hd (fam_columns f))")
      (auto simp: family_ok_def)
  have "flatten_family f = (fam_name f, col_qualifier c, x) #
      tl (flatten_family f)" by (simp add: flatten_family_def flatten_column_def f)
  have new: "add_cell fs (fam_name f, y) = add_cell (fs @ [\<lparr>fam_name = fam_name f, fam_columns = []\<rparr>]) (fam_name f, y)" for y
    using assms(1) by (cases y) (simp add: add_cell_last_family add_cell_new)
  have "foldl add_cell fs (flatten_family f)
      = foldl add_cell (fs @ [\<lparr>fam_name = fam_name f, fam_columns = []\<rparr>]) (flatten_family f)"
    by (simp add: flatten_family_def flatten_column_def f new)
  also have "\<dots> = fs @ [\<lparr>fam_name = fam_name f, fam_columns = fam_columns f\<rparr>]"
    using add_family_columns [OF assms(1), of "[]" "fam_columns f"] assms(2)
    by (simp add: flatten_family_def family_ok_def)
  also have "\<lparr>fam_name = fam_name f, fam_columns = fam_columns f\<rparr> = f" by simp
  finally show ?thesis .
qed

lemma foldl_add_cell_flatten:
  "\<lbrakk>families_ok (fs @ gs)\<rbrakk> \<Longrightarrow> foldl add_cell fs (flatten gs) = fs @ gs"
proof (induction gs arbitrary: fs)
  case (Cons g gs)
  then show ?case
    using add_family [of g fs] Cons(1) [of "fs @ [g]"]
    by (auto simp: flatten_def families_ok_def)
qed (simp add: flatten_def)

section \<open>Round trip\<close>

text \<open>A row cut into chunks in the plainest way: every name given, no value split.\<close>

definition plain_cell :: "bytes \<Rightarrow> string \<times> bytes \<times> Cell \<Rightarrow> WireCell" where
  "plain_cell key = (\<lambda>(fam, qual, cell). \<lparr>w_key = key, w_family = Some fam,
     w_qualifier = Some qual, w_cell = cell, w_pieces = [cell_value cell]\<rparr>)"

definition encode_row :: "Row \<Rightarrow> CellChunk list" where
  "encode_row r = row_chunks (map (plain_cell (row_key r)) (flatten (row_families r)))"

lemma resolve_plain: "resolve fam qual (map (plain_cell key) xs) = xs"
  by (induction xs arbitrary: fam qual) (auto simp: plain_cell_def)

lemma flatten_nonempty:
  assumes "row_ok r" shows "flatten (row_families r) \<noteq> []"
proof -
  obtain f fs where fs: "row_families r = f # fs" and "family_ok f"
    using assms by (cases "row_families r") (auto simp: row_ok_def families_ok_def)
  then obtain c cs where "fam_columns f = c # cs" "col_cells c \<noteq> []"
    by (cases "fam_columns f") (auto simp: family_ok_def)
  then show ?thesis by (simp add: fs flatten_def flatten_family_def flatten_column_def)
qed

lemma wire_row_ok_plain:
  assumes "row_ok r"
  shows "wire_row_ok (row_key r) (map (plain_cell (row_key r)) (flatten (row_families r)))"
proof -
  have "flatten (row_families r) \<noteq> []" using assms by (rule flatten_nonempty)
  then show ?thesis using assms
    by (cases "flatten (row_families r)")
      (auto simp: wire_row_ok_def wire_cell_ok_def plain_cell_def row_ok_def list_all_iff)
qed

text \<open>The same for a sequence of rows.\<close>

lemma merge_encoded_rows:
  assumes "between_rows reversed prev m" and "list_all row_ok rows"
    and "scan.in_order reversed (map row_key rows)"
    and "list_all (\<lambda>r. ahead_opt reversed (row_key r) prev) rows"
  shows "\<exists>m'. merge_run m (map PushChunk (concat (map encode_row rows))) = (rows, Ok m')
    \<and> between_rows reversed (if rows = [] then prev else Some (row_key (last rows))) m'"
  using assms
proof (induction rows arbitrary: prev m)
  case Nil
  then show ?case by auto
next
  case (Cons r rows)
  have "wire_row_ok (row_key r) (map (plain_cell (row_key r)) (flatten (row_families r)))"
    using Cons(3) by (simp add: wire_row_ok_plain)
  from row_chunks_between [OF Cons(2) this] Cons(3,5)
  obtain m1 where m1: "merge_run m (map PushChunk (encode_row r)) = ([r], Ok m1)"
    "between_rows reversed (Some (row_key r)) m1"
    using foldl_add_cell_flatten [of "[]" "row_families r"]
    by (auto simp: encode_row_def resolve_plain row_ok_def)
  have "list_all (\<lambda>r'. ahead_opt reversed (row_key r') (Some (row_key r))) rows"
    using Cons(4) by (auto simp: scan.in_order_def list_all_iff)
  then have "\<exists>m'. merge_run m1 (map PushChunk (concat (map encode_row rows))) = (rows, Ok m')
      \<and> between_rows reversed (if rows = [] then Some (row_key r) else Some (row_key (last rows))) m'"
    using Cons(1) [OF m1(2)] Cons(3,4) by (simp add: scan.in_order_def)
  then show ?case using m1(1) by (auto simp: merge_run_append)
qed

lemma between_rows_new: "between_rows reversed None (merger_new reversed)"
  by (simp add: between_rows_def merger_new_def)

section \<open>Abandoned rows\<close>

text \<open>The chunk by which a server withdraws what it has sent of a row.\<close>

definition reset_chunk :: CellChunk where
  "reset_chunk = blank_chunk\<lparr>ch_value := [], ch_row_status := Some (ResetRow True)\<rparr>"

definition withdraws :: "MergeOp \<Rightarrow> bool" where
  "withdraws op \<longleftrightarrow> op = PushChunk reset_chunk \<or> op = DiscardPartial"

lemma withdraw_step:
  assumes "withdraws op" and "m_state m \<noteq> NewRow"
  shows "merge_step m op = (Ok None, clear_active_row m)"
  using assms
  by (cases "m_state m")
    (auto simp: withdraws_def reset_chunk_def push_def start_cell_eq continue_cell_eq is_reset_def
      validate_reset_def discard_partial_def)

lemma between_rows_clear:
  "m_reversed m = reversed \<Longrightarrow> between_rows reversed (m_last_complete_key m) (clear_active_row m)"
  by (simp add: between_rows_def)

text \<open>No proper prefix of the chunks of a row completes it.\<close>

definition chunk_of_row :: "bytes \<Rightarrow> CellChunk \<Rightarrow> bool" where
  "chunk_of_row key c \<longleftrightarrow> \<not> is_reset c \<and> (ch_row_key c = [] \<or> ch_row_key c = key)"

lemma rest_chunks_of_row:
  "status = None \<or> status = Some (CommitRow True) \<Longrightarrow> c \<in> set (rest_chunks n status ps)
   \<Longrightarrow> chunk_of_row key c"
  by (induction n status ps rule: rest_chunks.induct) (auto simp: chunk_of_row_def is_reset_def)

lemma cell_chunks_of_row:
  "\<lbrakk>status = None \<or> status = Some (CommitRow True); wire_cell_ok key w;
     c \<in> set (cell_chunks status w)\<rbrakk> \<Longrightarrow> chunk_of_row key c"
  by (auto simp: cell_chunks_def Let_def wire_cell_ok_def chunk_of_row_def is_reset_def
      split: list.splits dest!: rest_chunks_of_row [where key = key, rotated])

lemma row_chunks_of_row:
  "\<lbrakk>list_all (wire_cell_ok key) ws; c \<in> set (row_chunks ws)\<rbrakk> \<Longrightarrow> chunk_of_row key c"
  by (induction ws rule: row_chunks.induct) (auto dest: cell_chunks_of_row [rotated 2])

text \<open>What a successful run of such chunks can have led to.\<close>

lemma row_prefix_state:
  assumes "merge_run m (map PushChunk cs) = (rows, Ok m')" and "list_all (chunk_of_row key) cs"
    and "cs \<noteq> []" and "m_state m' = NewRow"
  shows "rows \<noteq> []"
proof -
  obtain ds c where cs: "cs = ds @ [c]" using assms(3) by (cases cs rule: rev_cases) auto
  obtain rows1 m1 where run: "merge_run m (map PushChunk ds) = (rows1, Ok m1)"
    using assms(1) by (auto simp: cs merge_run_append split: prod.splits sum.splits)
  have "\<not> is_reset c" using assms(2) by (simp add: cs chunk_of_row_def)
  then show ?thesis
    using assms(1,4) run push_keeps_row_open [of m1 c]
    by (auto simp: cs merge_run_append split: prod.splits sum.splits option.splits)
qed

lemma run_last_key:
  assumes "merger_inv m" and "merge_run m (map PushChunk cs) = (rows, Ok m')"
  shows "m_reversed m' = m_reversed m \<and> merger_inv m' \<and> m_last_complete_key m' =
    (if rows = [] then m_last_complete_key m else Some (row_key (last rows)))"
  using assms
proof (induction cs arbitrary: m rows)
  case (Cons c cs)
  obtain out m1 where push: "push m c = (out, m1)" by fastforce
  then have "push_ok m (out, m1)" using push_ok [OF Cons(2), of c] by simp
  then show ?case
    using Cons(1) [of m1] Cons(3) push
    by (cases out; cases "projr out") (auto split: prod.splits sum.splits)
qed simp

lemma row_prefix_open:
  assumes ws: "wire_row_ok key ws" and k: "0 < k" "k < length (row_chunks ws)"
  shows "\<exists>m. merge_run (merger_new reversed) (map PushChunk (take k (row_chunks ws))) = ([], Ok m)
    \<and> m_state m \<noteq> NewRow \<and> m_reversed m = reversed \<and> m_last_complete_key m = None"
proof -
  let ?run = "\<lambda>m cs. merge_run m (map PushChunk cs)"
  obtain row m2 where whole: "?run (merger_new reversed) (row_chunks ws) = ([row], Ok m2)"
    and m2: "m_state m2 = NewRow"
    using row_chunks_between [OF between_rows_new ws, of reversed] by (auto simp: between_rows_def)
  let ?pre = "take k (row_chunks ws)" and ?post = "drop k (row_chunks ws)"
  have "?run (merger_new reversed) (?pre @ ?post) = ([row], Ok m2)" using whole by simp
  then obtain rows1 m1 rows2 where run: "?run (merger_new reversed) ?pre = (rows1, Ok m1)"
    "?run m1 ?post = (rows2, Ok m2)" "[row] = rows1 @ rows2"
    unfolding map_append merge_run_append by (auto split: prod.splits sum.splits)
  have chunks: "list_all (chunk_of_row key) ?pre" "list_all (chunk_of_row key) ?post"
    using ws row_chunks_of_row [of key ws]
    by (auto simp: wire_row_ok_def list_all_iff dest: in_set_takeD in_set_dropD)
  have "rows2 \<noteq> []"
    using row_prefix_state [OF run(2) chunks(2)] k by (simp add: m2)
  then have "rows1 = []" using run(3) by (cases rows1) auto
  moreover have "m_state m1 \<noteq> NewRow"
    using row_prefix_state [OF run(1) chunks(1)] k \<open>rows1 = []\<close> by (cases "row_chunks ws") auto
  ultimately show ?thesis
    using run(1) run_last_key [OF merger_inv_new run(1)] by auto
qed

section \<open>Properties\<close>

text \<open>
  C12. Round trip: well-formed rows in scan order, encoded chunk by chunk, come out of the
  merger exactly as they were, and the merger is between rows afterwards.
\<close>

theorem merger_decodes_rows:
  assumes "list_all row_ok rows" and "scan.in_order reversed (map row_key rows)"
  shows "\<exists>m. merge_run (merger_new reversed) (map PushChunk (concat (map encode_row rows)))
      = (rows, Ok m) \<and> merger_finish m = Ok ()"
  using merge_encoded_rows [OF between_rows_new assms]
  by (auto simp: merger_finish_def list_all_iff between_rows_def)

text \<open>Two rows for the witnesses: one with two families, one with two cells in a column.\<close>

definition sample_cell :: "int \<Rightarrow> bytes \<Rightarrow> Cell" where
  "sample_cell ts v = \<lparr>cell_timestamp_micros = ts, cell_value = v, cell_labels = []\<rparr>"

definition sample_rows :: "Row list" where
  "sample_rows =
     [\<lparr>row_key = [1], row_families =
        [\<lparr>fam_name = ''f'', fam_columns = [\<lparr>col_qualifier = [7], col_cells = [sample_cell 5 [1, 2]]\<rparr>]\<rparr>,
         \<lparr>fam_name = ''g'', fam_columns = [\<lparr>col_qualifier = [], col_cells = [sample_cell 6 []]\<rparr>]\<rparr>]\<rparr>,
      \<lparr>row_key = [1, 0], row_families =
        [\<lparr>fam_name = ''f'', fam_columns =
           [\<lparr>col_qualifier = [7], col_cells = [sample_cell 9 [3], sample_cell 8 [4]]\<rparr>]\<rparr>]\<rparr>]"

definition sample_wire :: "bytes \<Rightarrow> WireCell list" where
  "sample_wire key =
     [\<lparr>w_key = key, w_family = Some ''f'', w_qualifier = Some [7], w_cell = sample_cell 5 [1, 2, 3],
        w_pieces = [[1], [], [2, 3]]\<rparr>,
      \<lparr>w_key = [], w_family = None, w_qualifier = None, w_cell = sample_cell 4 [9], w_pieces = [[9]]\<rparr>]"

lemma sample_wire_ok: "key \<noteq> [] \<Longrightarrow> wire_row_ok key (sample_wire key)"
  by (simp add: wire_row_ok_def wire_cell_ok_def sample_wire_def sample_cell_def)

theorem merger_decodes_rows_witness:
  "\<exists>m. merge_run (merger_new False) (map PushChunk (concat (map encode_row sample_rows)))
      = (sample_rows, Ok m) \<and> merger_finish m = Ok ()"
  by (rule merger_decodes_rows)
    (simp_all add: sample_rows_def sample_cell_def row_ok_def families_ok_def family_ok_def
      scan.in_order_def ahead_def)

text \<open>
  C13. However a row is cut into chunks (row keys repeated or empty, names inherited, every
  value split at any positions), the merger emits it once, with each cell filed under the
  family and column it resolves to, in the order received.
\<close>

theorem merger_ignores_chunking:
  assumes "wire_row_ok key ws"
  shows "\<exists>m. merge_run (merger_new reversed) (map PushChunk (row_chunks ws))
      = ([\<lparr>row_key = key, row_families = foldl add_cell [] (resolve [] [] ws)\<rparr>], Ok m)
    \<and> merger_finish m = Ok ()"
  using row_chunks_between [OF between_rows_new assms, of reversed]
  by (auto simp: merger_finish_def between_rows_def)

theorem merger_ignores_chunking_witness:
  "\<exists>m. merge_run (merger_new True) (map PushChunk (row_chunks (sample_wire [3])))
      = ([\<lparr>row_key = [3], row_families = [\<lparr>fam_name = ''f'', fam_columns =
           [\<lparr>col_qualifier = [7], col_cells = [sample_cell 5 [1, 2, 3], sample_cell 4 [9]]\<rparr>]\<rparr>]\<rparr>], Ok m)
    \<and> merger_finish m = Ok ()"
  using merger_ignores_chunking [OF sample_wire_ok [of "[3]"], of True]
  by (simp add: sample_wire_def Let_def add_cell_def add_cell_to_columns_def)

text \<open>
  C14. A row that is withdrawn before its commit, by a reset chunk of the server or because
  the attempt that carried it was abandoned, leaves no trace: whatever proper part of it had
  arrived, the row sent next is emitted exactly as by a fresh merger.
\<close>

theorem withdrawn_row_leaves_no_trace:
  assumes "wire_row_ok key ws" "0 < k" "k < length (row_chunks ws)" and "withdraws op"
    and "wire_row_ok key' vs"
  shows "\<exists>m. merge_run (merger_new reversed)
      (map PushChunk (take k (row_chunks ws)) @ op # map PushChunk (row_chunks vs))
      = ([\<lparr>row_key = key', row_families = foldl add_cell [] (resolve [] [] vs)\<rparr>], Ok m)"
proof -
  obtain m where m: "merge_run (merger_new reversed) (map PushChunk (take k (row_chunks ws)))
      = ([], Ok m)" "m_state m \<noteq> NewRow" "m_reversed m = reversed" "m_last_complete_key m = None"
    using row_prefix_open [OF assms(1-3)] by blast
  have "between_rows reversed None (clear_active_row m)"
    using between_rows_clear [OF m(3)] m(4) by simp
  from row_chunks_between [OF this assms(5)] show ?thesis
    using m(1) withdraw_step [OF assms(4) m(2)] by (auto simp: merge_run_append)
qed

theorem withdrawn_row_leaves_no_trace_witness:
  "\<exists>m. merge_run (merger_new False)
      (map PushChunk (take 2 (row_chunks (sample_wire [8]))) @ PushChunk reset_chunk
         # map PushChunk (row_chunks (sample_wire [3])))
      = ([\<lparr>row_key = [3], row_families =
            foldl add_cell [] (resolve [] [] (sample_wire [3]))\<rparr>], Ok m)"
  by (rule withdrawn_row_leaves_no_trace [OF sample_wire_ok [of "[8]"]])
    (simp_all add: sample_wire_ok, simp_all add: sample_wire_def withdraws_def cell_chunks_def Let_def)

end
