(* ===== verification/Resume.thy ===== *)
theory Resume
  imports Query Rows
begin

text \<open>
  The last part of \<open>read.rs\<close>: how a failed read is resumed. The row set of the original
  request is trimmed to the keys that the scan has not passed yet, and the row limit is reduced
  by the rows delivered. What the trimmed messages select is compared with the original.
\<close>

section \<open>Comparing the ends of a range with the progress\<close>

definition start_at_or_before :: "StartKey option \<Rightarrow> bytes \<Rightarrow> bool" where
  "start_at_or_before s key = (case s of None \<Rightarrow> True
     | Some (StartKeyClosed s) \<Rightarrow> s \<le> key | Some (StartKeyOpen s) \<Rightarrow> s \<le> key)"

definition start_at_or_after :: "StartKey option \<Rightarrow> bytes \<Rightarrow> bool" where
  "start_at_or_after s key = (case s of None \<Rightarrow> False
     | Some (StartKeyClosed s) \<Rightarrow> s \<ge> key | Some (StartKeyOpen s) \<Rightarrow> s \<ge> key)"

definition end_at_or_before :: "EndKey option \<Rightarrow> bytes \<Rightarrow> bool" where
  "end_at_or_before e key = (case e of None \<Rightarrow> False
     | Some (EndKeyOpen e) \<Rightarrow> e \<le> key | Some (EndKeyClosed e) \<Rightarrow> e \<le> key)"

definition end_at_or_after :: "EndKey option \<Rightarrow> bytes \<Rightarrow> bool" where
  "end_at_or_after e key = (case e of None \<Rightarrow> True
     | Some (EndKeyOpen e) \<Rightarrow> e \<ge> key | Some (EndKeyClosed e) \<Rightarrow> e \<ge> key)"

section \<open>Trimming\<close>

definition trim_range :: "ProtoRowRange \<Rightarrow> bytes \<Rightarrow> bool \<Rightarrow> ProtoRowRange option" where
  "trim_range r progress reversed =
     (if reversed then
        (if start_at_or_after (start_key r) progress then None
         else if end_at_or_after (end_key r) progress
         then Some (r\<lparr>end_key := Some (EndKeyOpen progress)\<rparr>)
         else Some r)
      else
        (if end_at_or_before (end_key r) progress then None
         else if start_at_or_before (start_key r) progress
         then Some (r\<lparr>start_key := Some (StartKeyOpen progress)\<rparr>)
         else Some r))"

definition trim_row_set :: "RowSet \<Rightarrow> bytes \<Rightarrow> bool \<Rightarrow> RowSet option" where
  "trim_row_set rows progress reversed =
     (let row_keys = filter (\<lambda>key. if reversed then key < progress else key > progress)
            (rs_row_keys rows);
          row_ranges = List.map_filter (\<lambda>r. trim_range r progress reversed) (rs_row_ranges rows);
          result = \<lparr>rs_row_keys = row_keys, rs_row_ranges = row_ranges\<rparr>
      in if rs_row_keys result = [] \<and> rs_row_ranges result = [] then None else Some result)"

definition resume_request :: "ReadRowsRequest \<Rightarrow> bytes option \<Rightarrow> i64 \<Rightarrow> ReadRowsRequest option" where
  "resume_request original progress rows_returned =
     (if rr_rows_limit original > 0 \<and> rows_returned \<ge> rr_rows_limit original then None
      else
        let request = original;
            request = (if rr_rows_limit original > 0
                       then request\<lparr>rr_rows_limit := rr_rows_limit original - rows_returned\<rparr>
                       else request)
        in case progress of
             None \<Rightarrow> Some request
           | Some progress \<Rightarrow>
               let rows = (case rr_rows original of
                       None \<Rightarrow> \<lparr>rs_row_keys = [], rs_row_ranges = [\<lparr>start_key = None, end_key = None\<rparr>]\<rparr>
                     | Some rows \<Rightarrow> rows);
                   request = request\<lparr>rr_rows := trim_row_set rows progress (rr_reversed original)\<rparr>
               in if rr_rows request = None then None else Some request)"

section \<open>What the trimmed messages select\<close>

text \<open>The keys of a range that a scan still has ahead of it.\<close>

lemma trim_range_selects:
  "(case trim_range r progress reversed of None \<Rightarrow> False | Some t \<Rightarrow> in_proto_range t k)
   \<longleftrightarrow> in_proto_range r k \<and> ahead reversed k progress"
  by (auto simp: trim_range_def in_proto_range_def ahead_def after_start_def before_end_def
      start_at_or_before_def start_at_or_after_def end_at_or_before_def end_at_or_after_def
      split: option.splits StartKey.splits EndKey.splits if_splits)

lemma trim_row_set_selects:
  "(case trim_row_set rows progress reversed of None \<Rightarrow> False | Some t \<Rightarrow> in_row_set t k)
   \<longleftrightarrow> in_row_set rows k \<and> ahead reversed k progress"
proof -
  let ?ranges = "List.map_filter (\<lambda>r. trim_range r progress reversed) (rs_row_ranges rows)"
  let ?keys = "filter (\<lambda>key. if reversed then key < progress else key > progress) (rs_row_keys rows)"
  have "(\<exists>t \<in> set ?ranges. in_proto_range t k) \<longleftrightarrow>
      (\<exists>r \<in> set (rs_row_ranges rows).
        case trim_range r progress reversed of None \<Rightarrow> False | Some t \<Rightarrow> in_proto_range t k)"
    by (force simp: List.map_filter_def split: option.splits)
  also have "\<dots> \<longleftrightarrow> (\<exists>r \<in> set (rs_row_ranges rows). in_proto_range r k) \<and> ahead reversed k progress"
    unfolding trim_range_selects by blast
  finally have ranges: "(\<exists>t \<in> set ?ranges. in_proto_range t k) \<longleftrightarrow>
      (\<exists>r \<in> set (rs_row_ranges rows). in_proto_range r k) \<and> ahead reversed k progress" .
  have keys: "k \<in> set ?keys \<longleftrightarrow> k \<in> set (rs_row_keys rows) \<and> ahead reversed k progress"
    by (auto simp: ahead_def)
  have sel: "in_row_set \<lparr>rs_row_keys = ?keys, rs_row_ranges = ?ranges\<rparr> k
      \<longleftrightarrow> in_row_set rows k \<and> ahead reversed k progress"
    using ranges keys by (simp only: in_row_set_def RowSet.select_convs) blast
  have trim: "trim_row_set rows progress reversed =
      (if ?keys = [] \<and> ?ranges = [] then None
       else Some \<lparr>rs_row_keys = ?keys, rs_row_ranges = ?ranges\<rparr>)"
    by (simp only: trim_row_set_def Let_def RowSet.select_convs)
  show ?thesis
  proof (cases "?keys = [] \<and> ?ranges = []")
    case True
    have "\<not> (in_row_set rows k \<and> ahead reversed k progress)"
      unfolding sel [symmetric] using True by (simp only: in_row_set_def RowSet.select_convs) simp
    then show ?thesis unfolding trim if_P [OF True] by simp
  next
    case False
    then show ?thesis unfolding trim if_not_P [OF False] using sel by simp
  qed
qed

text \<open>Nothing left to read: the limit is used up, or no selected key is ahead.\<close>

definition nothing_left :: "ReadRowsRequest \<Rightarrow> bytes option \<Rightarrow> i64 \<Rightarrow> bool" where
  "nothing_left original progress rows_returned \<longleftrightarrow>
     rr_rows_limit original > 0 \<and> rows_returned \<ge> rr_rows_limit original
   \<or> (\<forall>k. \<not> (request_selects original k \<and> ahead_opt (rr_reversed original) k progress))"

text \<open>
  The request that continues a read: it selects exactly the keys of the original that are
  ahead of the progress, in the same direction, for the rows that the limit leaves.
\<close>

definition continues :: "ReadRowsRequest \<Rightarrow> bytes option \<Rightarrow> i64 \<Rightarrow> ReadRowsRequest \<Rightarrow> bool" where
  "continues original progress rows_returned req \<longleftrightarrow>
     (\<forall>k. request_selects req k \<longleftrightarrow>
        request_selects original k \<and> ahead_opt (rr_reversed original) k progress)
   \<and> (if rr_rows_limit original > 0
      then rr_rows_limit req = rr_rows_limit original - rows_returned \<and> rr_rows_limit req > 0
      else rr_rows_limit req = rr_rows_limit original)
   \<and> rr_reversed req = rr_reversed original \<and> rr_table_name req = rr_table_name original
   \<and> rr_app_profile_id req = rr_app_profile_id original \<and> rr_filter req = rr_filter original"

lemma resume_request_cases:
  "case resume_request original progress rows_returned of
     None \<Rightarrow> nothing_left original progress rows_returned
   | Some req \<Rightarrow> continues original progress rows_returned req"
proof (cases progress)
  case None
  then show ?thesis
    by (simp add: resume_request_def nothing_left_def continues_def request_selects_def Let_def)
next
  case (Some p)
  let ?rows = "case rr_rows original of
      None \<Rightarrow> \<lparr>rs_row_keys = [], rs_row_ranges = [\<lparr>start_key = None, end_key = None\<rparr>]\<rparr>
    | Some rows \<Rightarrow> rows"
  have orig: "request_selects original k \<longleftrightarrow> in_row_set ?rows k" for k
    by (simp add: request_selects_def in_row_set_def in_proto_range_def after_start_def
        before_end_def split: option.split)
  show ?thesis
  proof (cases "trim_row_set ?rows p (rr_reversed original)")
    case None
    then show ?thesis
      using trim_row_set_selects [where rows = ?rows and progress = p and reversed = "rr_reversed original"]
        orig Some
      by (simp add: resume_request_def nothing_left_def Let_def)
  next
    case trimmed: (Some t)
    then have "in_row_set t k \<longleftrightarrow> request_selects original k \<and> ahead (rr_reversed original) k p" for k
      using trim_row_set_selects [where rows = ?rows and progress = p
          and reversed = "rr_reversed original" and k = k] orig by simp
    then show ?thesis
      using trimmed Some
      by (simp add: resume_request_def nothing_left_def continues_def request_selects_def Let_def)
  qed
qed

section \<open>Properties\<close>

text \<open>
  C8. Resuming a read is exact. The request sent after a failure selects those keys of the
  original request that the scan has not passed, and no others, in either direction and for
  every mixture of keys and open or closed ranges; its limit is what the original limit
  leaves. No request is sent only if the limit is used up or no selected key is ahead.
\<close>

theorem resumed_request_is_exact:
  "case resume_request original progress rows_returned of
     None \<Rightarrow> nothing_left original progress rows_returned
   | Some req \<Rightarrow> continues original progress rows_returned req"
  by (rule resume_request_cases)

end
