(* ===== verification/Float64.thy ===== *)
theory Float64
  imports Complex_Main Prelude
begin

text \<open>
  The \<open>f64\<close> arithmetic that the backoff computation uses: IEEE 754 binary64 values as
  rationals, infinities and NaN, each operation rounding its exact result to nearest, ties
  to even, and the conversions between \<open>Duration\<close> and seconds. The sign of zero, which no
  operation used here can tell, is not kept. All of it computes.
\<close>

section \<open>Values and comparison\<close>

datatype f64 = NaN | PosInf | NegInf | Fin rat

instantiation f64 :: ord
begin

fun less_eq_f64 :: "f64 \<Rightarrow> f64 \<Rightarrow> bool" where
  "less_eq_f64 NaN _ \<longleftrightarrow> False"
| "less_eq_f64 _ NaN \<longleftrightarrow> False"
| "less_eq_f64 NegInf _ \<longleftrightarrow> True"
| "less_eq_f64 _ PosInf \<longleftrightarrow> True"
| "less_eq_f64 (Fin a) (Fin b) \<longleftrightarrow> a \<le> b"
| "less_eq_f64 _ _ \<longleftrightarrow> False"

definition less_f64 :: "f64 \<Rightarrow> f64 \<Rightarrow> bool" where
  "less_f64 a b \<longleftrightarrow> a \<le> b \<and> \<not> b \<le> a"

instance ..

end

definition is_finite :: "f64 \<Rightarrow> bool" where
  "is_finite x = (case x of Fin _ \<Rightarrow> True | _ \<Rightarrow> False)"

section \<open>Rounding\<close>

fun log2_nat :: "nat \<Rightarrow> nat" where
  "log2_nat n = (if n < 2 then 0 else Suc (log2_nat (n div 2)))"

declare log2_nat.simps [simp del]

definition pow2 :: "int \<Rightarrow> rat" where
  "pow2 k = (if 0 \<le> k then 2 ^ nat k else 1 / 2 ^ nat (- k))"

text \<open>The exponent of a positive rational: the \<open>k\<close> with \<open>2 ^ k \<le> x < 2 ^ (k + 1)\<close>.\<close>

definition exponent :: "rat \<Rightarrow> int" where
  "exponent x =
     (let (a, b) = quotient_of x;
          k = int (log2_nat (nat a)) - int (log2_nat (nat b))
      in if pow2 k \<le> x then k else k - 1)"

text \<open>To the nearest integer, halves to the even one.\<close>

definition round_half_even :: "rat \<Rightarrow> int" where
  "round_half_even x =
     (let n = \<lfloor>x\<rfloor>; r = x - of_int n
      in if r < 1 / 2 then n else if r > 1 / 2 then n + 1 else if even n then n else n + 1)"

text \<open>The distance of neighbouring values at \<open>x\<close>, subnormal ones included.\<close>

definition ulp_exponent :: "rat \<Rightarrow> int" where
  "ulp_exponent x = max (exponent \<bar>x\<bar> - 52) (-1074)"

definition round64 :: "rat \<Rightarrow> f64" where
  "round64 x =
     (if x = 0 then Fin 0
      else
        let q = ulp_exponent x; y = of_int (round_half_even (x / pow2 q)) * pow2 q
        in if pow2 1024 \<le> y then PosInf else if y \<le> - pow2 1024 then NegInf else Fin y)"

section \<open>Arithmetic\<close>

fun mul64 :: "f64 \<Rightarrow> f64 \<Rightarrow> f64" where
  "mul64 (Fin a) (Fin b) = round64 (a * b)"
| "mul64 NaN _ = NaN"
| "mul64 _ NaN = NaN"
| "mul64 PosInf PosInf = PosInf"
| "mul64 NegInf NegInf = PosInf"
| "mul64 PosInf NegInf = NegInf"
| "mul64 NegInf PosInf = NegInf"
| "mul64 PosInf (Fin b) = (if b = 0 then NaN else if 0 < b then PosInf else NegInf)"
| "mul64 NegInf (Fin b) = (if b = 0 then NaN else if 0 < b then NegInf else PosInf)"
| "mul64 (Fin a) PosInf = (if a = 0 then NaN else if 0 < a then PosInf else NegInf)"
| "mul64 (Fin a) NegInf = (if a = 0 then NaN else if 0 < a then NegInf else PosInf)"

text \<open>Addition and division are used on finite operands only; the divisor is not zero.\<close>

fun add64 :: "f64 \<Rightarrow> f64 \<Rightarrow> f64" where
  "add64 (Fin a) (Fin b) = round64 (a + b)"
| "add64 NaN _ = NaN"
| "add64 _ NaN = NaN"
| "add64 PosInf NegInf = NaN"
| "add64 NegInf PosInf = NaN"
| "add64 PosInf _ = PosInf"
| "add64 _ PosInf = PosInf"
| "add64 NegInf _ = NegInf"
| "add64 _ NegInf = NegInf"

definition div64_pos :: "f64 \<Rightarrow> rat \<Rightarrow> f64" where
  "div64_pos x b = (case x of Fin a \<Rightarrow> round64 (a / b) | _ \<Rightarrow> x)"

text \<open>\<open>f64::min\<close> gives the other operand when one is NaN.\<close>

definition min64 :: "f64 \<Rightarrow> f64 \<Rightarrow> f64" where
  "min64 a b = (if a = NaN then b else if b = NaN then a else if a \<le> b then a else b)"

section \<open>Durations\<close>

definition nanos_per_sec :: nat where "nanos_per_sec = 1000000000"

text \<open>\<open>Duration::MAX\<close>, and the range of the type.\<close>

definition duration_max :: duration where
  "duration_max = u64_max * nanos_per_sec + (nanos_per_sec - 1)"

definition as_secs_f64 :: "duration \<Rightarrow> f64" where
  "as_secs_f64 d =
     add64 (round64 (of_nat (d div nanos_per_sec)))
       (div64_pos (round64 (of_nat (d mod nanos_per_sec))) (of_nat nanos_per_sec))"

text \<open>
  \<open>Duration::from_secs_f64\<close> rounds to the nearest nanosecond, ties to even, and panics
  (\<open>None\<close>) on a negative, infinite, NaN or too large value.
\<close>

definition from_secs_f64 :: "f64 \<Rightarrow> duration option" where
  "from_secs_f64 x =
     (case x of
        Fin s \<Rightarrow> if s < 0 \<or> pow2 64 \<le> s then None
                 else Some (nat (round_half_even (s * of_nat nanos_per_sec)))
      | _ \<Rightarrow> None)"

section \<open>Powers of two and exponents\<close>

lemma pow2_pos [simp]: "0 < pow2 k"
  by (simp add: pow2_def)

lemma pow2_powi: "pow2 k = 2 powi k"
  by (simp add: pow2_def power_int_def inverse_eq_divide power_divide)

lemma pow2_add: "pow2 (a + b) = pow2 a * pow2 b"
  by (simp add: pow2_powi power_int_add)

lemma pow2_mono: "a < b \<Longrightarrow> pow2 a < pow2 b"
  by (simp add: pow2_powi power_int_strict_increasing)

lemma pow2_less_iff [simp]: "pow2 a < pow2 b \<longleftrightarrow> a < b"
  using pow2_mono [of a b] pow2_mono [of b a] by (cases a b rule: linorder_cases) auto

lemma pow2_le_iff [simp]: "pow2 a \<le> pow2 b \<longleftrightarrow> a \<le> b"
  by (simp add: not_less [symmetric])

lemma log2_nat_bounds: "0 < n \<Longrightarrow> 2 ^ log2_nat n \<le> n \<and> n < 2 ^ Suc (log2_nat n)"
proof (induction n rule: log2_nat.induct)
  case (1 n)
  show ?case
  proof (cases "n < 2")
    case True
    then show ?thesis using 1 by (simp add: log2_nat.simps)
  next
    case False
    define p :: nat where "p = 2 ^ log2_nat (n div 2)"
    have "p \<le> n div 2 \<and> n div 2 < 2 * p" using 1 False by (simp add: p_def)
    then have "2 * p \<le> n \<and> n < 2 * (2 * p)" by arith
    then show ?thesis using False by (simp add: log2_nat.simps [of n] p_def)
  qed
qed

lemma log2_nat_bounds_int:
  assumes "0 < a"
  shows "(2::rat) ^ log2_nat (nat a) \<le> of_int a" "of_int a < (2::rat) ^ Suc (log2_nat (nat a))"
proof -
  obtain n where a: "a = int n" "0 < n" using assms by (metis zero_less_imp_eq_int)
  have "rat_of_nat (2 ^ log2_nat n) \<le> of_nat n" "of_nat n < rat_of_nat (2 ^ Suc (log2_nat n))"
    using log2_nat_bounds [OF a(2)] by (simp_all only: of_nat_le_iff of_nat_less_iff)
  then show "(2::rat) ^ log2_nat (nat a) \<le> of_int a"
    "of_int a < (2::rat) ^ Suc (log2_nat (nat a))"
    by (simp_all add: a)
qed

lemma exponent_bounds:
  assumes "0 < x" shows "pow2 (exponent x) \<le> x \<and> x < pow2 (exponent x + 1)"
proof -
  obtain a b where q: "quotient_of x = (a, b)" by (cases "quotient_of x")
  then have x: "x = of_int a / of_int b" and b: "0 < b"
    using quotient_of_div quotient_of_denom_pos by blast+
  then have a: "0 < a" using assms by (simp add: zero_less_divide_iff)
  let ?i = "log2_nat (nat a)" and ?j = "log2_nat (nat b)"
  let ?k = "int ?i - int ?j"
  have A: "(2::rat) ^ ?i \<le> of_int a" "of_int a < (2::rat) ^ Suc ?i"
    using log2_nat_bounds_int [OF a] by simp_all
  have B: "(2::rat) ^ ?j \<le> of_int b" "of_int b < (2::rat) ^ Suc ?j"
    using log2_nat_bounds_int [OF b] by simp_all
  have k: "pow2 ?k = 2 ^ ?i / 2 ^ ?j"
    by (simp add: pow2_powi power_int_diff)
  have "x < 2 ^ Suc ?i / 2 ^ ?j"
    unfolding x using A B b a by (intro frac_less) auto
  then have upper: "x < pow2 (?k + 1)"
    by (simp add: pow2_add k pow2_def [of 1] mult.commute)
  have "2 ^ ?i / 2 ^ Suc ?j \<le> x"
    unfolding x using A B a b by (intro frac_le) auto
  then have lower: "pow2 (?k - 1) \<le> x"
    using k pow2_add [of "?k - 1" 1] by (simp add: pow2_def [of 1])
  show ?thesis
    using upper lower by (auto simp: exponent_def q Let_def)
qed

lemma exponent_less: "0 < x \<Longrightarrow> x < pow2 k \<Longrightarrow> exponent x < k"
  using exponent_bounds [of x] by (metis le_less_trans pow2_less_iff)

section \<open>Rounding errors\<close>

lemma round_half_even_error: "\<bar>of_int (round_half_even x) - x\<bar> \<le> 1 / 2"
  by (auto simp: round_half_even_def Let_def abs_if) linarith+

lemma round_half_even_int [simp]: "round_half_even (of_int n) = n"
  by (simp add: round_half_even_def)

lemma round_half_even_mono: "x \<le> y \<Longrightarrow> round_half_even x \<le> round_half_even y"
proof (cases "\<lfloor>x\<rfloor> < \<lfloor>y\<rfloor>")
  case True
  have "round_half_even x \<le> \<lfloor>x\<rfloor> + 1" "\<lfloor>y\<rfloor> \<le> round_half_even y"
    by (auto simp: round_half_even_def Let_def)
  then show ?thesis using True by linarith
next
  case False
  assume "x \<le> y"
  then have "\<lfloor>x\<rfloor> = \<lfloor>y\<rfloor>" using False floor_mono [of x y] by simp
  then show ?thesis using \<open>x \<le> y\<close> by (auto simp: round_half_even_def Let_def)
qed

lemma round_half_even_unique: "\<bar>x - of_int n\<bar> < 1 / 2 \<Longrightarrow> round_half_even x = n"
  using round_half_even_error [of x] by linarith

lemma round_half_even_0 [simp]: "round_half_even 0 = 0"
  using round_half_even_int [of 0] by simp

lemma round_half_even_nonneg: "0 \<le> x \<Longrightarrow> 0 \<le> round_half_even x"
  using round_half_even_mono [of 0 x] by simp

lemma pow2_nat: "0 \<le> k \<Longrightarrow> pow2 k = of_int (2 ^ nat k)"
  by (simp add: pow2_def)

text \<open>The relative error of rounding, stated for values below a power of two.\<close>

lemma round64_below:
  assumes "0 \<le> x" "x < pow2 k" "-1021 \<le> k" "k \<le> 1023"
  shows "\<exists>y. round64 x = Fin y \<and> \<bar>y - x\<bar> \<le> pow2 (k - 54) \<and> 0 \<le> y \<and> y \<le> pow2 k"
proof (cases "x = 0")
  case True
  then show ?thesis by (simp add: round64_def less_imp_le)
next
  case False
  then have x: "0 < x" using assms by simp
  define q where "q = ulp_exponent x"
  define n where "n = round_half_even (x / pow2 q)"
  define y where "y = of_int n * pow2 q"
  have "exponent x < k" using exponent_less [OF x assms(2)] .
  then have q: "q \<le> k - 53" using assms(3) x by (simp add: q_def ulp_exponent_def)
  have half: "pow2 q / 2 = pow2 (q - 1)"
    using pow2_add [of "q - 1" 1] by (simp add: pow2_def [of 1])
  have "\<bar>y - x\<bar> = \<bar>of_int n - x / pow2 q\<bar> * pow2 q"
  proof -
    have "y - x = (of_int n - x / pow2 q) * pow2 q"
      by (simp add: y_def left_diff_distrib less_imp_neq [OF pow2_pos, symmetric])
    then show ?thesis using pow2_pos [of q] by (simp only: abs_mult abs_of_pos)
  qed
  also have "\<dots> \<le> 1 / 2 * pow2 q"
    using round_half_even_error [of "x / pow2 q"] by (intro mult_right_mono) (simp_all add: n_def less_imp_le)
  also have "\<dots> = pow2 (q - 1)" using half by simp
  also have "\<dots> \<le> pow2 (k - 54)" using q by simp
  finally have err: "\<bar>y - x\<bar> \<le> pow2 (k - 54)" .
  have "0 \<le> n" using x pow2_pos [of q]
    by (simp only: n_def round_half_even_nonneg divide_nonneg_pos less_imp_le)
  then have pos: "0 \<le> y" by (simp add: y_def less_imp_le)
  have "x / pow2 q \<le> pow2 (k - q)"
    using assms(2) pow2_add [of "k - q" q] by (simp add: pos_divide_le_eq less_imp_le)
  also have "\<dots> = of_int (2 ^ nat (k - q))" using q by (intro pow2_nat) simp
  finally have "n \<le> 2 ^ nat (k - q)"
    unfolding n_def using round_half_even_mono round_half_even_int by metis
  then have "of_int n \<le> pow2 (k - q)" using q pow2_nat [of "k - q"] by simp
  then have "y \<le> pow2 (k - q) * pow2 q" by (simp add: y_def)
  then have upper: "y \<le> pow2 k" using pow2_add [of "k - q" q] by simp
  have "y < pow2 1024" using upper assms(4) pow2_mono [of k 1024] by linarith
  moreover have "- pow2 1024 < y" using pos pow2_pos [of 1024] by linarith
  ultimately have "round64 x = Fin y"
    using False by (simp add: round64_def Let_def y_def n_def q_def not_le)
  then show ?thesis using err pos upper by blast
qed

lemma round64_of_nat:
  assumes "n < 2 ^ 53"
  shows "round64 (of_nat n) = Fin (of_nat n)"
proof (cases "n = 0")
  case True
  then show ?thesis by (simp add: round64_def)
next
  case False
  define q where "q = ulp_exponent (of_nat n)"
  have "rat_of_nat n < rat_of_nat (2 ^ 53)" using assms by (simp only: of_nat_less_iff)
  then have n: "rat_of_nat n < pow2 53" by (simp add: pow2_def)
  then have "exponent (of_nat n) < 53" using False by (intro exponent_less) simp_all
  then have q: "q \<le> 0" by (simp add: q_def ulp_exponent_def)
  have "of_nat n / pow2 q = of_nat n * pow2 (- q)"
    using pow2_add [of "- q" q] pow2_pos [of q]
    by (simp add: pow2_def [of 0] divide_eq_eq mult.assoc del: pow2_pos) 
  also have "\<dots> = of_int (int n * 2 ^ nat (- q))"
    using q pow2_nat [of "- q"] by simp
  finally have int: "of_nat n / pow2 q = rat_of_int (int n * 2 ^ nat (- q))" .
  then have "of_int (round_half_even (of_nat n / pow2 q)) * pow2 q = rat_of_nat n"
    by (metis round_half_even_int nonzero_divide_eq_eq pow2_pos less_irrefl)
  moreover have "rat_of_nat n < pow2 1024"
    using n by (rule less_trans) simp
  moreover have "- pow2 1024 < rat_of_nat n"
    by (meson less_le_trans neg_less_0_iff_less of_nat_0_le_iff pow2_pos)
  ultimately show ?thesis
    using False by (simp add: round64_def Let_def not_le flip: q_def)
qed

section \<open>What the conversions guarantee\<close>

lemma frac_secs: "of_nat (d mod nanos_per_sec) / of_nat nanos_per_sec < (1 :: rat)"
  by (simp add: nanos_per_sec_def)

text \<open>A duration in seconds: how far the \<open>f64\<close> is from the exact value.\<close>

lemma as_secs_f64_below:
  assumes "d div nanos_per_sec < 2 ^ 53" "rat_of_nat (d div nanos_per_sec) + 1 < pow2 k"
    "0 \<le> k" "k \<le> 1023"
  shows "\<exists>v. as_secs_f64 d = Fin v \<and> 0 \<le> v
    \<and> \<bar>v - of_nat d / of_nat nanos_per_sec\<bar> \<le> pow2 (k - 54) + pow2 (- 54)"
proof -
  let ?s = "d div nanos_per_sec" and ?n = "d mod nanos_per_sec" and ?g = "of_nat nanos_per_sec :: rat"
  have n: "?n < 2 ^ 53" by (simp add: nanos_per_sec_def)
  obtain r where r: "round64 (of_nat ?n / ?g) = Fin r"
      "\<bar>r - of_nat ?n / ?g\<bar> \<le> pow2 (- 54)" "0 \<le> r" "r \<le> 1"
    using round64_below [of "of_nat ?n / ?g" 0] frac_secs [of d] by (auto simp: pow2_def [of 0])
  obtain v where v: "round64 (of_nat ?s + r) = Fin v"
      "\<bar>v - (of_nat ?s + r)\<bar> \<le> pow2 (k - 54)" "0 \<le> v"
    using round64_below [of "of_nat ?s + r" k] r assms by auto
  have "of_nat d = of_nat ?s * ?g + of_nat ?n"
    by (metis div_mult_mod_eq of_nat_add of_nat_mult)
  then have exact: "of_nat d / ?g = of_nat ?s + of_nat ?n / ?g"
    by (simp add: add_divide_distrib nanos_per_sec_def)
  have "as_secs_f64 d = Fin v"
    using r(1) v(1) round64_of_nat [OF assms(1)] round64_of_nat [OF n]
    by (simp add: as_secs_f64_def div64_pos_def)
  moreover have "\<bar>v - of_nat d / ?g\<bar> \<le> pow2 (k - 54) + pow2 (- 54)"
    using r(2) v(2) unfolding exact by linarith
  ultimately show ?thesis using v(3) by blast
qed

lemma as_secs_f64_finite:
  assumes "d div nanos_per_sec < 2 ^ 63"
  shows "\<exists>v. as_secs_f64 d = Fin v \<and> 0 \<le> v \<and> v < pow2 64"
proof -
  let ?s = "d div nanos_per_sec" and ?n = "d mod nanos_per_sec" and ?g = "of_nat nanos_per_sec :: rat"
  have n: "?n < 2 ^ 53" by (simp add: nanos_per_sec_def)
  obtain r where r: "round64 (of_nat ?n / ?g) = Fin r" "0 \<le> r" "r \<le> 1"
    using round64_below [of "of_nat ?n / ?g" 0] frac_secs [of d] by (auto simp: pow2_def [of 0])
  have "rat_of_nat ?s < rat_of_nat (2 ^ 63)" using assms by (simp only: of_nat_less_iff)
  then have "rat_of_nat ?s < pow2 63" by (simp add: pow2_def)
  then obtain t where t: "round64 (of_nat ?s) = Fin t" "0 \<le> t" "t \<le> pow2 63"
    using round64_below [of "of_nat ?s" 63] by auto
  have sum: "t + r < pow2 64" using t(3) r(3) by (simp add: pow2_def)
  obtain v where v: "round64 (t + r) = Fin v" "\<bar>v - (t + r)\<bar> \<le> pow2 10" "0 \<le> v"
    using round64_below [of "t + r" 64] t(2) r(2) sum by auto
  have "v < pow2 64" using v(2) t(3) r(3) by (simp add: pow2_def)
  moreover have "as_secs_f64 d = Fin v"
    using r(1) t(1) v(1) round64_of_nat [OF n] by (simp add: as_secs_f64_def div64_pos_def)
  ultimately show ?thesis using v(3) by blast
qed

text \<open>Below \<open>2 ^ 22\<close> seconds, about 48 days, the round trip through seconds is exact.\<close>

lemma from_secs_as_secs:
  assumes "d div nanos_per_sec < 2 ^ 22"
  shows "\<exists>v. as_secs_f64 d = Fin v \<and> 0 \<le> v \<and> v < pow2 64 \<and> from_secs_f64 (Fin v) = Some d"
proof -
  have "d div nanos_per_sec + 1 < 2 ^ 23" "d div nanos_per_sec < 2 ^ 53" using assms by simp_all
  then have "rat_of_nat (d div nanos_per_sec + 1) < rat_of_nat (2 ^ 23)"
    by (simp only: of_nat_less_iff)
  then have "rat_of_nat (d div nanos_per_sec) + 1 < pow2 23" by (simp add: pow2_def)
  with as_secs_f64_below [of d 23] \<open>d div nanos_per_sec < 2 ^ 53\<close>
  obtain v where v: "as_secs_f64 d = Fin v" "0 \<le> v"
    and err: "\<bar>v - of_nat d / of_nat nanos_per_sec\<bar> \<le> pow2 (- 31) + pow2 (- 54)" by auto
  let ?g = "of_nat nanos_per_sec :: rat"
  have "\<bar>v * ?g - of_nat d\<bar> = \<bar>v - of_nat d / ?g\<bar> * ?g"
    by (simp add: nanos_per_sec_def abs_if field_simps)
  also have "\<dots> \<le> (pow2 (- 31) + pow2 (- 54)) * ?g"
    using err by (intro mult_right_mono) simp_all
  also have "\<dots> < 1 / 2" by (simp add: pow2_def nanos_per_sec_def)
  finally have "round_half_even (v * ?g) = int d"
    by (intro round_half_even_unique) simp
  moreover have "v < pow2 64"
    using as_secs_f64_finite [of d] assms v(1) by simp
  ultimately show ?thesis using v by (auto simp: from_secs_f64_def)
qed

end
