(* ===== verification/Retry.thy ===== *)
theory Retry
  imports Float64 Config
begin

text \<open>
  \<open>retry.rs\<close>: retry and deadline policies, their validation, which statuses are retried, the
  backoff before a retry, and the delay a server asks for.

  Parameters of the model: \<open>powi64\<close> is \<open>f64::powi\<close>, whose precision Rust leaves open; \<open>rand m\<close>
  is the value \<open>fastrand::u64(0..=m)\<close> yields; \<open>decode_status\<close> and \<open>decode_retry_info\<close> are
  the decoders of the generated protobuf messages.
\<close>

section \<open>Policies\<close>

datatype Jitter = Full | NoJitter  \<comment> \<open>the source's \<open>None\<close>\<close>

record RetryPolicy =
  max_attempts :: u32
  initial_backoff :: duration
  max_backoff :: duration
  multiplier :: f64
  jitter :: Jitter

definition retry_policy_default :: RetryPolicy where
  "retry_policy_default =
     \<lparr>max_attempts = 10, initial_backoff = millis 10, max_backoff = secs 60,
      multiplier = Fin 2, jitter = Full\<rparr>"

record DeadlinePolicy =
  operation_timeout :: duration
  attempt_timeout :: duration

definition deadline_policy_default :: DeadlinePolicy where
  "deadline_policy_default = \<lparr>operation_timeout = secs 600, attempt_timeout = secs 20\<rparr>"

record ReadOptions =
  ro_retry :: RetryPolicy
  ro_deadlines :: DeadlinePolicy

definition read_options_default :: ReadOptions where
  "read_options_default = \<lparr>ro_retry = retry_policy_default, ro_deadlines = deadline_policy_default\<rparr>"

section \<open>Validation\<close>

datatype PolicyIssue =
    ZeroMaxAttempts | ZeroInitialBackoff | ZeroMaxBackoff | MaxBackoffTooSmall
  | InvalidBackoffMultiplier | ZeroOperationTimeout | ZeroAttemptTimeout

definition validate_policies :: "RetryPolicy \<Rightarrow> DeadlinePolicy \<Rightarrow> (PolicyIssue, unit) result" where
  "validate_policies retry deadlines =
     (if max_attempts retry = 0 then Err PolicyIssue.ZeroMaxAttempts
      else if initial_backoff retry = 0 then Err PolicyIssue.ZeroInitialBackoff
      else if max_backoff retry = 0 then Err PolicyIssue.ZeroMaxBackoff
      else if max_backoff retry < initial_backoff retry then Err PolicyIssue.MaxBackoffTooSmall
      else if \<not> is_finite (multiplier retry) \<or> multiplier retry < Fin 1
      then Err PolicyIssue.InvalidBackoffMultiplier
      else if operation_timeout deadlines = 0 then Err PolicyIssue.ZeroOperationTimeout
      else if attempt_timeout deadlines = 0 then Err PolicyIssue.ZeroAttemptTimeout
      else Ok ())"

fun read_policy_issue :: "PolicyIssue \<Rightarrow> ReadPolicyIssue" where
  "read_policy_issue PolicyIssue.ZeroMaxAttempts = ReadPolicyIssue.ZeroMaxAttempts"
| "read_policy_issue PolicyIssue.ZeroInitialBackoff = ReadPolicyIssue.ZeroInitialBackoff"
| "read_policy_issue PolicyIssue.ZeroMaxBackoff = ReadPolicyIssue.ZeroMaxBackoff"
| "read_policy_issue PolicyIssue.MaxBackoffTooSmall = ReadPolicyIssue.MaxBackoffTooSmall"
| "read_policy_issue PolicyIssue.InvalidBackoffMultiplier = ReadPolicyIssue.InvalidBackoffMultiplier"
| "read_policy_issue PolicyIssue.ZeroOperationTimeout = ReadPolicyIssue.ZeroOperationTimeout"
| "read_policy_issue PolicyIssue.ZeroAttemptTimeout = ReadPolicyIssue.ZeroAttemptTimeout"

definition validate :: "ReadOptions \<Rightarrow> (Error, unit) result" where
  "validate options =
     map_err (\<lambda>issue. invalid_read_policy (read_policy_issue issue))
       (validate_policies (ro_retry options) (ro_deadlines options))"

section \<open>Retryable statuses\<close>

definition is_retryable :: "status \<Rightarrow> bool" where
  "is_retryable status \<longleftrightarrow>
     st_code status \<in> {Cancelled, Code.DeadlineExceeded, Unavailable, Aborted}"

definition is_mutate_retryable :: "status \<Rightarrow> bool" where
  "is_mutate_retryable status \<longleftrightarrow> st_code status \<in> {Code.DeadlineExceeded, Unavailable}"

section \<open>Backoff\<close>

definition backoff_exponent :: "u32 \<Rightarrow> i32" where
  "backoff_exponent failed_attempt =
     (let e = uint (sat_dec failed_attempt) in if e \<le> i32_max then e else i32_max)"

definition capped_backoff :: "(f64 \<Rightarrow> i32 \<Rightarrow> f64) \<Rightarrow> RetryPolicy \<Rightarrow> u32 \<Rightarrow> duration option" where
  "capped_backoff powi64 policy failed_attempt =
     (let factor = powi64 (multiplier policy) (backoff_exponent failed_attempt);
          capped_seconds = min64 (mul64 (as_secs_f64 (initial_backoff policy)) factor)
                             (as_secs_f64 (max_backoff policy))
      in from_secs_f64 capped_seconds)"

text \<open>The delay before the next attempt; \<open>None\<close> is a panic of \<open>from_secs_f64\<close>.\<close>

definition backoff ::
    "(f64 \<Rightarrow> i32 \<Rightarrow> f64) \<Rightarrow> (nat \<Rightarrow> nat) \<Rightarrow> RetryPolicy \<Rightarrow> u32 \<Rightarrow> duration option" where
  "backoff powi64 rand policy failed_attempt =
     (case capped_backoff powi64 policy failed_attempt of
        None \<Rightarrow> None
      | Some capped \<Rightarrow>
          (case jitter policy of
             NoJitter \<Rightarrow> Some capped
           | Full \<Rightarrow> (let max_nanos = (if capped \<le> u64_max then capped else u64_max)
                     in Some (rand max_nanos))))"

section \<open>The delay a server asks for\<close>

record ProtoDuration =
  pd_seconds :: i64
  pd_nanos :: i32

record ProtoAny =
  any_type_url :: string
  any_value :: bytes

definition retry_info_type :: string where
  "retry_info_type = ''type.googleapis.com/google.rpc.RetryInfo''"

definition retry_delay ::
    "(bytes \<Rightarrow> ProtoAny list option) \<Rightarrow> (bytes \<Rightarrow> ProtoDuration option option)
     \<Rightarrow> status \<Rightarrow> duration option" where
  "retry_delay decode_status decode_retry_info status =
     (case decode_status (st_details status) of None \<Rightarrow> None
      | Some details \<Rightarrow>
     (case find (\<lambda>detail. any_type_url detail = retry_info_type) details of None \<Rightarrow> None
      | Some detail \<Rightarrow>
     (case decode_retry_info (any_value detail) of None \<Rightarrow> None
      | Some retry_info \<Rightarrow>
     (case retry_info of None \<Rightarrow> None
      | Some delay \<Rightarrow>
          if pd_seconds delay < 0 \<or> \<not> (0 \<le> pd_nanos delay \<and> pd_nanos delay < 1000000000)
          then None
          else Some (nat (pd_seconds delay) * nanos_per_sec + nat (pd_nanos delay))))))"

section \<open>Facts about policies and delays\<close>

lemma validate_policies_Ok:
  "validate_policies r d = Ok u \<longleftrightarrow> max_attempts r \<noteq> 0 \<and> 0 < initial_backoff r
     \<and> initial_backoff r \<le> max_backoff r \<and> is_finite (multiplier r) \<and> \<not> multiplier r < Fin 1
     \<and> 0 < operation_timeout d \<and> 0 < attempt_timeout d"
  by (auto simp: validate_policies_def)

lemma validate_Ok:
  "validate options = Ok u \<longleftrightarrow> validate_policies (ro_retry options) (ro_deadlines options) = Ok ()"
  by (auto simp: validate_def map_err_Inr_iff)

lemma finite_at_least_one: "is_finite m \<Longrightarrow> \<not> m < Fin 1 \<Longrightarrow> Fin 1 \<le> m"
  by (cases m) (auto simp: is_finite_def less_f64_def)

text \<open>What the model assumes of \<open>powi64\<close> and of the random number generator.\<close>

definition powi64_nonneg :: "(f64 \<Rightarrow> i32 \<Rightarrow> f64) \<Rightarrow> bool" where
  "powi64_nonneg powi64 \<longleftrightarrow> (\<forall>m e. Fin 1 \<le> m \<longrightarrow> 0 \<le> e \<longrightarrow> powi64 m e = NaN \<or> Fin 0 \<le> powi64 m e)"

definition rand_in_range :: "(nat \<Rightarrow> nat) \<Rightarrow> bool" where
  "rand_in_range rand \<longleftrightarrow> (\<forall>m. rand m \<le> m)"

lemma backoff_exponent_nonneg: "0 \<le> backoff_exponent n"
  by (simp add: backoff_exponent_def Let_def i32_max_def)

lemma from_secs_f64_Some: "0 \<le> s \<Longrightarrow> s < pow2 64 \<Longrightarrow> \<exists>d. from_secs_f64 (Fin s) = Some d"
  by (simp add: from_secs_f64_def)

lemma from_secs_f64_mono:
  "\<lbrakk>0 \<le> s; s \<le> t; from_secs_f64 (Fin t) = Some e\<rbrakk>
   \<Longrightarrow> \<exists>d. from_secs_f64 (Fin s) = Some d \<and> d \<le> e"
  using round_half_even_mono [of "s * of_nat nanos_per_sec" "t * of_nat nanos_per_sec"]
  by (auto simp: from_secs_f64_def nanos_per_sec_def split: if_splits intro: nat_mono)

text \<open>A product of non-negative values is non-negative, infinite, or NaN.\<close>

lemma round64_nonneg: "0 \<le> x \<Longrightarrow> round64 x = PosInf \<or> (\<exists>y. round64 x = Fin y \<and> 0 \<le> y)"
proof -
  assume "0 \<le> x"
  then have "0 \<le> x / pow2 (ulp_exponent x)" using pow2_pos by (simp add: less_imp_le)
  then have "0 \<le> round_half_even (x / pow2 (ulp_exponent x))" by (rule round_half_even_nonneg)
  then have "0 \<le> rat_of_int (round_half_even (x / pow2 (ulp_exponent x))) * pow2 (ulp_exponent x)"
    using pow2_pos by (simp add: less_imp_le)
  moreover have "- pow2 1024 < (0 :: rat)" using pow2_pos [of 1024] by simp
  ultimately show ?thesis by (auto simp: round64_def Let_def)
qed

lemma mul64_nonneg:
  assumes "0 \<le> a" and "b = NaN \<or> Fin 0 \<le> b"
  shows "mul64 (Fin a) b \<in> {NaN, PosInf} \<or> (\<exists>y. mul64 (Fin a) b = Fin y \<and> 0 \<le> y)"
proof (cases b)
  case (Fin c)
  then show ?thesis using assms round64_nonneg [of "a * c"] by auto
qed (use assms in auto)

lemma min64_below:
  assumes "p \<in> {NaN, PosInf} \<or> (\<exists>y. p = Fin y \<and> 0 \<le> y)" and "0 \<le> v"
  shows "\<exists>s. min64 p (Fin v) = Fin s \<and> 0 \<le> s \<and> s \<le> v"
  using assms by (auto simp: min64_def)

lemma capped_seconds_bound:
  assumes "validate_policies r d = Ok ()" and "powi64_nonneg powi64"
    and "max_backoff r div nanos_per_sec < 2 ^ 63" and "as_secs_f64 (max_backoff r) = Fin v"
  shows "\<exists>s. capped_backoff powi64 r n = from_secs_f64 (Fin s) \<and> 0 \<le> s \<and> s \<le> v"
proof -
  have "initial_backoff r \<le> max_backoff r" using assms(1) by (simp add: validate_policies_Ok)
  then have "initial_backoff r div nanos_per_sec \<le> max_backoff r div nanos_per_sec"
    by (rule div_le_mono)
  then obtain i where i: "as_secs_f64 (initial_backoff r) = Fin i" "0 \<le> i"
    using as_secs_f64_finite [of "initial_backoff r"] assms(3) by auto
  have "Fin 1 \<le> multiplier r"
    using assms(1) by (simp add: validate_policies_Ok finite_at_least_one)
  then have "powi64 (multiplier r) (backoff_exponent n) = NaN
      \<or> Fin 0 \<le> powi64 (multiplier r) (backoff_exponent n)"
    using assms(2) backoff_exponent_nonneg by (simp add: powi64_nonneg_def)
  moreover have "0 \<le> v" using as_secs_f64_finite [OF assms(3)] assms(4) by simp
  ultimately show ?thesis
    using min64_below [OF mul64_nonneg [OF i(2)], of "powi64 (multiplier r) (backoff_exponent n)" v]
    by (simp only: capped_backoff_def Let_def i(1) assms(4)) metis
qed

lemma backoff_le_capped:
  assumes "capped_backoff powi64 r n = Some c" and "rand_in_range rand"
  shows "\<exists>b. backoff powi64 rand r n = Some b \<and> b \<le> c"
proof -
  have "rand (if c \<le> u64_max then c else u64_max) \<le> (if c \<le> u64_max then c else u64_max)"
    using assms(2) by (simp only: rand_in_range_def)
  also have "\<dots> \<le> c" by simp
  finally show ?thesis
    using assms(1) by (cases "jitter r") (simp_all add: backoff_def Let_def)
qed

lemma backoff_returns:
  assumes "validate_policies policy deadlines = Ok ()"
    and "max_backoff policy < 2 ^ 63 * nanos_per_sec"
    and "powi64_nonneg powi64"
  shows "backoff powi64 rand policy failed_attempt \<noteq> None"
proof -
  have "max_backoff policy div nanos_per_sec < 2 ^ 63"
    using assms(2) by (simp add: less_mult_imp_div_less nanos_per_sec_def)
  moreover from this obtain v where v: "as_secs_f64 (max_backoff policy) = Fin v" "v < pow2 64"
    using as_secs_f64_finite by blast
  ultimately obtain s where s: "capped_backoff powi64 policy failed_attempt = from_secs_f64 (Fin s)"
      "0 \<le> s" "s \<le> v"
    using capped_seconds_bound [OF assms(1,3)] by auto
  then obtain c where "capped_backoff powi64 policy failed_attempt = Some c"
    using from_secs_f64_Some [of s] v(2) by auto
  then show ?thesis by (cases "jitter policy") (simp_all add: backoff_def Let_def)
qed

text \<open>A backoff is at most \<open>max\_backoff\<close>.\<close>

lemma backoff_within_max:
  assumes "validate_policies policy deadlines = Ok ()"
    and "max_backoff policy < 2 ^ 22 * nanos_per_sec"
    and "powi64_nonneg powi64" and "rand_in_range rand"
  shows "\<exists>d. backoff powi64 rand policy failed_attempt = Some d \<and> d \<le> max_backoff policy"
proof -
  have small: "max_backoff policy div nanos_per_sec < 2 ^ 22"
    using assms(2) by (simp add: less_mult_imp_div_less nanos_per_sec_def)
  then obtain v where v: "as_secs_f64 (max_backoff policy) = Fin v"
      "from_secs_f64 (Fin v) = Some (max_backoff policy)"
    using from_secs_as_secs by blast
  obtain s where s: "capped_backoff powi64 policy failed_attempt = from_secs_f64 (Fin s)"
      "0 \<le> s" "s \<le> v"
    using capped_seconds_bound [OF assms(1,3) _ v(1)] small by auto
  then obtain c where "capped_backoff powi64 policy failed_attempt = Some c"
      "c \<le> max_backoff policy"
    using from_secs_f64_mono [OF s(2,3) v(2)] by auto
  then show ?thesis using backoff_le_capped [OF _ assms(4)] le_trans by blast
qed

section \<open>Properties\<close>


definition sample_powi :: "f64 \<Rightarrow> i32 \<Rightarrow> f64" where
  "sample_powi m e = (case m of Fin a \<Rightarrow> if 0 \<le> a then Fin (a ^ nat e) else NaN | _ \<Rightarrow> NaN)"

lemma sample_powi_nonneg: "powi64_nonneg sample_powi"
  by (auto simp: powi64_nonneg_def sample_powi_def split: f64.split)


text \<open>
  Computing a backoff does not panic under a validated policy whose largest backoff is
  below \<open>2 ^ 63\<close> seconds, whatever the multiplier and the attempt.
\<close>

lemma backoff_does_not_panic:
  assumes "validate_policies policy deadlines = Ok ()"
    and "max_backoff policy < 2 ^ 63 * nanos_per_sec"
    and "powi64_nonneg powi64"
  shows "backoff powi64 rand policy failed_attempt \<noteq> None"
  using assms by (rule backoff_returns)

lemma backoff_does_not_panic_witness:
  "backoff sample_powi (\<lambda>m. m)
     (retry_policy_default\<lparr>max_backoff := secs 1000000000000\<rparr>) (- 1) \<noteq> None"
proof (rule backoff_does_not_panic)
  show "validate_policies (retry_policy_default\<lparr>max_backoff := secs 1000000000000\<rparr>)
      deadline_policy_default = Ok ()"
    by (simp add: validate_policies_def retry_policy_default_def deadline_policy_default_def
        millis_def secs_def is_finite_def less_f64_def)
  show "max_backoff (retry_policy_default\<lparr>max_backoff := secs 1000000000000\<rparr>)
      < 2 ^ 63 * nanos_per_sec"
    by (simp add: secs_def nanos_per_sec_def)
  show "powi64_nonneg sample_powi" by (rule sample_powi_nonneg)
qed

lemma exponent_unique: "pow2 k \<le> x \<Longrightarrow> x < pow2 (k + 1) \<Longrightarrow> exponent x = k"
proof -
  assume x: "pow2 k \<le> x" "x < pow2 (k + 1)"
  then have "0 < x" using pow2_pos [of k] by linarith
  then have "pow2 (exponent x) \<le> x" "x < pow2 (exponent x + 1)" by (simp_all add: exponent_bounds)
  then have "pow2 (exponent x) < pow2 (k + 1)" "pow2 k < pow2 (exponent x + 1)"
    using x by linarith+
  then show ?thesis by simp
qed

lemma round64_near_pow2_64:
  assumes "0 \<le> r" "r \<le> 1" shows "round64 (pow2 64 + r) = Fin (pow2 64)"
proof -
  have x: "0 < pow2 64 + r" using assms pow2_pos [of 64] by linarith
  have "exponent (pow2 64 + r) = 64"
    using assms by (intro exponent_unique) (simp_all add: pow2_def)
  then have "ulp_exponent (pow2 64 + r) = 12"
    using x by (simp add: ulp_exponent_def)
  moreover have "round_half_even ((pow2 64 + r) / pow2 12) = 2 ^ 52"
    by (rule round_half_even_unique) (use assms in \<open>simp add: pow2_def abs_if field_simps\<close>)
  ultimately show ?thesis using x by (simp add: round64_def Let_def pow2_def)
qed

definition max_policy :: RetryPolicy where
  "max_policy = \<lparr>max_attempts = 2, initial_backoff = duration_max, max_backoff = duration_max,
     multiplier = Fin 1, jitter = NoJitter\<rparr>"

lemma as_secs_duration_max: "as_secs_f64 duration_max = Fin (pow2 64)"
proof -
  have s: "round64 (of_nat (duration_max div nanos_per_sec)) = Fin (pow2 64)"
  proof -
    have d: "duration_max div nanos_per_sec = 2 ^ 64 - 1"
      by (simp add: duration_max_def nanos_per_sec_def u64_max_def)
    have "ulp_exponent (2 ^ 64 - 1) = 11"
      using exponent_unique [of 63 "2 ^ 64 - 1"] by (simp add: ulp_exponent_def pow2_def)
    moreover have "round_half_even ((2 ^ 64 - 1) / pow2 11) = 2 ^ 53"
      by (rule round_half_even_unique) (simp add: pow2_def)
    ultimately show ?thesis unfolding d by (simp add: round64_def Let_def pow2_def)
  qed
  obtain r where r: "div64_pos (round64 (of_nat (duration_max mod nanos_per_sec)))
      (of_nat nanos_per_sec) = Fin r" "0 \<le> r" "r \<le> 1"
    using round64_below [of "of_nat (duration_max mod nanos_per_sec) / of_nat nanos_per_sec" 0]
      round64_of_nat [of "duration_max mod nanos_per_sec"] frac_secs [of duration_max]
    by (auto simp: div64_pos_def pow2_def [of 0] duration_max_def nanos_per_sec_def)
  have "round64 (pow2 64 + r) = Fin (pow2 64)" using r(2,3) by (rule round64_near_pow2_64)
  then show ?thesis by (simp add: as_secs_f64_def s r(1))
qed

lemma round64_pow2_64: "round64 (pow2 64) = Fin (pow2 64)"
  using round64_near_pow2_64 [of 0] by simp

text \<open>
  C32. The bound of the previous property cannot be dropped: a policy that waits
  \<open>Duration::MAX\<close> between attempts passes validation, and its first backoff panics, since
  \<open>Duration::MAX\<close> rounds up to \<open>2 ^ 64\<close> seconds as an \<open>f64\<close>.
\<close>

theorem validated_policy_backoff_can_panic:
  assumes "powi64 (Fin 1) 0 = Fin 1"
  shows "validate_policies max_policy deadline_policy_default = Ok ()
    \<and> backoff powi64 rand max_policy 1 = None"
proof
  show "validate_policies max_policy deadline_policy_default = Ok ()"
    by (simp add: validate_policies_def max_policy_def deadline_policy_default_def secs_def
        is_finite_def less_f64_def duration_max_def nanos_per_sec_def)
  have "backoff_exponent 1 = 0" by (simp add: backoff_exponent_def sat_dec_def i32_max_def)
  moreover have "mul64 (Fin (pow2 64)) (Fin 1) = Fin (pow2 64)" by (simp add: round64_pow2_64)
  ultimately show "backoff powi64 rand max_policy 1 = None"
    using assms by (simp add: backoff_def capped_backoff_def max_policy_def as_secs_duration_max
        min64_def from_secs_f64_def)
qed

theorem validated_policy_backoff_can_panic_witness:
  "validate_policies max_policy deadline_policy_default = Ok ()
   \<and> backoff sample_powi (\<lambda>m. m) max_policy 1 = None"
  by (rule validated_policy_backoff_can_panic) (simp add: sample_powi_def)

end
