(* ===== verification/Telemetry.thy ===== *)
theory Telemetry
  imports Config Float64
begin

text \<open>
  \<open>telemetry.rs\<close>: the lifecycle events an observer receives, the trackers of operations and
  attempts, and the rule that each of them reports exactly one finish.

  The state these functions share with the rest of the client is a \<open>World\<close>: how often the
  clock has been read, the events emitted and the measurements recorded so far, and the context
  and the counters of the operation. The clock itself is a parameter \<open>clk\<close>: \<open>clk i\<close> is what the
  \<open>i\<close>-th call of \<open>Instant::now\<close> returns. Metrics are on, as they are by default; the instruments
  are given by the measurements recorded on them. Spans and log lines are output only and are
  not modelled; a panic of an observer is caught by \<open>emit\<close> and has no effect on the client.
\<close>

section \<open>Events\<close>

datatype BigtableOperation = ReadRows | MutateRows

fun operation_method :: "BigtableOperation \<Rightarrow> string" where
  "operation_method ReadRows = ''ReadRows''"
| "operation_method MutateRows = ''MutateRows''"

definition is_streaming :: "BigtableOperation \<Rightarrow> bool" where
  "is_streaming operation = (case operation of ReadRows \<Rightarrow> True | MutateRows \<Rightarrow> True)"

datatype DiagnosticEvent =
    OperationStarted BigtableOperation string nat
      \<comment> \<open>operation, table, entries\<close>
  | AttemptStarted BigtableOperation "nat option" u32 nat duration
      \<comment> \<open>operation, batch, attempt, entries, timeout\<close>
  | FirstResponse BigtableOperation "nat option" u32 duration
      \<comment> \<open>operation, batch, attempt, elapsed\<close>
  | RetryScheduled BigtableOperation "nat option" u32 Code duration nat
      \<comment> \<open>operation, batch, attempt, code, delay, pending entries\<close>
  | AttemptFinished BigtableOperation "nat option" u32 Code duration u64 nat nat
      \<comment> \<open>operation, batch, attempt, code, elapsed, rows, successful, failed\<close>
  | OperationFinished BigtableOperation Code duration u32 u32 u64 nat nat
      \<comment> \<open>operation, code, elapsed, attempts, retries, rows, successful, failed\<close>

record Summary =
  sum_rows :: u64
  sum_successful_entries :: nat
  sum_failed_entries :: nat

definition summary_default :: Summary where
  "summary_default = \<lparr>sum_rows = 0, sum_successful_entries = 0, sum_failed_entries = 0\<rparr>"

section \<open>Metrics\<close>

fun grpc_code_name :: "Code \<Rightarrow> string" where
  "grpc_code_name OkCode = ''OK''"
| "grpc_code_name Cancelled = ''CANCELLED''"
| "grpc_code_name Unknown = ''UNKNOWN''"
| "grpc_code_name InvalidArgument = ''INVALID_ARGUMENT''"
| "grpc_code_name Code.DeadlineExceeded = ''DEADLINE_EXCEEDED''"
| "grpc_code_name NotFound = ''NOT_FOUND''"
| "grpc_code_name AlreadyExists = ''ALREADY_EXISTS''"
| "grpc_code_name PermissionDenied = ''PERMISSION_DENIED''"
| "grpc_code_name ResourceExhausted = ''RESOURCE_EXHAUSTED''"
| "grpc_code_name FailedPrecondition = ''FAILED_PRECONDITION''"
| "grpc_code_name Aborted = ''ABORTED''"
| "grpc_code_name OutOfRange = ''OUT_OF_RANGE''"
| "grpc_code_name Unimplemented = ''UNIMPLEMENTED''"
| "grpc_code_name Internal = ''INTERNAL''"
| "grpc_code_name Unavailable = ''UNAVAILABLE''"
| "grpc_code_name DataLoss = ''DATA_LOSS''"
| "grpc_code_name Unauthenticated = ''UNAUTHENTICATED''"

record MetricContext =
  mc_project_id :: string
  mc_instance_id :: string
  mc_app_profile_id :: string
  mc_table_id :: string
  mc_operation :: BigtableOperation

datatype AttributeValue = TextValue string | BoolValue bool

type_synonym attributes = "(string \<times> AttributeValue) list"

definition client_name :: string where "client_name = ''bigtable-client-rs/0.0.1''"

definition metric_attributes :: "MetricContext \<Rightarrow> Code option \<Rightarrow> attributes" where
  "metric_attributes self code =
     [(''project_id'', TextValue (mc_project_id self)), (''instance'', TextValue (mc_instance_id self)),
      (''table'', TextValue (mc_table_id self)), (''app_profile'', TextValue (mc_app_profile_id self)),
      (''method'', TextValue (operation_method (mc_operation self))),
      (''streaming'', BoolValue (is_streaming (mc_operation self))),
      (''client_name'', TextValue client_name)]
     @ (case code of None \<Rightarrow> [] | Some code \<Rightarrow> [(''status'', TextValue (grpc_code_name code))])"

text \<open>One call of \<open>record\<close> or \<open>add\<close> on an instrument.\<close>

datatype Measurement =
    OperationLatency f64 attributes
  | AttemptLatency f64 attributes
  | RetryCount u64 attributes
  | FirstResponseLatency f64 attributes
  | ApplicationBlockingLatency f64 attributes

text \<open>The name and the unit of the instrument a measurement is recorded on.\<close>

fun instrument :: "Measurement \<Rightarrow> string \<times> string" where
  "instrument (OperationLatency _ _) = (''bigtable.googleapis.com/client/operation_latencies'', ''ms'')"
| "instrument (AttemptLatency _ _) = (''bigtable.googleapis.com/client/attempt_latencies'', ''ms'')"
| "instrument (RetryCount _ _) = (''bigtable.googleapis.com/client/retry_count'', ''1'')"
| "instrument (FirstResponseLatency _ _) =
     (''bigtable.googleapis.com/client/first_response_latencies'', ''ms'')"
| "instrument (ApplicationBlockingLatency _ _) =
     (''bigtable.googleapis.com/client/application_blocking_latencies'', ''ms'')"

definition as_millis_f64 :: "duration \<Rightarrow> f64" where
  "as_millis_f64 d = mul64 (as_secs_f64 d) (Fin 1000)"

definition metrics_operation_finished ::
    "MetricContext \<Rightarrow> Code \<Rightarrow> duration \<Rightarrow> u32 \<Rightarrow> Measurement list" where
  "metrics_operation_finished context code el retries =
     (let attrs = metric_attributes context (Some code)
      in OperationLatency (as_millis_f64 el) attrs
         # (if retries > 0 then [RetryCount (ucast retries) attrs] else []))"

definition metrics_attempt_finished ::
    "MetricContext \<Rightarrow> Code \<Rightarrow> duration \<Rightarrow> duration option \<Rightarrow> Measurement list" where
  "metrics_attempt_finished context code el first_response =
     (let attrs = metric_attributes context (Some code)
      in AttemptLatency (as_millis_f64 el) attrs
         # (case first_response of None \<Rightarrow> []
            | Some first_response \<Rightarrow> [FirstResponseLatency (as_millis_f64 first_response) attrs]))"

definition metrics_application_blocked :: "MetricContext \<Rightarrow> duration \<Rightarrow> Measurement list" where
  "metrics_application_blocked context el =
     [ApplicationBlockingLatency (as_millis_f64 el) (metric_attributes context None)]"

section \<open>The world\<close>

record World =
  w_ticks :: nat
  w_observer :: bool
  w_events :: "DiagnosticEvent list"
  w_measurements :: "Measurement list"
  w_context :: MetricContext
  w_attempts :: u32
  w_retries :: u32

abbreviation w_operation :: "World \<Rightarrow> BigtableOperation" where
  "w_operation w \<equiv> mc_operation (w_context w)"

definition now_instant :: "(nat \<Rightarrow> instant) \<Rightarrow> World \<Rightarrow> instant \<times> World" where
  "now_instant clk w = (clk (w_ticks w), w\<lparr>w_ticks := w_ticks w + 1\<rparr>)"

text \<open>\<open>Instant::elapsed\<close> saturates at zero.\<close>

definition elapsed :: "(nat \<Rightarrow> instant) \<Rightarrow> instant \<Rightarrow> World \<Rightarrow> duration \<times> World" where
  "elapsed clk started w = (let (t, w) = now_instant clk w in (t - started, w))"

definition emit :: "DiagnosticEvent \<Rightarrow> World \<Rightarrow> World" where
  "emit event w = (if w_observer w then w\<lparr>w_events := w_events w @ [event]\<rparr> else w)"

definition record_measurements :: "Measurement list \<Rightarrow> World \<Rightarrow> World" where
  "record_measurements ms w = w\<lparr>w_measurements := w_measurements w @ ms\<rparr>"

section \<open>Operation trackers\<close>

record OperationTracker =
  ot_started :: instant
  ot_finished :: bool

definition telemetry_operation ::
    "(nat \<Rightarrow> instant) \<Rightarrow> ClientConfig \<Rightarrow> BigtableOperation \<Rightarrow> string \<Rightarrow> nat \<Rightarrow> World
     \<Rightarrow> OperationTracker \<times> World" where
  "telemetry_operation clk config operation table_id entries w =
     (let w = w\<lparr>w_context := \<lparr>mc_project_id = project_id config, mc_instance_id = instance_id config,
              mc_app_profile_id = app_profile_id config, mc_table_id = table_id,
              mc_operation = operation\<rparr>, w_attempts := 0, w_retries := 0\<rparr>;
          w = emit (OperationStarted operation table_id entries) w;
          (t, w) = now_instant clk w
      in (\<lparr>ot_started = t, ot_finished = False\<rparr>, w))"

definition operation_record_finish ::
    "(nat \<Rightarrow> instant) \<Rightarrow> OperationTracker \<Rightarrow> Code \<Rightarrow> Summary \<Rightarrow> World \<Rightarrow> World" where
  "operation_record_finish clk self code summary w =
     (let (el, w) = elapsed clk (ot_started self) w;
          w = record_measurements (metrics_operation_finished (w_context w) code el (w_retries w)) w
      in emit (OperationFinished (w_operation w) code el (w_attempts w) (w_retries w)
                 (sum_rows summary) (sum_successful_entries summary)
                 (sum_failed_entries summary)) w)"

definition operation_finish ::
    "(nat \<Rightarrow> instant) \<Rightarrow> Code \<Rightarrow> Summary \<Rightarrow> OperationTracker \<times> World \<Rightarrow> OperationTracker \<times> World" where
  "operation_finish clk code summary = (\<lambda>(self, w).
     if ot_finished self then (self, w)
     else (self\<lparr>ot_finished := True\<rparr>, operation_record_finish clk self code summary w))"

definition operation_drop :: "(nat \<Rightarrow> instant) \<Rightarrow> OperationTracker \<times> World \<Rightarrow> World" where
  "operation_drop clk = (\<lambda>(self, w).
     if ot_finished self then w
     else operation_record_finish clk self Cancelled summary_default w)"

section \<open>Attempt trackers\<close>

record AttemptTracker =
  at_batch :: "nat option"
  at_attempt :: u32
  at_started :: instant
  at_first_response :: "duration option"
  at_finished :: bool

text \<open>\<open>fetch\_add\<close> on an \<open>AtomicU32\<close> wraps around, as \<open>+\<close> on words does.\<close>

definition handle_attempt ::
    "(nat \<Rightarrow> instant) \<Rightarrow> nat option \<Rightarrow> u32 \<Rightarrow> nat \<Rightarrow> duration \<Rightarrow> World \<Rightarrow> AttemptTracker \<times> World" where
  "handle_attempt clk batch attempt entries timeout w =
     (let w = w\<lparr>w_attempts := w_attempts w + 1\<rparr>;
          w = emit (AttemptStarted (w_operation w) batch attempt entries timeout) w;
          (t, w) = now_instant clk w
      in (\<lparr>at_batch = batch, at_attempt = attempt, at_started = t, at_first_response = None,
           at_finished = False\<rparr>, w))"

definition handle_retry ::
    "nat option \<Rightarrow> u32 \<Rightarrow> Code \<Rightarrow> duration \<Rightarrow> nat \<Rightarrow> World \<Rightarrow> World" where
  "handle_retry batch attempt code delay pending_entries w =
     (let w = w\<lparr>w_retries := w_retries w + 1\<rparr>
      in emit (RetryScheduled (w_operation w) batch attempt code delay pending_entries) w)"

definition application_blocked :: "duration \<Rightarrow> World \<Rightarrow> World" where
  "application_blocked el w = record_measurements (metrics_application_blocked (w_context w) el) w"

definition first_response ::
    "(nat \<Rightarrow> instant) \<Rightarrow> AttemptTracker \<times> World \<Rightarrow> AttemptTracker \<times> World" where
  "first_response clk = (\<lambda>(self, w).
     if at_first_response self \<noteq> None then (self, w)
     else let (el, w) = elapsed clk (at_started self) w
          in (self\<lparr>at_first_response := Some el\<rparr>,
              emit (FirstResponse (w_operation w) (at_batch self) (at_attempt self) el) w))"

definition attempt_record_finish ::
    "(nat \<Rightarrow> instant) \<Rightarrow> AttemptTracker \<Rightarrow> Code \<Rightarrow> Summary \<Rightarrow> World \<Rightarrow> World" where
  "attempt_record_finish clk self code summary w =
     (let (el, w) = elapsed clk (at_started self) w;
          w = record_measurements (metrics_attempt_finished (w_context w) code el (at_first_response self)) w
      in emit (AttemptFinished (w_operation w) (at_batch self) (at_attempt self) code el
                 (sum_rows summary) (sum_successful_entries summary)
                 (sum_failed_entries summary)) w)"

definition attempt_finish ::
    "(nat \<Rightarrow> instant) \<Rightarrow> Code \<Rightarrow> Summary \<Rightarrow> AttemptTracker \<times> World \<Rightarrow> AttemptTracker \<times> World" where
  "attempt_finish clk code summary = (\<lambda>(self, w).
     if at_finished self then (self, w)
     else (self\<lparr>at_finished := True\<rparr>, attempt_record_finish clk self code summary w))"

definition attempt_drop :: "(nat \<Rightarrow> instant) \<Rightarrow> AttemptTracker \<times> World \<Rightarrow> World" where
  "attempt_drop clk = (\<lambda>(self, w).
     if at_finished self then w
     else attempt_record_finish clk self Cancelled summary_default w)"

section \<open>Finish events\<close>

fun is_operation_finish :: "DiagnosticEvent \<Rightarrow> bool" where
  "is_operation_finish (OperationFinished _ _ _ _ _ _ _ _) = True"
| "is_operation_finish _ = False"

fun is_attempt_finish :: "DiagnosticEvent \<Rightarrow> bool" where
  "is_attempt_finish (AttemptFinished _ _ _ _ _ _ _ _) = True"
| "is_attempt_finish _ = False"

text \<open>What a piece of code adds to the log, and how the counters move.\<close>

definition appends :: "World \<Rightarrow> World \<Rightarrow> DiagnosticEvent list \<Rightarrow> bool" where
  "appends w w' es \<longleftrightarrow> w_events w' = w_events w @ (if w_observer w then es else [])
     \<and> w_observer w' = w_observer w \<and> w_context w' = w_context w"

definition gains :: "World \<Rightarrow> World \<Rightarrow> Measurement list \<Rightarrow> bool" where
  "gains w w' ms \<longleftrightarrow> w_measurements w' = w_measurements w @ ms"

lemma gains_trans: "gains w v ms \<Longrightarrow> gains v u ns \<Longrightarrow> gains w u (ms @ ns)"
  by (auto simp: gains_def)

lemma appends_refl: "appends w w []"
  by (simp add: appends_def)

lemma appends_trans: "appends w v es \<Longrightarrow> appends v u fs \<Longrightarrow> appends w u (es @ fs)"
  by (auto simp: appends_def)

lemma appends_emit: "appends w (emit e w) [e]"
  by (simp add: appends_def emit_def)

lemma appends_measurements: "appends w (record_measurements ms w) []"
  by (simp add: appends_def record_measurements_def)

lemma emit_fields [simp]:
  "w_ticks (emit e w) = w_ticks w" "w_observer (emit e w) = w_observer w"
  "w_context (emit e w) = w_context w" "w_attempts (emit e w) = w_attempts w"
  "w_retries (emit e w) = w_retries w" "w_measurements (emit e w) = w_measurements w"
  by (simp_all add: emit_def)

lemma now_instant_fst: "fst (now_instant clk w) = clk (w_ticks w)"
  by (simp add: now_instant_def)

lemma appends_now: "now_instant clk w = (t, w') \<Longrightarrow> appends w w' []"
  by (auto simp: now_instant_def appends_def)

lemma appends_operation_record_finish:
  "\<exists>e. is_operation_finish e \<and> appends w (operation_record_finish clk t code s w) [e]"
proof -
  obtain el w1 where el: "elapsed clk (ot_started t) w = (el, w1)" by fastforce
  then have "appends w w1 []" by (auto simp: elapsed_def now_instant_def appends_def)
  from appends_trans [OF appends_trans [OF this appends_measurements] appends_emit]
  have "appends w (emit e (record_measurements ms w1)) [e]" for e ms by simp
  then show ?thesis by (simp add: operation_record_finish_def el Let_def)
    (metis is_operation_finish.simps(1))
qed

lemma appends_attempt_record_finish:
  "\<exists>e. is_attempt_finish e \<and> appends w (attempt_record_finish clk t code s w) [e]"
proof -
  obtain el w1 where el: "elapsed clk (at_started t) w = (el, w1)" by fastforce
  then have "appends w w1 []" by (auto simp: elapsed_def now_instant_def appends_def)
  from appends_trans [OF appends_trans [OF this appends_measurements] appends_emit]
  have "appends w (emit e (record_measurements ms w1)) [e]" for e ms by simp
  then show ?thesis by (simp add: attempt_record_finish_def el Let_def)
    (metis is_attempt_finish.simps(1))
qed

fun is_operation_latency :: "Measurement \<Rightarrow> bool" where
  "is_operation_latency (OperationLatency _ _) = True"
| "is_operation_latency _ = False"

fun is_attempt_latency :: "Measurement \<Rightarrow> bool" where
  "is_attempt_latency (AttemptLatency _ _) = True"
| "is_attempt_latency _ = False"

lemma gains_operation_record_finish:
  "\<exists>ms. gains w (operation_record_finish clk t code s w) ms
     \<and> length (filter is_operation_latency ms) = 1"
  by (auto simp: operation_record_finish_def elapsed_def now_instant_def gains_def Let_def
      record_measurements_def metrics_operation_finished_def)

lemma gains_attempt_record_finish:
  "\<exists>ms. gains w (attempt_record_finish clk t code s w) ms
     \<and> length (filter is_attempt_latency ms) = 1"
  by (auto simp: attempt_record_finish_def elapsed_def now_instant_def gains_def Let_def
      record_measurements_def metrics_attempt_finished_def split: option.split)

section \<open>Properties\<close>

text \<open>What client code can do with a tracker before it goes out of scope.\<close>

datatype AttemptCall = CallFirstResponse | CallFinish Code Summary

fun attempt_call :: "(nat \<Rightarrow> instant) \<Rightarrow> AttemptCall \<Rightarrow> AttemptTracker \<times> World \<Rightarrow> AttemptTracker \<times> World"
  where
  "attempt_call clk CallFirstResponse tw = first_response clk tw"
| "attempt_call clk (CallFinish code s) tw = attempt_finish clk code s tw"

definition attempt_life :: "(nat \<Rightarrow> instant) \<Rightarrow> AttemptCall list \<Rightarrow> AttemptTracker \<times> World \<Rightarrow> World" where
  "attempt_life clk calls tw = attempt_drop clk (fold (attempt_call clk) calls tw)"

definition operation_life ::
    "(nat \<Rightarrow> instant) \<Rightarrow> (Code \<times> Summary) list \<Rightarrow> OperationTracker \<times> World \<Rightarrow> World" where
  "operation_life clk calls tw =
     operation_drop clk (fold (\<lambda>(code, s). operation_finish clk code s) calls tw)"

text \<open>
  The contract of a tracker: what it still owes of some kind of report, \<open>owes\<close>, goes down with
  every report of that kind that a call makes, and the drop makes the rest. \<open>R\<close> is equality
  for what must be reported and the order for what may be; \<open>logs\<close> says what a step adds to
  the log in question, the events or the measurements.
\<close>

locale finishing_tracker =
  fixes R :: "nat \<Rightarrow> nat \<Rightarrow> bool"
    and logs :: "'w \<Rightarrow> 'w \<Rightarrow> 'e list \<Rightarrow> bool"
    and kind :: "'e \<Rightarrow> bool"
    and owes :: "'t \<Rightarrow> nat"
    and step :: "'c \<Rightarrow> 't \<times> 'w \<Rightarrow> 't \<times> 'w"
    and close :: "'t \<times> 'w \<Rightarrow> 'w"
  assumes R_add: "R a b \<Longrightarrow> R (k + a) (k + b)"
    and R_trans: "R a b \<Longrightarrow> R b d \<Longrightarrow> R a d"
    and logs_trans: "logs w v es \<Longrightarrow> logs v u fs \<Longrightarrow> logs w u (es @ fs)"
    and step_reports: "step c (t, w) = (t', w')
      \<Longrightarrow> \<exists>es. logs w w' es \<and> R (length (filter kind es) + owes t') (owes t)"
    and close_reports: "\<exists>es. logs w (close (t, w)) es \<and> R (length (filter kind es)) (owes t)"
begin

lemma life_reports:
  "\<exists>es. logs w (close (fold step calls (t, w))) es \<and> R (length (filter kind es)) (owes t)"
proof (induction calls arbitrary: t w)
  case Nil
  then show ?case using close_reports by simp
next
  case (Cons c calls)
  obtain t' w' where c: "step c (t, w) = (t', w')" by fastforce
  obtain es where es: "logs w w' es" "R (length (filter kind es) + owes t') (owes t)"
    using step_reports [OF c] by blast
  obtain fs where fs: "logs w' (close (fold step calls (t', w'))) fs"
    "R (length (filter kind fs)) (owes t')" using Cons.IH by blast
  have "R (length (filter kind (es @ fs))) (owes t)"
    using R_trans [OF R_add [OF fs(2)] es(2)] by simp
  then show ?case using logs_trans [OF es(1) fs(1)] c by auto
qed

end

interpretation operation_finishes: finishing_tracker "(=)" appends is_operation_finish
    "\<lambda>t. if ot_finished t then 0 else 1" "\<lambda>(code, s). operation_finish clk code s" "operation_drop clk"
    for clk
proof (unfold_locales, goal_cases)
  case (4 c t w t' w')
  then show ?case
    using appends_operation_record_finish [of w clk t "fst c" "snd c"] appends_refl [of w]
    by (cases c) (auto simp: operation_finish_def split: if_splits intro: exI [of _ "[]"])
next
  case (5 w t)
  then show ?case
    using appends_operation_record_finish [of w clk t Cancelled summary_default] appends_refl [of w]
    by (auto simp: operation_drop_def intro: exI [of _ "[]"])
qed (simp_all add: appends_trans)

interpretation operation_latencies: finishing_tracker "(=)" gains is_operation_latency
    "\<lambda>t. if ot_finished t then 0 else 1" "\<lambda>(code, s). operation_finish clk code s" "operation_drop clk"
    for clk
proof (unfold_locales, goal_cases)
  case (4 c t w t' w')
  then show ?case
    using gains_operation_record_finish [of w clk t "fst c" "snd c"]
    by (cases c) (auto simp: operation_finish_def gains_def split: if_splits)
next
  case (5 w t)
  then show ?case
    using gains_operation_record_finish [of w clk t Cancelled summary_default]
    by (auto simp: operation_drop_def gains_def)
qed (simp_all add: gains_trans)

lemma attempt_call_reports:
  assumes "attempt_call clk c (t, w) = (t', w')"
  shows "\<exists>es. appends w w' es
    \<and> length (filter is_attempt_finish es) + (if at_finished t' then 0 else 1)
        = (if at_finished t then 0 else 1 :: nat)
    \<and> length (filter (\<lambda>e. \<not> is_attempt_finish e) es) + (if at_first_response t' = None then 1 else 0)
        \<le> (if at_first_response t = None then 1 else 0 :: nat)"
proof (cases c)
  case CallFirstResponse
  then show ?thesis
    using assms by (cases "at_first_response t")
      (auto simp: first_response_def elapsed_def now_instant_def appends_def emit_def
        intro: exI [of _ "[]"] exI [of _ "[FirstResponse op b a d]" for op b a d])
next
  case (CallFinish code s)
  then show ?thesis
    using assms appends_attempt_record_finish [of w clk t code s] appends_refl [of w]
    by (cases "at_finished t") (auto simp: attempt_finish_def intro: exI [of _ "[]"])
qed

lemma attempt_drop_reports:
  "\<exists>es. appends w (attempt_drop clk (t, w)) es
     \<and> length (filter is_attempt_finish es) = (if at_finished t then 0 else 1)
     \<and> length (filter (\<lambda>e. \<not> is_attempt_finish e) es) \<le> (if at_first_response t = None then 1 else 0)"
  using appends_attempt_record_finish [of w clk t Cancelled summary_default] appends_refl [of w]
  by (auto simp: attempt_drop_def intro: exI [of _ "[]"])

interpretation attempt_finishes: finishing_tracker "(=)" appends is_attempt_finish
    "\<lambda>t. if at_finished t then 0 else 1" "attempt_call clk" "attempt_drop clk" for clk
proof (unfold_locales, goal_cases)
  case (4 c t w t' w')
  then show ?case using attempt_call_reports by blast
next
  case (5 w t)
  then show ?case using attempt_drop_reports by blast
qed (simp_all add: appends_trans)

interpretation attempt_responses: finishing_tracker "(\<le>)" appends "\<lambda>e. \<not> is_attempt_finish e"
    "\<lambda>t. if at_first_response t = None then 1 else 0" "attempt_call clk" "attempt_drop clk" for clk
proof (unfold_locales, goal_cases)
  case (4 c t w t' w')
  then show ?case using attempt_call_reports by blast
next
  case (5 w t)
  then show ?case using attempt_drop_reports by blast
qed (simp_all add: appends_trans)

interpretation attempt_latencies: finishing_tracker "(=)" gains is_attempt_latency
    "\<lambda>t. if at_finished t then 0 else 1" "attempt_call clk" "attempt_drop clk" for clk
proof (unfold_locales, goal_cases)
  case (4 c t w t' w')
  then show ?case
  proof (cases c)
    case CallFirstResponse
    with 4 show ?thesis
      by (auto simp: first_response_def elapsed_def now_instant_def emit_def gains_def split: if_splits)
  next
    case (CallFinish code s)
    with 4 show ?thesis using gains_attempt_record_finish [of w clk t code s]
      by (auto simp: attempt_finish_def gains_def split: if_splits)
  qed
next
  case (5 w t)
  then show ?case using gains_attempt_record_finish [of w clk t Cancelled summary_default]
    by (auto simp: attempt_drop_def gains_def)
qed (simp_all add: gains_trans)

text \<open>
  With an observer, every attempt that is started reports exactly one finish, with exactly
  one attempt latency on the meter, and at most one first response, however often the code calls
  \<open>finish\<close> and \<open>first_response\<close> before the tracker is dropped, or if it is dropped without
  either.
\<close>

theorem attempt_reports_one_finish:
  "let (t, w1) = handle_attempt clk batch attempt entries timeout (w\<lparr>w_observer := True\<rparr>);
       w2 = attempt_life clk calls (t, w1);
       es = drop (length (w_events w1)) (w_events w2);
       ms = drop (length (w_measurements w1)) (w_measurements w2)
   in length (filter is_attempt_finish es) = 1
      \<and> length (filter (\<lambda>e. \<not> is_attempt_finish e) es) \<le> 1
      \<and> length (filter is_attempt_latency ms) = 1"
proof -
  obtain t w1 where s: "handle_attempt clk batch attempt entries timeout (w\<lparr>w_observer := True\<rparr>) = (t, w1)"
    by fastforce
  then have "\<not> at_finished t" "at_first_response t = None" "w_observer w1"
    by (auto simp: handle_attempt_def Let_def now_instant_def)
  then show ?thesis
    using attempt_finishes.life_reports [of w1 clk calls t]
      attempt_responses.life_reports [of w1 clk calls t] attempt_latencies.life_reports [of w1 clk calls t]
    by (auto simp: s attempt_life_def appends_def gains_def)
qed

text \<open>
  With an observer, every operation that is started reports exactly one finish and records
  exactly one operation latency: the first call of \<open>finish\<close> counts, later ones and the drop are
  silent, and an operation dropped without one reports itself as cancelled.
\<close>

lemma operation_reports_one_finish:
  "let (t, w1) = telemetry_operation clk config operation table entries (w\<lparr>w_observer := True\<rparr>);
       w2 = operation_life clk calls (t, w1);
       es = drop (length (w_events w1)) (w_events w2);
       ms = drop (length (w_measurements w1)) (w_measurements w2)
   in length (filter is_operation_finish es) = 1 \<and> length (filter is_operation_latency ms) = 1"
proof -
  obtain t w1 where s: "telemetry_operation clk config operation table entries (w\<lparr>w_observer := True\<rparr>) = (t, w1)"
    by fastforce
  then have "\<not> ot_finished t" "w_observer w1"
    by (auto simp: telemetry_operation_def Let_def now_instant_def)
  then show ?thesis
    using operation_finishes.life_reports [of w1 clk calls t] operation_latencies.life_reports [of w1 clk calls t]
    by (auto simp: s operation_life_def appends_def gains_def)
qed



end
