(* ===== verification/Environment.thy ===== *)
theory Environment
  imports Retry Telemetry
begin

text \<open>
  What the client uses of other crates and of the machine, as one record that the reads and
  the bulk writes take: the clock and its range, the random numbers drawn (one generator per
  point in time), \<open>f64::powi\<close>, the codecs of the generated messages, and the parser of gRPC
  metadata values.
\<close>

record ProtoStatus =
  rpc_code :: i32
  rpc_message :: string
  rpc_details :: "ProtoAny list"

record Env =
  x_clock :: "nat \<Rightarrow> instant"
  x_instant_max :: instant
  x_rand :: "nat \<Rightarrow> nat \<Rightarrow> nat"
  x_powi :: "f64 \<Rightarrow> i32 \<Rightarrow> f64"
  x_decode_status :: "bytes \<Rightarrow> ProtoAny list option"
  x_decode_retry_info :: "bytes \<Rightarrow> ProtoDuration option option"
  x_encode_status :: "ProtoStatus \<Rightarrow> bytes"
  x_code_from_i32 :: "i32 \<Rightarrow> Code"
  x_parse_metadata :: "string \<Rightarrow> (string, string) result"

definition env_retry_delay :: "Env \<Rightarrow> status \<Rightarrow> duration option" where
  "env_retry_delay x status = retry_delay (x_decode_status x) (x_decode_retry_info x) status"

text \<open>\<open>Instant::checked\_add\<close>.\<close>

definition checked_add :: "Env \<Rightarrow> instant \<Rightarrow> duration \<Rightarrow> instant option" where
  "checked_add x t d = (if t + d \<le> x_instant_max x then Some (t + d) else None)"

text \<open>A concrete environment and the state an operation starts in.\<close>

definition sample_env :: Env where
  "sample_env = \<lparr>x_clock = (\<lambda>_. 0), x_instant_max = secs 1000000, x_rand = (\<lambda>_ _. 0),
     x_powi = sample_powi, x_decode_status = (\<lambda>_. None), x_decode_retry_info = (\<lambda>_. None),
     x_encode_status = (\<lambda>_. []), x_code_from_i32 = (\<lambda>_. Unavailable), x_parse_metadata = Ok\<rparr>"

definition sample_world :: World where
  "sample_world = \<lparr>w_ticks = 0, w_observer = True, w_events = [], w_measurements = [],
     w_context = \<lparr>mc_project_id = [], mc_instance_id = [], mc_app_profile_id = [], mc_table_id = [],
       mc_operation = MutateRows\<rparr>,
     w_attempts = 0, w_retries = 0\<rparr>"

end
