(* ===== verification/Read.thy ===== *)
theory Read
  imports Resume Environment Merge
begin

text \<open>
  \<open>read.rs\<close>: the read operation, from the validated query to the rows handed to the
  application, with its attempts, pauses and resumptions.

  The other side is a parameter, \<open>ReadSide\<close>: what the service answers to the request of an
  attempt, and when the application drops its \<open>RowStream\<close>. A \<open>select!\<close> between the
  application's side and the service takes one of them; which one it took is part of that
  parameter. Rows and the terminal error go into the channel in the order of \<open>out\<close>. A result
  \<open>None\<close> is a panic, which only the computation of a backoff can cause.
\<close>

section \<open>The service and the application\<close>

record ReadRowsResponse =
  rsp_chunks :: "CellChunk list"
  rsp_last_scanned_row_key :: bytes

text \<open>What a turn of the loop of \<open>run\<close> can see; after the last item the stream ends.\<close>

datatype ReadItem =
    Message ReadRowsResponse | ReadError status | ReadTimeout | ReceiverClosed

datatype ReadReply = Streaming "ReadItem list" | Rejected status | NoReply

text \<open>A request as it is sent, with its metadata.\<close>

record SentRead =
  sr_message :: ReadRowsRequest
  sr_routing :: string
  sr_timeout :: duration

text \<open>
  The answer to each attempt, whether the application closes the stream while an attempt is
  being opened or a backoff is slept, and whether it still takes the \<open>n\<close>-th row.
\<close>

record ReadSide =
  rd_read_rows :: "u32 \<Rightarrow> SentRead \<Rightarrow> ReadReply"
  rd_closed_opening :: "u32 \<Rightarrow> bool"
  rd_closed_sleeping :: "u32 \<Rightarrow> bool"
  rd_takes :: "nat \<Rightarrow> bool"

section \<open>State\<close>

record ReadOperation =
  ro_original :: ReadRowsRequest
  ro_routing :: string
  ro_options :: ReadOptions
  ro_deadline :: instant
  ro_attempts :: u32
  ro_rows_returned :: i64
  ro_progress :: "bytes option"
  ro_merger :: RowMerger
  ro_telemetry :: OperationTracker

record ActiveAttempt =
  aa_stream :: "ReadItem list"
  aa_deadline :: instant
  aa_rows :: u64
  aa_telemetry :: AttemptTracker

datatype OpenResult = Active ActiveAttempt | Complete | OpenCancelled

definition read_operation_new ::
    "ReadRowsRequest \<Rightarrow> string \<Rightarrow> ReadOptions \<Rightarrow> instant \<Rightarrow> OperationTracker \<Rightarrow> ReadOperation" where
  "read_operation_new original routing options deadline telemetry =
     (let reversed = rr_reversed original
      in \<lparr>ro_original = original, ro_routing = routing, ro_options = options,
          ro_deadline = deadline, ro_attempts = 0, ro_rows_returned = 0, ro_progress = None,
          ro_merger = merger_new reversed, ro_telemetry = telemetry\<rparr>)"

text \<open>\<open>u64::try_from\<close> of an \<open>i64\<close> with \<open>unwrap_or(u64::MAX)\<close>, and \<open>u64::saturating_add\<close>.\<close>

definition u64_of_i64 :: "i64 \<Rightarrow> u64" where
  "u64_of_i64 i = (if 0 \<le> i then of_int i else - 1)"

definition sat_add64 :: "u64 \<Rightarrow> u64 \<Rightarrow> u64" where
  "sat_add64 a b = (if unat a + unat b \<le> u64_max then a + b else - 1)"

definition active_finish ::
    "Env \<Rightarrow> Code \<Rightarrow> ActiveAttempt \<Rightarrow> World \<Rightarrow> ActiveAttempt \<times> World" where
  "active_finish x code self w =
     (let (t, w) = attempt_finish (x_clock x) code (summary_default\<lparr>sum_rows := aa_rows self\<rparr>)
            (aa_telemetry self, w)
      in (self\<lparr>aa_telemetry := t\<rparr>, w))"

definition read_finish :: "Env \<Rightarrow> Code \<Rightarrow> ReadOperation \<Rightarrow> World \<Rightarrow> ReadOperation \<times> World" where
  "read_finish x code self w =
     (let (t, w) = operation_finish (x_clock x) code
            (summary_default\<lparr>sum_rows := u64_of_i64 (ro_rows_returned self)\<rparr>) (ro_telemetry self, w)
      in (self\<lparr>ro_telemetry := t\<rparr>, w))"

definition limit_reached :: "ReadOperation \<Rightarrow> bool" where
  "limit_reached self \<longleftrightarrow> rr_rows_limit (ro_original self) > 0
     \<and> ro_rows_returned self \<ge> rr_rows_limit (ro_original self)"

definition deadline_error :: "ReadOperation \<Rightarrow> Error" where
  "deadline_error self = ReadDeadlineExceeded (ro_attempts self)
     (operation_timeout (ro_deadlines (ro_options self)))"

definition remaining ::
    "Env \<Rightarrow> ReadOperation \<Rightarrow> World \<Rightarrow> (Error, duration) result \<times> ReadOperation \<times> World" where
  "remaining x self w =
     (let (t, w) = now_instant (x_clock x) w
      in if t < ro_deadline self then (Ok (ro_deadline self - t), self, w)
         else let (self, w) = read_finish x Code.DeadlineExceeded self w
              in (Err (deadline_error self), self, w))"

section \<open>Opening an attempt\<close>

definition attempt_timeout_error :: status where
  "attempt_timeout_error = \<lparr>st_code = Code.DeadlineExceeded,
     st_message = ''ReadRows attempt deadline exceeded'', st_details = []\<rparr>"

text \<open>
  The treatment of the failure of the last attempt in \<open>open\<close>: what the function returns, or
  \<open>None\<close> when it goes on to the next attempt. \<open>sender\<close> tells whether \<open>open\<close> has one.
\<close>

definition open_pause ::
    "Env \<Rightarrow> ReadSide \<Rightarrow> bool \<Rightarrow> status \<Rightarrow> ReadOperation \<Rightarrow> World
     \<Rightarrow> ((Error, OpenResult) result option \<times> ReadOperation \<times> World) option" where
  "open_pause x rd sender status self w =
     (let policy = ro_retry (ro_options self)
      in if \<not> is_retryable status \<or> ro_attempts self \<ge> max_attempts policy then
           (let (self, w) = read_finish x (st_code status) self w
            in Some (Some (Err (Error.ReadRows (ro_attempts self) status)), self, w))
         else
           (case backoff (x_powi x) (x_rand x (w_ticks w)) policy (ro_attempts self) of
              None \<Rightarrow> None
            | Some b \<Rightarrow>
                (let delay = max b (case env_retry_delay x status of None \<Rightarrow> 0 | Some d \<Rightarrow> d)
                 in case remaining x self w of
                      (Inl error, self, w) \<Rightarrow> Some (Some (Err error), self, w)
                    | (Inr left, self, w) \<Rightarrow>
                        if delay \<ge> left then
                          (let (self, w) = read_finish x Code.DeadlineExceeded self w
                           in Some (Some (Err (deadline_error self)), self, w))
                        else
                          (let w = handle_retry None (ro_attempts self) (st_code status) delay 0 w
                           in if sender \<and> rd_closed_sleeping rd (ro_attempts self) then
                                (let (self, w) = read_finish x Cancelled self w
                                 in Some (Some (Ok OpenCancelled), self, w))
                              else Some (None, self, w)))))"

text \<open>
  The rest of a turn of the loop of \<open>open\<close>: the attempt itself. It returns, or leaves the
  status with which the next turn begins. The request is recorded when it is sent.
\<close>

type_synonym read_sent = "(bytes option \<times> i64 \<times> SentRead) list"

definition open_attempt ::
    "Env \<Rightarrow> ReadSide \<Rightarrow> bool \<Rightarrow> ReadOperation \<Rightarrow> World \<Rightarrow> read_sent
     \<Rightarrow> ((Error, OpenResult) result + status) \<times> ReadOperation \<times> World \<times> read_sent" where
  "open_attempt x rd sender self w sent =
     (case resume_request (ro_original self) (ro_progress self) (ro_rows_returned self) of
        None \<Rightarrow>
          (let (self, w) = read_finish x OkCode self w in (Inl (Ok Complete), self, w, sent))
      | Some message \<Rightarrow>
          (case remaining x self w of
             (Inl error, self, w) \<Rightarrow> (Inl (Err error), self, w, sent)
           | (Inr left, self, w) \<Rightarrow>
               (let timeout = min (attempt_timeout (ro_deadlines (ro_options self))) left;
                    (t, w) = now_instant (x_clock x) w
                in case checked_add x t timeout of
                     None \<Rightarrow>
                       (Inl (Err (invalid_read_policy ReadPolicyIssue.DeadlineTooLarge)), self, w, sent)
                   | Some attempt_deadline \<Rightarrow>
                       (let request = \<lparr>sr_message = message, sr_routing = ro_routing self,
                              sr_timeout = timeout\<rparr>;
                            self = self\<lparr>ro_attempts := ro_attempts self + 1\<rparr>;
                            sent = sent @ [(ro_progress self, ro_rows_returned self, request)];
                            (telemetry, w) = handle_attempt (x_clock x) None (ro_attempts self) 0
                              timeout w
                        in if sender \<and> rd_closed_opening rd (ro_attempts self) then
                             (let (telemetry, w) = attempt_finish (x_clock x) Cancelled
                                    summary_default (telemetry, w);
                                  (self, w) = read_finish x Cancelled self w
                              in (Inl (Ok OpenCancelled), self, w, sent))
                           else
                             (case rd_read_rows rd (ro_attempts self) request of
                                Streaming items \<Rightarrow>
                                  (Inl (Ok (Active \<lparr>aa_stream = items, aa_deadline = attempt_deadline,
                                     aa_rows = 0, aa_telemetry = telemetry\<rparr>)), self, w, sent)
                              | Rejected status \<Rightarrow>
                                  (let (telemetry, w) = attempt_finish (x_clock x) (st_code status)
                                         summary_default (telemetry, w)
                                   in (Inr status, self, w, sent))
                              | NoReply \<Rightarrow>
                                  (let (telemetry, w) = attempt_finish (x_clock x)
                                         Code.DeadlineExceeded summary_default (telemetry, w)
                                   in (Inr attempt_timeout_error, self, w, sent)))))))"

text \<open>What opening an attempt may change.\<close>

definition only_telemetry :: "ReadOperation \<Rightarrow> ReadOperation \<Rightarrow> bool" where
  "only_telemetry self self' \<longleftrightarrow> self' = self\<lparr>ro_telemetry := ro_telemetry self'\<rparr>"

lemma only_telemetryD [dest]:
  assumes "only_telemetry self self'"
  shows "ro_original self' = ro_original self" "ro_options self' = ro_options self"
    "ro_deadline self' = ro_deadline self" "ro_attempts self' = ro_attempts self"
    "ro_rows_returned self' = ro_rows_returned self" "ro_progress self' = ro_progress self"
    "ro_merger self' = ro_merger self" "ro_routing self' = ro_routing self"
  using assms by (cases self; cases self'; simp add: only_telemetry_def)+

lemma only_telemetry_refl [simp]: "only_telemetry self self"
  by (simp add: only_telemetry_def)

lemma only_telemetry_trans: "only_telemetry a b \<Longrightarrow> only_telemetry b c \<Longrightarrow> only_telemetry a c"
  by (cases a; cases b; cases c) (simp add: only_telemetry_def)

lemma read_finish_only: "read_finish x code self w = (self', w') \<Longrightarrow> only_telemetry self self'"
  by (auto simp: read_finish_def only_telemetry_def split: prod.splits)

lemma remaining_only: "remaining x self w = (res, self', w') \<Longrightarrow> only_telemetry self self'"
  by (auto simp: remaining_def now_instant_def Let_def dest: read_finish_only split: prod.splits if_splits)

lemma open_pause_only:
  "open_pause x rd sender status self w = Some (res, self', w') \<Longrightarrow> only_telemetry self self'"
  by (auto simp: open_pause_def Let_def split: if_splits option.splits prod.splits sum.splits
      dest!: read_finish_only remaining_only dest: only_telemetry_trans)

lemma open_pause_goes_on:
  "open_pause x rd sender status self w = Some (None, self', w')
   \<Longrightarrow> ro_attempts self < max_attempts (ro_retry (ro_options self)) \<and> is_retryable status"
  by (auto simp: open_pause_def Let_def split: if_splits option.splits prod.splits sum.splits)

lemma open_attempt_only:
  assumes "open_attempt x rd sender self w sent = (res, self', w', sent')"
  shows "(only_telemetry self self' \<and> sent' = sent \<and> (\<forall>status. res \<noteq> Inr status)
      \<and> (\<forall>a. res \<noteq> Inl (Ok (Active a))))
    \<or> (only_telemetry (self\<lparr>ro_attempts := ro_attempts self + 1\<rparr>) self'
       \<and> (\<exists>message timeout. resume_request (ro_original self) (ro_progress self) (ro_rows_returned self)
             = Some message
           \<and> sent' = sent @ [(ro_progress self, ro_rows_returned self,
               \<lparr>sr_message = message, sr_routing = ro_routing self, sr_timeout = timeout\<rparr>)]))"
proof (cases "resume_request (ro_original self) (ro_progress self) (ro_rows_returned self)")
  case None
  then show ?thesis
    using assms by (auto simp: open_attempt_def dest!: read_finish_only split: prod.splits)
next
  case (Some message)
  obtain left self1 w1 where rem: "remaining x self w = (left, self1, w1)" by (metis prod_cases3)
  have only: "only_telemetry self self1" using remaining_only [OF rem] .
  show ?thesis
  proof (cases left)
    case (Inl error)
    then show ?thesis using assms Some rem only by (auto simp: open_attempt_def)
  next
    case (Inr left)
    have "only_telemetry (self\<lparr>ro_attempts := ro_attempts self + 1\<rparr>)
        (self1\<lparr>ro_attempts := ro_attempts self1 + 1\<rparr>)"
      using only by (cases self; cases self1) (simp add: only_telemetry_def)
    note step = only_telemetry_trans [OF this]
    show ?thesis
      using assms Some rem Inr only step only_telemetryD [OF only]
      by (auto simp: open_attempt_def Let_def dest!: read_finish_only
          split: prod.splits option.splits if_splits ReadReply.splits)
  qed
qed

definition turns_left :: "ReadOperation \<Rightarrow> status option \<Rightarrow> nat" where
  "turns_left self failure = (case failure of None \<Rightarrow> Suc (Suc u32_max)
     | Some status \<Rightarrow> Suc u32_max - unat (ro_attempts self))"

lemma open_turn_decreases:
  assumes "(case failure of None \<Rightarrow> Some (None, self, w)
      | Some status \<Rightarrow> open_pause x rd sender status self w) = Some (None, self1, w1)"
    and "open_attempt x rd sender self1 w1 sent = (Inr status, self2, w2, sent2)"
  shows "turns_left self2 (Some status) < turns_left self failure"
proof (cases failure)
  case None
  then show ?thesis by (simp add: turns_left_def)
next
  case (Some st)
  then have pause: "open_pause x rd sender st self w = Some (None, self1, w1)" using assms(1) by simp
  have same: "ro_attempts self1 = ro_attempts self" using open_pause_only [OF pause] by auto
  have "unat (ro_attempts self) < unat (max_attempts (ro_retry (ro_options self)))"
    using open_pause_goes_on [OF pause] by (simp add: word_less_nat_alt)
  then have "unat (ro_attempts self) < u32_max" using unat_u32_le order.strict_trans2 by blast
  moreover have "ro_attempts self2 = ro_attempts self + 1"
    using open_attempt_only [OF assms(2)] same by auto
  ultimately show ?thesis by (simp add: Some turns_left_def unat_inc_u32)
qed

text \<open>
  The loop of \<open>open\<close> ends because a failure is retried only with attempts left, and every
  attempt is counted.
\<close>

function read_open ::
    "Env \<Rightarrow> ReadSide \<Rightarrow> bool \<Rightarrow> ReadOperation \<Rightarrow> status option \<Rightarrow> World \<Rightarrow> read_sent
     \<Rightarrow> ((Error, OpenResult) result \<times> ReadOperation \<times> World \<times> read_sent) option" where
  "read_open x rd sender self failure w sent =
     (let (t, w) = now_instant (x_clock x) w
      in if t \<ge> ro_deadline self then
           (let (self, w) = read_finish x Code.DeadlineExceeded self w
            in Some (Err (deadline_error self), self, w, sent))
         else
           (case (case failure of None \<Rightarrow> Some (None, self, w)
                  | Some status \<Rightarrow> open_pause x rd sender status self w) of
              None \<Rightarrow> None
            | Some (Some res, self, w) \<Rightarrow> Some (res, self, w, sent)
            | Some (None, self, w) \<Rightarrow>
                (case open_attempt x rd sender self w sent of
                   (Inl res, self, w, sent) \<Rightarrow> Some (res, self, w, sent)
                 | (Inr status, self, w, sent) \<Rightarrow>
                     read_open x rd sender self (Some status) w sent)))"
  by pat_completeness auto
termination
proof (relation "measure (\<lambda>(x, rd, sender, self, failure, w, sent). turns_left self failure)", goal_cases)
  case (2 x rd sender self failure)
  then show ?case by (auto intro: open_turn_decreases [OF _ sym])
qed simp

declare read_open.simps [simp del]

section \<open>The responses\<close>

type_synonym delivered = "(Error, Row) result list"

text \<open>The loop over the chunks of a message; the flag is false when the application is gone.\<close>

fun handle_chunks ::
    "Env \<Rightarrow> ReadSide \<Rightarrow> ReadOperation \<Rightarrow> CellChunk list \<Rightarrow> World \<Rightarrow> delivered
     \<Rightarrow> (Error, bool) result \<times> ReadOperation \<times> World \<times> delivered" where
  "handle_chunks x rd self [] w out = (Ok True, self, w, out)"
| "handle_chunks x rd self (chunk # chunks) w out =
     (case push (ro_merger self) chunk of
        (Inl issue, m) \<Rightarrow> (Err (InvalidReadRowsResponse issue), self\<lparr>ro_merger := m\<rparr>, w, out)
      | (Inr None, m) \<Rightarrow> handle_chunks x rd (self\<lparr>ro_merger := m\<rparr>) chunks w out
      | (Inr (Some row), m) \<Rightarrow>
          (let self = self\<lparr>ro_merger := m, ro_rows_returned := ro_rows_returned self + 1,
                 ro_progress := Some (row_key row)\<rparr>;
               (blocked, w) = now_instant (x_clock x) w;
               sent = rd_takes rd (length out);
               out = (if sent then out @ [Ok row] else out);
               (blocked_for, w) = elapsed (x_clock x) blocked w;
               w = application_blocked blocked_for w
           in if sent then handle_chunks x rd self chunks w out else (Ok False, self, w, out)))"

definition handle_response ::
    "Env \<Rightarrow> ReadSide \<Rightarrow> ReadOperation \<Rightarrow> ReadRowsResponse \<Rightarrow> World \<Rightarrow> delivered
     \<Rightarrow> (Error, bool) result \<times> ReadOperation \<times> World \<times> delivered" where
  "handle_response x rd self response w out =
     (if rsp_last_scanned_row_key response \<noteq> [] then
        (case scan_marker (ro_merger self) (rsp_last_scanned_row_key response) of
           (Inl issue, m) \<Rightarrow> (Err (InvalidReadRowsResponse issue), self\<lparr>ro_merger := m\<rparr>, w, out)
         | (Inr _, m) \<Rightarrow>
             handle_chunks x rd
               (self\<lparr>ro_merger := m, ro_progress := Some (rsp_last_scanned_row_key response)\<rparr>)
               (rsp_chunks response) w out)
      else handle_chunks x rd self (rsp_chunks response) w out)"

section \<open>The task\<close>

text \<open>
  How an attempt leaves the loop of \<open>run\<close>: the task is over, or the attempt has failed and
  another one is opened.
\<close>

datatype AttemptEnd = TaskEnds | AttemptFails status

fun read_items ::
    "Env \<Rightarrow> ReadSide \<Rightarrow> ReadOperation \<Rightarrow> ActiveAttempt \<Rightarrow> ReadItem list \<Rightarrow> World \<Rightarrow> delivered
     \<Rightarrow> AttemptEnd \<times> ReadOperation \<times> World \<times> delivered" where
  "read_items x rd self active [] w out =
     (let (active, w) = active_finish x OkCode active w
      in case merger_finish (ro_merger self) of
           Inl issue \<Rightarrow>
             (let (self, w) = read_finish x Unknown self w
              in (TaskEnds, self, w, out @ [Err (InvalidReadRowsResponse issue)]))
         | Inr _ \<Rightarrow>
             (let (self, w) = read_finish x OkCode self w in (TaskEnds, self, w, out)))"
| "read_items x rd self active (ReceiverClosed # _) w out =
     (let (active, w) = active_finish x Cancelled active w;
          (self, w) = read_finish x Cancelled self w
      in (TaskEnds, self, w, out))"
| "read_items x rd self active (ReadError status # _) w out =
     (let (active, w) = active_finish x (st_code status) active w
      in (AttemptFails status, self\<lparr>ro_merger := discard_partial (ro_merger self)\<rparr>, w, out))"
| "read_items x rd self active (ReadTimeout # _) w out =
     (let (active, w) = active_finish x Code.DeadlineExceeded active w
      in (AttemptFails attempt_timeout_error,
          self\<lparr>ro_merger := discard_partial (ro_merger self)\<rparr>, w, out))"
| "read_items x rd self active (Message response # items) w out =
     (let (t, w) = first_response (x_clock x) (aa_telemetry active, w);
          active = active\<lparr>aa_telemetry := t\<rparr>;
          before = ro_rows_returned self
      in case handle_response x rd self response w out of
           (Inr True, self, w, out) \<Rightarrow>
             (let active = active\<lparr>aa_rows :=
                    sat_add64 (aa_rows active) (u64_of_i64 (ro_rows_returned self - before))\<rparr>
              in if limit_reached self then
                   (let (active, w) = active_finish x OkCode active w;
                        (self, w) = read_finish x OkCode self w
                    in (TaskEnds, self, w, out))
                 else read_items x rd self active items w out)
         | (Inr False, self, w, out) \<Rightarrow>
             (let (active, w) = active_finish x Cancelled active w;
                  (self, w) = read_finish x Cancelled self w
              in (TaskEnds, self, w, out))
         | (Inl error, self, w, out) \<Rightarrow>
             (let (active, w) = active_finish x Unknown active w;
                  (self, w) = read_finish x Unknown self w
              in (TaskEnds, self, w, out @ [Err error])))"

text \<open>The parts of the state that the responses of an attempt leave alone.\<close>

definition same_request :: "ReadOperation \<Rightarrow> ReadOperation \<Rightarrow> bool" where
  "same_request self self' \<longleftrightarrow> ro_original self' = ro_original self
     \<and> ro_options self' = ro_options self \<and> ro_deadline self' = ro_deadline self
     \<and> ro_routing self' = ro_routing self \<and> ro_attempts self' = ro_attempts self"

lemma same_request_refl [simp]: "same_request self self"
  by (simp add: same_request_def)

lemma same_request_trans: "same_request a b \<Longrightarrow> same_request b c \<Longrightarrow> same_request a c"
  by (simp add: same_request_def)

lemma only_telemetry_same: "only_telemetry a b \<Longrightarrow> same_request a b"
  by (auto simp: same_request_def)

lemma read_finish_same: "read_finish x code self w = (self', w') \<Longrightarrow> same_request self self'"
  by (intro only_telemetry_same read_finish_only)

lemma handle_chunks_same:
  "handle_chunks x rd self chunks w out = (res, self', w', out') \<Longrightarrow> same_request self self'"
proof (induction x rd self chunks w out rule: handle_chunks.induct)
  case (2 x rd self chunk chunks w out)
  then show ?case
    by (auto simp: same_request_def Let_def split: prod.splits sum.splits option.splits if_splits)
qed simp

lemma handle_response_same:
  "handle_response x rd self response w out = (res, self', w', out') \<Longrightarrow> same_request self self'"
  by (auto simp: handle_response_def same_request_def dest!: handle_chunks_same
      split: prod.splits sum.splits if_splits)

lemma read_items_same:
  "read_items x rd self active items w out = (res, self', w', out') \<Longrightarrow> same_request self self'"
proof (induction x rd self active items w out rule: read_items.induct)
  case (1 x rd self active w out)
  then show ?case by (auto simp: Let_def dest: read_finish_same split: prod.splits sum.splits)
next
  case (2 x rd self active items w out)
  then show ?case by (auto simp: Let_def dest: read_finish_same split: prod.splits)
next
  case (3 x rd self active status items w out)
  then show ?case by (auto simp: same_request_def split: prod.splits)
next
  case (4 x rd self active items w out)
  then show ?case by (auto simp: same_request_def split: prod.splits)
next
  case (5 x rd self active response items w out)
  obtain t w1 where t: "first_response (x_clock x) (aa_telemetry active, w) = (t, w1)" by fastforce
  obtain res1 self1 w2 out1 where
    h: "handle_response x rd self response w1 out = (res1, self1, w2, out1)" by (metis prod_cases4)
  note same = handle_response_same [OF h]
  consider (error) e where "res1 = Inl e" | (go_on) "res1 = Inr True" | (gone) "res1 = Inr False"
    by (cases res1) auto
  then show ?case
  proof cases
    case go_on
    then show ?thesis
      using 5(2) t h same 5(1) [OF refl t [symmetric] refl refl h [symmetric] go_on refl refl refl refl]
      by (auto simp: Let_def dest: read_finish_same same_request_trans split: prod.splits if_splits)
  qed (use 5(2) t h same in \<open>auto simp: Let_def dest: read_finish_same same_request_trans
      split: prod.splits\<close>)
qed

section \<open>What open does\<close>

text \<open>
  All it changes are the telemetry and the count of attempts, by the number of requests it has
  sent; each of them continues the original request from the progress made; it sends one
  before it returns an attempt, and stops at \<open>max_attempts\<close>.
\<close>

definition opened ::
    "ReadOperation \<Rightarrow> status option \<Rightarrow> read_sent \<Rightarrow> (Error, OpenResult) result \<Rightarrow> ReadOperation
     \<Rightarrow> read_sent \<Rightarrow> bool" where
  "opened self failure sent res self' sent' \<longleftrightarrow> (\<exists>new.
     only_telemetry (self\<lparr>ro_attempts := ro_attempts self + of_nat (length new)\<rparr>) self'
   \<and> sent' = sent @ new
   \<and> list_all (\<lambda>(p, n, req). p = ro_progress self \<and> n = ro_rows_returned self
       \<and> resume_request (ro_original self) p n = Some (sr_message req)) new
   \<and> ((\<exists>a. res = Inr (Active a)) \<longrightarrow> new \<noteq> [])
   \<and> (failure \<noteq> None \<or> ro_attempts self < max_attempts (ro_retry (ro_options self)) \<longrightarrow>
       unat (ro_attempts self) + length new
         \<le> max (unat (ro_attempts self)) (unat (max_attempts (ro_retry (ro_options self))))))"

lemma opened_nothing:
  "\<lbrakk>only_telemetry self self'; \<forall>a. res \<noteq> Inr (Active a)\<rbrakk> \<Longrightarrow> opened self failure sent res self' sent"
  by (auto simp: opened_def intro!: exI [of _ "[]"])

lemma open_pause_returns:
  "open_pause x rd sender status self w = Some (Some res, self', w') \<Longrightarrow> \<forall>a. res \<noteq> Inr (Active a)"
  by (auto simp: open_pause_def Let_def split: if_splits option.splits prod.splits sum.splits)

lemma opened_attempt:
  assumes "only_telemetry self self1" and "open_attempt x rd sender self1 w sent = (Inl res, self', w', sent')"
    and "failure \<noteq> None \<Longrightarrow> ro_attempts self < max_attempts (ro_retry (ro_options self))"
  shows "opened self failure sent res self' sent'"
  using open_attempt_only [OF assms(2)]
proof
  assume "only_telemetry self1 self' \<and> sent' = sent \<and> (\<forall>status. Inl res \<noteq> Inr status)
      \<and> (\<forall>a. Inl res \<noteq> Inl (Ok (Active a)))"
  then show ?thesis using only_telemetry_trans [OF assms(1)] by (auto intro: opened_nothing)
next
  assume sent: "only_telemetry (self1\<lparr>ro_attempts := ro_attempts self1 + 1\<rparr>) self'
      \<and> (\<exists>message timeout. resume_request (ro_original self1) (ro_progress self1) (ro_rows_returned self1)
             = Some message
           \<and> sent' = sent @ [(ro_progress self1, ro_rows_returned self1,
               \<lparr>sr_message = message, sr_routing = ro_routing self1, sr_timeout = timeout\<rparr>)])"
  have "only_telemetry (self\<lparr>ro_attempts := ro_attempts self + 1\<rparr>)
      (self1\<lparr>ro_attempts := ro_attempts self1 + 1\<rparr>)"
    using assms(1) by (cases self; cases self1) (simp add: only_telemetry_def)
  then have "only_telemetry (self\<lparr>ro_attempts := ro_attempts self + 1\<rparr>) self'"
    using sent only_telemetry_trans by blast
  then show ?thesis
    using sent only_telemetryD [OF assms(1)] assms(3)
    by (auto simp: opened_def word_less_nat_alt)
qed

lemma opened_again:
  assumes "only_telemetry self self1"
    and "open_attempt x rd sender self1 w sent = (Inr status, self2, w2, sent2)"
    and "failure \<noteq> None \<Longrightarrow> ro_attempts self < max_attempts (ro_retry (ro_options self))"
    and "opened self2 (Some status) sent2 res self' sent'"
  shows "opened self failure sent res self' sent'"
proof -
  from open_attempt_only [OF assms(2)] obtain message timeout where
    self2: "only_telemetry (self1\<lparr>ro_attempts := ro_attempts self1 + 1\<rparr>) self2" and
    msg: "resume_request (ro_original self1) (ro_progress self1) (ro_rows_returned self1) = Some message" and
    sent2: "sent2 = sent @ [(ro_progress self1, ro_rows_returned self1,
        \<lparr>sr_message = message, sr_routing = ro_routing self1, sr_timeout = timeout\<rparr>)]" by auto
  obtain new where
    new: "only_telemetry (self2\<lparr>ro_attempts := ro_attempts self2 + of_nat (length new)\<rparr>) self'"
    "sent' = sent2 @ new"
    "list_all (\<lambda>(p, n, req). p = ro_progress self2 \<and> n = ro_rows_returned self2
       \<and> resume_request (ro_original self2) p n = Some (sr_message req)) new"
    "unat (ro_attempts self2) + length new
         \<le> max (unat (ro_attempts self2)) (unat (max_attempts (ro_retry (ro_options self2))))"
    using assms(4) by (auto simp: opened_def)
  have fields: "ro_original self2 = ro_original self" "ro_progress self2 = ro_progress self"
    "ro_rows_returned self2 = ro_rows_returned self" "ro_options self2 = ro_options self"
    "ro_attempts self2 = ro_attempts self + 1"
    using only_telemetryD [OF assms(1)] only_telemetryD [OF self2] by simp_all
  let ?one = "(ro_progress self1, ro_rows_returned self1,
      \<lparr>sr_message = message, sr_routing = ro_routing self1, sr_timeout = timeout\<rparr>)"
  have "only_telemetry (self\<lparr>ro_attempts := ro_attempts self + of_nat (length (?one # new))\<rparr>)
      (self2\<lparr>ro_attempts := ro_attempts self2 + of_nat (length new)\<rparr>)"
    using assms(1) self2 by (cases self; cases self1; cases self2) (simp add: only_telemetry_def)
  then have "only_telemetry (self\<lparr>ro_attempts := ro_attempts self + of_nat (length (?one # new))\<rparr>) self'"
    using new(1) only_telemetry_trans by blast
  moreover have "unat (ro_attempts self) + length (?one # new)
      \<le> max (unat (ro_attempts self)) (unat (max_attempts (ro_retry (ro_options self))))"
    if "failure \<noteq> None \<or> ro_attempts self < max_attempts (ro_retry (ro_options self))"
  proof -
    have lt: "unat (ro_attempts self) < unat (max_attempts (ro_retry (ro_options self)))"
      using that assms(3) by (auto simp: word_less_nat_alt)
    then have "unat (ro_attempts self) < u32_max" using unat_u32_le order.strict_trans2 by blast
    then have "unat (ro_attempts self2) = Suc (unat (ro_attempts self))"
      by (simp add: fields unat_inc_u32)
    then show ?thesis using lt new(4) by (simp add: fields)
  qed
  ultimately show ?thesis
    using msg sent2 new(2,3) fields only_telemetryD [OF assms(1)]
    unfolding opened_def by (intro exI [of _ "?one # new"]) auto
qed

lemma read_open_opened:
  "read_open x rd sender self failure w sent = Some (res, self', w', sent')
   \<Longrightarrow> opened self failure sent res self' sent'"
proof (induction x rd sender self failure w sent rule: read_open.induct)
  case (1 x rd sender self failure w sent)
  obtain t w1 where now: "now_instant (x_clock x) w = (t, w1)" by fastforce
  show ?case
  proof (cases "t \<ge> ro_deadline self")
    case True
    then show ?thesis
      using 1(2) now
      by (subst (asm) read_open.simps)
        (auto simp: Let_def intro!: opened_nothing dest: read_finish_only split: prod.splits)
  next
    case False
    let ?pause = "case failure of None \<Rightarrow> Some (None, self, w1)
        | Some status \<Rightarrow> open_pause x rd sender status self w1"
    obtain r self1 w2 where pause: "?pause = Some (r, self1, w2)"
      using 1(2) now False by (subst (asm) read_open.simps) (auto split: option.splits)
    have same: "only_telemetry self self1"
      using pause open_pause_only by (cases failure) auto
    show ?thesis
    proof (cases r)
      case (Some res1)
      then have "\<forall>a. res1 \<noteq> Inr (Active a)"
        using pause by (cases failure) (auto dest: open_pause_returns)
      moreover have "res = res1" "self' = self1" "sent' = sent"
        using 1(2) now False pause Some by (subst (asm) read_open.simps; simp)+
      ultimately show ?thesis using opened_nothing [OF same] by simp
    next
      case None
      have left: "failure \<noteq> None \<Longrightarrow> ro_attempts self < max_attempts (ro_retry (ro_options self))"
        using pause None open_pause_goes_on by (cases failure) auto
      obtain a self2 w3 sent2 where
        attempt: "open_attempt x rd sender self1 w2 sent = (a, self2, w3, sent2)"
        by (metis prod_cases4)
      show ?thesis
      proof (cases a)
        case (Inl res1)
        then have "res = res1" "self' = self2" "sent' = sent2"
          using 1(2) now False pause None attempt by (subst (asm) read_open.simps; simp)+
        then show ?thesis using opened_attempt [OF same attempt [unfolded Inl] left] by simp
      next
        case (Inr status)
        have "read_open x rd sender self2 (Some status) w3 sent2 = Some (res, self', w', sent')"
          using 1(2) now False pause None attempt Inr by (subst (asm) read_open.simps) simp
        then have "opened self2 (Some status) sent2 res self' sent'"
          using 1(1) [OF refl now [symmetric] _ pause refl None refl _ _ refl refl] False attempt Inr
          by simp
        then show ?thesis using opened_again [OF same attempt [unfolded Inr]] left by blast
      qed
    qed
  qed
qed

lemma openedE:
  assumes "opened self failure sent res self' sent'"
  obtains new where
    "only_telemetry (self\<lparr>ro_attempts := ro_attempts self + of_nat (length new)\<rparr>) self'"
    and "sent' = sent @ new"
    and "list_all (\<lambda>(p, n, req). p = ro_progress self \<and> n = ro_rows_returned self
       \<and> resume_request (ro_original self) p n = Some (sr_message req)) new"
    and "(\<exists>a. res = Inr (Active a)) \<longrightarrow> new \<noteq> []"
    and "failure \<noteq> None \<or> ro_attempts self < max_attempts (ro_retry (ro_options self)) \<longrightarrow>
       unat (ro_attempts self) + length new
         \<le> max (unat (ro_attempts self)) (unat (max_attempts (ro_retry (ro_options self))))"
  using assms unfolding opened_def by (elim exE conjE) (rule that; assumption)

lemma opened_active:
  assumes "opened self (Some status) sent (Inr (Active next)) self' sent'"
  shows "turns_left self' (Some status') < turns_left self (Some status)"
proof -
  obtain new :: read_sent where
    only: "only_telemetry (self\<lparr>ro_attempts := ro_attempts self + of_nat (length new)\<rparr>) self'"
    and new: "new \<noteq> []" "unat (ro_attempts self) + length new
       \<le> max (unat (ro_attempts self)) (unat (max_attempts (ro_retry (ro_options self))))"
    by (rule openedE [OF assms]) simp
  have attempts: "ro_attempts self' = ro_attempts self + of_nat (length new)"
    using only_telemetryD(4) [OF only] by simp
  have "unat (max_attempts (ro_retry (ro_options self))) \<le> u32_max" by (rule unat_u32_le)
  moreover have "0 < length new" using new(1) by simp
  ultimately have le: "unat (ro_attempts self) + length new \<le> u32_max"
    using new(2) unat_u32_le [of "ro_attempts self"] by linarith
  then have "unat (ro_attempts self') = unat (ro_attempts self) + length new"
    unfolding attempts by (simp add: unat_word_ariths unat_of_nat u32_max_def)
  then show ?thesis
    using \<open>0 < length new\<close> le by (simp add: turns_left_def del: length_greater_0_conv)
qed

lemma read_run_decreases:
  assumes "read_items x rd self active items w out = (e, self1, w1, out1)"
    and "read_open x rd True self1 (Some status) w1 sent = Some (Inr (Active next), self2, w2, sent2)"
  shows "Suc u32_max - unat (ro_attempts self2) < Suc u32_max - unat (ro_attempts self)"
  using opened_active [OF read_open_opened [OF assms(2)]] read_items_same [OF assms(1)]
  by (simp add: turns_left_def same_request_def)

function read_run ::
    "Env \<Rightarrow> ReadSide \<Rightarrow> ReadOperation \<Rightarrow> ActiveAttempt \<Rightarrow> World \<Rightarrow> read_sent \<Rightarrow> delivered
     \<Rightarrow> (ReadOperation \<times> World \<times> read_sent \<times> delivered) option" where
  "read_run x rd self active w sent out =
     (case read_items x rd self active (aa_stream active) w out of
        (TaskEnds, self, w, out) \<Rightarrow> Some (self, w, sent, out)
      | (AttemptFails status, self, w, out) \<Rightarrow>
          (case read_open x rd True self (Some status) w sent of
             None \<Rightarrow> None
           | Some (Inr (Active next_attempt), self, w, sent) \<Rightarrow>
               read_run x rd self next_attempt w sent out
           | Some (Inr _, self, w, sent) \<Rightarrow> Some (self, w, sent, out)
           | Some (Inl error, self, w, sent) \<Rightarrow> Some (self, w, sent, out @ [Err error])))"
  by pat_completeness auto
termination
proof (relation "measure (\<lambda>(x, rd, self, active, w, sent, out). Suc u32_max - unat (ro_attempts self))",
    goal_cases)
  case 2
  then show ?case by (auto intro: read_run_decreases [OF sym])
qed simp

declare read_run.simps [simp del]

section \<open>Starting a read\<close>

definition read_routing :: "Env \<Rightarrow> string \<Rightarrow> (Error, string) result" where
  "read_routing x table =
     map_err (\<lambda>source. InvalidClientMetadata ''x-goog-request-params'' source)
       (x_parse_metadata x (''table_name='' @ table))"

text \<open>
  \<open>start\_with\_service\_and\_telemetry\<close> together with the task it spawns: an error, or all that
  the stream of rows delivers. The operation is dropped when the function or the task ends.
\<close>

definition read_start ::
    "Env \<Rightarrow> ReadSide \<Rightarrow> ClientConfig \<Rightarrow> Query \<Rightarrow> ReadOptions \<Rightarrow> World
     \<Rightarrow> ((Error, delivered) result \<times> World \<times> read_sent) option" where
  "read_start x rd config query options w =
     (case and_then (validate options) (\<lambda>_. query_validate query) of
        Inl error \<Rightarrow> Some (Err error, w, [])
      | Inr _ \<Rightarrow>
          let table_id = q_table_id query;
              request = into_request query config
          in case read_routing x (rr_table_name request) of
               Inl error \<Rightarrow> Some (Err error, w, [])
             | Inr routing \<Rightarrow>
                 let (t, w) = now_instant (x_clock x) w
                 in case checked_add x t (operation_timeout (ro_deadlines options)) of
                      None \<Rightarrow> Some (Err (invalid_read_policy ReadPolicyIssue.DeadlineTooLarge), w, [])
                    | Some deadline \<Rightarrow>
                        let (operation_telemetry, w) =
                              telemetry_operation (x_clock x) config BigtableOperation.ReadRows table_id 0 w;
                            operation =
                              read_operation_new request routing options deadline operation_telemetry
                        in case read_open x rd False operation None w [] of
                             None \<Rightarrow> None
                           | Some (Inl error, operation, w, sent) \<Rightarrow>
                               Some (Err error, operation_drop (x_clock x) (ro_telemetry operation, w), sent)
                           | Some (Inr (Active active), operation, w, sent) \<Rightarrow>
                               (case read_run x rd operation active w sent [] of
                                  None \<Rightarrow> None
                                | Some (operation, w, sent, out) \<Rightarrow>
                                    Some (Ok out, operation_drop (x_clock x) (ro_telemetry operation, w), sent))
                           | Some (Inr _, operation, w, sent) \<Rightarrow>
                               Some (Ok [], operation_drop (x_clock x) (ro_telemetry operation, w), sent))"

end
