(* ===== verification/ReadRuns.thy ===== *)
theory ReadRuns
  imports Read Encoding
begin

text \<open>
  What a read delivers and what it asks for, over all its attempts: the invariant that ties
  the rows in the channel, the progress, the state of the merger and the requests together,
  its preservation by every operation of \<open>Read\<close>, and the properties that follow.
\<close>

section \<open>The invariant\<close>

abbreviation ro_reversed :: "ReadOperation \<Rightarrow> bool" where
  "ro_reversed self \<equiv> rr_reversed (ro_original self)"

text \<open>
  A request that was sent when \<open>n\<close> rows had been delivered and the progress was \<open>p\<close>: it
  continues the original request from there, none of the first \<open>n\<close> rows is ahead of \<open>p\<close>, and
  every later row is.
\<close>

definition sent_inv ::
    "ReadRowsRequest \<Rightarrow> bytes option \<Rightarrow> Row list \<Rightarrow> bytes option \<times> i64 \<times> SentRead \<Rightarrow> bool" where
  "sent_inv original progress rows = (\<lambda>(p, n, req).
     resume_request original p n = Some (sr_message req) \<and> 0 \<le> n \<and> nat n \<le> length rows
   \<and> (\<forall>k. ahead_opt (rr_reversed original) k progress \<longrightarrow> ahead_opt (rr_reversed original) k p)
   \<and> list_all (\<lambda>r. \<not> ahead_opt (rr_reversed original) (row_key r) p) (take (nat n) rows)
   \<and> list_all (\<lambda>r. ahead_opt (rr_reversed original) (row_key r) p) (drop (nat n) rows))"

definition read_inv :: "ReadOperation \<Rightarrow> read_sent \<Rightarrow> Row list \<Rightarrow> bool" where
  "read_inv self sent rows \<longleftrightarrow>
     merger_inv (ro_merger self) \<and> m_reversed (ro_merger self) = ro_reversed self
   \<and> ro_progress self = m_last_complete_key (ro_merger self)
   \<and> int (length rows) \<le> ro_rows_returned self
   \<and> list_all row_ok rows \<and> scan.in_order (ro_reversed self) (map row_key rows)
   \<and> list_all (\<lambda>r. \<not> ahead_opt (ro_reversed self) (row_key r) (ro_progress self)) rows
   \<and> list_all (sent_inv (ro_original self) (ro_progress self) rows) sent"

lemma behind_mono:
  "\<lbrakk>\<not> ahead_opt b k p; ahead_opt b q p\<rbrakk> \<Longrightarrow> \<not> ahead b k q"
  by (cases p) (auto simp: scan.not_later_iff intro: scan.later_trans)

lemma sent_inv_advance:
  assumes "sent_inv original p rows s" and "ahead_opt (rr_reversed original) q p"
  shows "sent_inv original (Some q) rows s"
  using assms by (auto simp: sent_inv_def intro: ahead_opt_trans)

lemma sent_inv_row:
  assumes "sent_inv original p rows s" and "ahead_opt (rr_reversed original) (row_key r) p"
  shows "sent_inv original (Some (row_key r)) (rows @ [r]) s"
  using assms by (auto simp: sent_inv_def intro: ahead_opt_trans)

text \<open>The three ways in which a chunk or a scan marker moves the state.\<close>

lemma read_inv_same:
  assumes "read_inv self sent rows"
    and "merger_inv m" "m_reversed m = m_reversed (ro_merger self)"
    "m_last_complete_key m = m_last_complete_key (ro_merger self)"
  shows "read_inv (self\<lparr>ro_merger := m\<rparr>) sent rows"
  using assms by (auto simp: read_inv_def)

lemma read_inv_advance:
  assumes "read_inv self sent rows"
    and "merger_inv m" "m_reversed m = m_reversed (ro_merger self)" "m_last_complete_key m = Some q"
    and "ahead_opt (ro_reversed self) q (ro_progress self)" and "ro_rows_returned self \<le> n"
  shows "read_inv (self\<lparr>ro_merger := m, ro_rows_returned := n, ro_progress := Some q\<rparr>) sent rows"
  using assms behind_mono sent_inv_advance
  by (auto simp: read_inv_def list_all_iff)

lemma read_inv_row:
  assumes "read_inv self sent rows"
    and "merger_inv m" "m_reversed m = m_reversed (ro_merger self)"
    "m_last_complete_key m = Some (row_key r)" "row_ok r"
    and "ahead_opt (ro_reversed self) (row_key r) (ro_progress self)"
    and "ro_rows_returned self = int (length rows)"
  shows "read_inv (self\<lparr>ro_merger := m, ro_rows_returned := ro_rows_returned self + 1,
    ro_progress := Some (row_key r)\<rparr>) sent (rows @ [r])"
proof -
  have "\<forall>r' \<in> set rows. \<not> ahead (ro_reversed self) (row_key r') (row_key r)"
    using assms(1,6) behind_mono by (auto simp: read_inv_def list_all_iff)
  moreover have "\<forall>r' \<in> set rows. ahead (ro_reversed self) (row_key r) (row_key r')"
  proof
    fix r' assume "r' \<in> set rows"
    then have "\<not> ahead_opt (ro_reversed self) (row_key r') (ro_progress self)"
      using assms(1) by (auto simp: read_inv_def list_all_iff)
    then obtain p where p: "ro_progress self = Some p" "\<not> ahead (ro_reversed self) (row_key r') p"
      by (cases "ro_progress self") auto
    then show "ahead (ro_reversed self) (row_key r) (row_key r')"
      using assms(6) by (auto simp: scan.not_later_iff intro: scan.later_trans)
  qed
  ultimately show ?thesis
    using assms sent_inv_row
    by (auto simp: read_inv_def list_all_iff scan.in_order_snoc scan.later_irrefl)
qed

lemma handle_chunks_inv:
  assumes "handle_chunks x rd self chunks w (map Inr rows) = (res, self', w', out')"
    and "read_inv self sent rows" and "ro_rows_returned self = int (length rows)"
  shows "\<exists>rows'. out' = map Inr rows' \<and> read_inv self' sent rows'
    \<and> (res = Ok True \<longrightarrow> ro_rows_returned self' = int (length rows'))"
  using assms
proof (induction x rd self chunks w "map Inr rows :: delivered" arbitrary: rows rule: handle_chunks.induct)
  case (1 x rd self w)
  then show ?case by auto
next
  case (2 x rd self chunk chunks w)
  have inv: "read_inv self sent rows" using 2 by blast
  obtain p m where push: "push (ro_merger self) chunk = (p, m)" by fastforce
  have ok: "push_ok (ro_merger self) (p, m)"
    using push_ok [of "ro_merger self" chunk] inv push by (simp add: read_inv_def)
  consider (issue) e where "p = Inl e" | (none) "p = Inr None" | (row) r where "p = Inr (Some r)"
    by (cases p; cases "projr p") auto
  then show ?case
  proof cases
    case issue
    then show ?thesis
      using 2(3) push ok read_inv_same [OF inv, of m] by auto
  next
    case none
    have "handle_chunks x rd (self\<lparr>ro_merger := m\<rparr>) chunks w (map Inr rows) = (res, self', w', out')"
      using 2(3) push none by simp
    then show ?thesis
      using 2(1) [OF push [symmetric] none refl] read_inv_same [OF inv, of m] ok none 2(5) by simp
  next
    case (row r)
    have "read_inv (self\<lparr>ro_merger := m, ro_rows_returned := ro_rows_returned self + 1,
        ro_progress := Some (row_key r)\<rparr>) sent rows"
      by (rule read_inv_advance [OF inv]) (use ok row inv in \<open>simp_all add: read_inv_def\<close>)
    then have "\<not> rd_takes rd (length rows) \<Longrightarrow> ?thesis"
      using 2(3) push row by (auto simp: Let_def split: prod.splits)
    moreover have ?thesis if taken: "rd_takes rd (length rows)"
    proof -
      let ?self = "self\<lparr>ro_merger := m, ro_rows_returned := ro_rows_returned self + 1,
          ro_progress := Some (row_key r)\<rparr>"
      obtain b w1 where b: "now_instant (x_clock x) w = (b, w1)" by fastforce
      obtain d w2 where d: "elapsed (x_clock x) b w1 = (d, w2)" by fastforce
      have run: "handle_chunks x rd ?self chunks (application_blocked d w2) (map Inr (rows @ [r]))
          = (res, self', w', out')"
        using 2(3) push row taken b d by simp
      have inv': "read_inv ?self sent (rows @ [r])"
        by (rule read_inv_row [OF inv]) (use ok row inv 2(5) in \<open>auto simp: read_inv_def\<close>)
      have out: "map Inr (rows @ [r]) = (if rd_takes rd (length (map Inr rows :: delivered))
          then map Inr rows @ [Inr r] else map Inr rows)" using taken by simp
      show ?thesis
        using 2(2) [OF push [symmetric] row refl refl refl b [symmetric] refl out refl d [symmetric]
            refl _ run inv'] taken 2(5) by simp
    qed
    ultimately show ?thesis by blast
  qed
qed

lemma handle_response_inv:
  assumes "handle_response x rd self response w (map Inr rows) = (res, self', w', out')"
    and inv: "read_inv self sent rows" and count: "ro_rows_returned self = int (length rows)"
  shows "\<exists>rows'. out' = map Inr rows' \<and> read_inv self' sent rows'
    \<and> (res = Ok True \<longrightarrow> ro_rows_returned self' = int (length rows'))"
proof (cases "rsp_last_scanned_row_key response = []")
  case True
  then show ?thesis
    using assms handle_chunks_inv [where sent = sent] by (simp add: handle_response_def)
next
  case False
  let ?key = "rsp_last_scanned_row_key response"
  obtain s m where mark: "scan_marker (ro_merger self) ?key = (s, m)" by fastforce
  show ?thesis
  proof (cases s)
    case (Inl issue)
    then show ?thesis
      using assms False mark read_inv_same [OF inv, of m]
      by (auto simp: handle_response_def scan_marker_eq read_inv_def split: if_splits)
  next
    case (Inr u)
    have m: "merger_inv m" "m_reversed m = m_reversed (ro_merger self)"
      "m_last_complete_key m = Some ?key" "ahead_opt (ro_reversed self) ?key (ro_progress self)"
      using mark Inr inv by (auto simp: scan_marker_eq read_inv_def merger_inv_def split: if_splits)
    have "read_inv (self\<lparr>ro_merger := m, ro_rows_returned := ro_rows_returned self,
        ro_progress := Some ?key\<rparr>) sent rows"
      by (rule read_inv_advance [OF inv m]) simp
    moreover have "self\<lparr>ro_merger := m, ro_rows_returned := ro_rows_returned self,
        ro_progress := Some ?key\<rparr> = self\<lparr>ro_merger := m, ro_progress := Some ?key\<rparr>" by simp
    ultimately have inv': "read_inv (self\<lparr>ro_merger := m, ro_progress := Some ?key\<rparr>) sent rows"
      by simp
    have "handle_chunks x rd (self\<lparr>ro_merger := m, ro_progress := Some ?key\<rparr>) (rsp_chunks response) w
        (map Inr rows) = (res, self', w', out')"
      using assms(1) False mark Inr by (simp add: handle_response_def)
    from handle_chunks_inv [OF this inv'] count show ?thesis by simp
  qed
qed

text \<open>What goes into the channel: rows, and at most one error after them.\<close>

definition delivers :: "delivered \<Rightarrow> Row list \<Rightarrow> bool" where
  "delivers out rows \<longleftrightarrow> (\<exists>errors. out = map Inr rows @ map Inl errors \<and> length errors \<le> 1)"

lemma delivers_rows: "delivers (map Inr rows) rows"
  by (auto simp: delivers_def intro!: exI [of _ "[]"])

lemma delivers_error: "delivers (map Inr rows @ [Inl e]) rows"
  by (auto simp: delivers_def intro!: exI [of _ "[e]"])

lemma read_inv_only: "only_telemetry self self' \<Longrightarrow> read_inv self' sent rows = read_inv self sent rows"
  by (simp add: read_inv_def only_telemetryD)

lemma read_inv_finish: "read_finish x code self w = (self', w') \<Longrightarrow> read_inv self' sent rows = read_inv self sent rows"
  by (intro read_inv_only read_finish_only)

lemma read_inv_discard:
  "read_inv self sent rows \<Longrightarrow> read_inv (self\<lparr>ro_merger := discard_partial (ro_merger self)\<rparr>) sent rows"
  by (rule read_inv_same) (auto simp: discard_partial_def read_inv_def)

lemma read_items_inv:
  assumes "read_items x rd self active items w (map Inr rows) = (res, self', w', out')"
    and "read_inv self sent rows" and "ro_rows_returned self = int (length rows)"
  shows "\<exists>rows'. delivers out' rows' \<and> read_inv self' sent rows'
    \<and> (\<forall>status. res = AttemptFails status \<longrightarrow>
        out' = map Inr rows' \<and> ro_rows_returned self' = int (length rows'))"
  using assms
proof (induction x rd self active items w "map Inr rows :: delivered" arbitrary: rows rule: read_items.induct)
  case (1 x rd self active w)
  then show ?case
    by (auto simp: Let_def read_inv_finish split: prod.splits sum.splits
        intro!: exI [of _ rows] delivers_rows delivers_error)
next
  case (2 x rd self active items w)
  then show ?case
    by (auto simp: Let_def read_inv_finish split: prod.splits intro!: exI [of _ rows] delivers_rows)
next
  case (3 x rd self active status items w)
  then show ?case
    by (auto split: prod.splits intro!: exI [of _ rows] delivers_rows read_inv_discard)
next
  case (4 x rd self active items w)
  then show ?case
    by (auto split: prod.splits intro!: exI [of _ rows] delivers_rows read_inv_discard)
next
  case (5 x rd self active response items w)
  obtain t w1 where t: "first_response (x_clock x) (aa_telemetry active, w) = (t, w1)" by fastforce
  obtain res1 self1 w2 out1 where
    h: "handle_response x rd self response w1 (map Inr rows) = (res1, self1, w2, out1)"
    by (metis prod_cases4)
  obtain rows1 where rows1: "out1 = map Inr rows1" "read_inv self1 sent rows1"
    "res1 = Ok True \<longrightarrow> ro_rows_returned self1 = int (length rows1)"
    using handle_response_inv [OF h 5(3,4)] by blast
  consider (error) e where "res1 = Inl e" | (go_on) "res1 = Inr True" | (gone) "res1 = Inr False"
    by (cases res1) auto
  then show ?case
  proof cases
    case go_on
    show ?thesis
    proof (cases "limit_reached self1")
      case True
      then show ?thesis
        using 5(2) t h go_on rows1
        by (auto simp: Let_def read_inv_finish split: prod.splits
            intro!: exI [of _ rows1] delivers_rows)
    next
      case False
      then show ?thesis
        using 5(2) t h go_on rows1
          5(1) [OF refl t [symmetric] refl refl h [unfolded rows1(1), symmetric] go_on refl refl refl
            refl False]
        by (auto simp: Let_def)
    qed
  qed (use 5(2) t h rows1 in \<open>auto simp: Let_def read_inv_finish split: prod.splits
      intro!: exI [of _ rows1] delivers_rows delivers_error\<close>)
qed

text \<open>Opening an attempt keeps the invariant, and the count of attempts is the count of requests.\<close>

definition attempts_inv :: "ReadOperation \<Rightarrow> read_sent \<Rightarrow> bool" where
  "attempts_inv self sent \<longleftrightarrow> unat (ro_attempts self) = length sent
     \<and> ro_attempts self \<le> max_attempts (ro_retry (ro_options self))"

lemma opened_inv:
  assumes "opened self failure sent res self' sent'"
    and inv: "read_inv self sent rows" and count: "ro_rows_returned self = int (length rows)"
  shows "read_inv self' sent' rows \<and> ro_rows_returned self' = int (length rows)
    \<and> ro_original self' = ro_original self"
proof -
  obtain new where
    only: "only_telemetry (self\<lparr>ro_attempts := ro_attempts self + of_nat (length new)\<rparr>) self'"
    and sent': "sent' = sent @ new"
    and new: "list_all (\<lambda>(p, n, req). p = ro_progress self \<and> n = ro_rows_returned self
       \<and> resume_request (ro_original self) p n = Some (sr_message req)) new"
    by (rule openedE [OF assms(1)])
  have "list_all (sent_inv (ro_original self) (ro_progress self) rows) new"
    using new inv count by (auto simp: list_all_iff sent_inv_def read_inv_def)
  then have "read_inv (self\<lparr>ro_attempts := ro_attempts self + of_nat (length new)\<rparr>) sent' rows"
    using inv by (auto simp: read_inv_def sent')
  then show ?thesis
    using read_inv_only [OF only] only_telemetryD [OF only] count by simp
qed

lemma opened_attempts:
  assumes "opened self failure sent res self' sent'" and inv: "attempts_inv self sent"
    and some: "failure \<noteq> None \<or> ro_attempts self < max_attempts (ro_retry (ro_options self))"
  shows "attempts_inv self' sent' \<and> ro_options self' = ro_options self"
proof -
  obtain new :: read_sent where
    only: "only_telemetry (self\<lparr>ro_attempts := ro_attempts self + of_nat (length new)\<rparr>) self'"
    and sent': "sent' = sent @ new"
    and le: "unat (ro_attempts self) + length new
         \<le> max (unat (ro_attempts self)) (unat (max_attempts (ro_retry (ro_options self))))"
    by (rule openedE [OF assms(1)]) (use some in blast)
  have le: "unat (ro_attempts self) + length new \<le> unat (max_attempts (ro_retry (ro_options self)))"
    using le inv by (simp add: attempts_inv_def word_le_nat_alt)
  then have "unat (ro_attempts self) + length new \<le> u32_max"
    using unat_u32_le order_trans by blast
  then have "unat (ro_attempts self + of_nat (length new)) = unat (ro_attempts self) + length new"
    by (simp add: unat_word_ariths unat_of_nat u32_max_def)
  then show ?thesis
    using inv le only_telemetryD [OF only] by (simp add: attempts_inv_def sent' word_le_nat_alt)
qed

text \<open>The invariants over a whole task.\<close>

definition task_ok :: "ReadRowsRequest \<Rightarrow> ReadOptions \<Rightarrow> read_sent \<Rightarrow> delivered \<Rightarrow> Row list \<Rightarrow> bool" where
  "task_ok original options sent out rows \<longleftrightarrow> delivers out rows
   \<and> list_all row_ok rows \<and> scan.in_order (rr_reversed original) (map row_key rows)
   \<and> length sent \<le> unat (max_attempts (ro_retry options))
   \<and> (\<exists>progress. list_all (sent_inv original progress rows) sent)"

lemma task_okI:
  assumes "read_inv self sent rows" "attempts_inv self sent" "delivers out rows"
    and "ro_original self = original" "ro_options self = options"
  shows "task_ok original options sent out rows"
  using assms by (auto simp: task_ok_def read_inv_def attempts_inv_def word_le_nat_alt)

lemma read_run_task:
  assumes "read_run x rd self active w sent (map Inr rows) = Some (self', w', sent', out')"
    and "read_inv self sent rows" and "ro_rows_returned self = int (length rows)"
    and "attempts_inv self sent"
  shows "\<exists>rows'. task_ok (ro_original self) (ro_options self) sent' out' rows'"
  using assms
proof (induction x rd self active w sent "map Inr rows :: delivered" arbitrary: rows rule: read_run.induct)
  case (1 x rd self active w sent)
  obtain e self1 w1 out1 where
    items: "read_items x rd self active (aa_stream active) w (map Inr rows) = (e, self1, w1, out1)"
    by (metis prod_cases4)
  obtain rows1 where rows1: "delivers out1 rows1" "read_inv self1 sent rows1"
    "\<And>status. e = AttemptFails status \<Longrightarrow>
       out1 = map Inr rows1 \<and> ro_rows_returned self1 = int (length rows1)"
    using read_items_inv [OF items 1(3,4)] by blast
  have same: "ro_original self1 = ro_original self" "ro_options self1 = ro_options self"
    "attempts_inv self1 sent"
    using read_items_same [OF items] 1(5) by (auto simp: same_request_def attempts_inv_def)
  show ?case
  proof (cases e)
    case TaskEnds
    then have "out' = out1" "sent' = sent" "self' = self1"
      using 1(2) items by (subst (asm) read_run.simps; simp)+
    then show ?thesis using task_okI [OF rows1(2) same(3) rows1(1) same(1,2)] by blast
  next
    case (AttemptFails status)
    note rows1' = rows1(3) [OF AttemptFails]
    obtain res self2 w2 sent2 where
      op: "read_open x rd True self1 (Some status) w1 sent = Some (res, self2, w2, sent2)"
      using 1(2) items AttemptFails by (subst (asm) read_run.simps) (auto split: option.splits)
    note opened = read_open_opened [OF op]
    have inv2: "read_inv self2 sent2 rows1" "ro_rows_returned self2 = int (length rows1)"
      "ro_original self2 = ro_original self" "attempts_inv self2 sent2" "ro_options self2 = ro_options self"
      using opened_inv [OF opened rows1(2)] opened_attempts [OF opened same(3)] rows1' same by simp_all
    note ok = task_okI [OF inv2(1,4) _ inv2(3,5)]
    show ?thesis
    proof (cases "\<exists>a. res = Inr (Active a)")
      case True
      then obtain a where a: "res = Inr (Active a)" by blast
      have "read_run x rd self2 a w2 sent2 (map Inr rows1) = Some (self', w', sent', out')"
        using 1(2) items AttemptFails op a rows1' by (subst (asm) read_run.simps) simp
      then show ?thesis
        using 1(1) [OF items [unfolded conjunct1 [OF rows1'], symmetric] AttemptFails refl refl op
            refl a refl refl refl] inv2 by simp
    next
      case False
      then have "sent' = sent2 \<and> (out' = map Inr rows1 \<or> (\<exists>error. out' = map Inr rows1 @ [Inl error]))"
        using 1(2) items AttemptFails op rows1'
        by (subst (asm) read_run.simps) (auto split: sum.splits OpenResult.splits)
      then show ?thesis using ok delivers_rows delivers_error by metis
    qed
  qed
qed

lemma validate_read_limit: "validate options = Ok () \<Longrightarrow> 0 < max_attempts (ro_retry options)"
  by (simp add: validate_Ok validate_policies_Ok word_neq_0_conv)

text \<open>
  A read fails before it has a stream, or delivers what a task delivers; its first attempt is
  opened by a state without history.
\<close>

lemma read_start_cases:
  assumes "read_start x rd config query options w = Some (res, w', sent)"
  obtains (refused) error where "res = Err error" "sent = []" "w_events w' = w_events w"
      "and_then (validate options) (\<lambda>_. query_validate query) = Err error
       \<or> read_routing x (rr_table_name (into_request query config)) = Err error
       \<or> error = invalid_read_policy ReadPolicyIssue.DeadlineTooLarge"
  | (unopened) r routing deadline tracker w1 self' w2 w0 where
      "validate options = Ok ()" "query_validate query = Ok ()"
      "read_open x rd False
         (read_operation_new (into_request query config) routing options deadline tracker) None w1 []
       = Some (r, self', w2, sent)"
      "res = (case r of Inl error \<Rightarrow> Err error | Inr _ \<Rightarrow> Ok [])" "\<forall>a. r \<noteq> Inr (Active a)"
      "telemetry_operation (x_clock x) config BigtableOperation.ReadRows (q_table_id query) 0 w0 = (tracker, w1)"
      "w_events w0 = w_events w" "w_observer w0 = w_observer w"
      "w' = operation_drop (x_clock x) (ro_telemetry self', w2)"
      "deadline = x_clock x (w_ticks w) + operation_timeout (ro_deadlines options)" "w_ticks w \<le> w_ticks w1"
  | (running) active routing deadline tracker w1 self1 w2 sent1 self' w3 out w0 where
      "validate options = Ok ()" "query_validate query = Ok ()"
      "read_open x rd False
         (read_operation_new (into_request query config) routing options deadline tracker) None w1 []
       = Some (Inr (Active active), self1, w2, sent1)"
      "read_run x rd self1 active w2 sent1 [] = Some (self', w3, sent, out)" "res = Ok out"
      "telemetry_operation (x_clock x) config BigtableOperation.ReadRows (q_table_id query) 0 w0 = (tracker, w1)"
      "w_events w0 = w_events w" "w_observer w0 = w_observer w"
      "w' = operation_drop (x_clock x) (ro_telemetry self', w3)"
      "deadline = x_clock x (w_ticks w) + operation_timeout (ro_deadlines options)" "w_ticks w \<le> w_ticks w1"
proof -
  show thesis
  proof (cases "and_then (validate options) (\<lambda>_. query_validate query)")
    case (Inl error)
    then show thesis using assms by (intro refused) (auto simp: read_start_def)
  next
    case valid: (Inr u)
    let ?request = "into_request query config"
    show thesis
    proof (cases "read_routing x (rr_table_name ?request)")
      case (Inl error)
      then show thesis using assms valid by (intro refused) (auto simp: read_start_def)
    next
      case routing: (Inr routing)
      obtain t w1 where now: "now_instant (x_clock x) w = (t, w1)" by fastforce
      have w1: "w_events w1 = w_events w" "w_observer w1 = w_observer w"
        using now by (auto simp: now_instant_def)
      show thesis
      proof (cases "checked_add x t (operation_timeout (ro_deadlines options))")
        case None
        then show thesis using assms valid routing now w1 by (intro refused) (auto simp: read_start_def)
      next
        case deadline: (Some d)
        obtain op w2 where op: "telemetry_operation (x_clock x) config BigtableOperation.ReadRows
            (q_table_id query) 0 w1 = (op, w2)" by fastforce
        let ?op = "read_operation_new ?request routing options d op"
        note facts = valid routing now deadline op
        have timing: "d = x_clock x (w_ticks w) + operation_timeout (ro_deadlines options)"
          "w_ticks w \<le> w_ticks w2"
          using now deadline op
          by (auto simp: now_instant_def checked_add_def telemetry_operation_def Let_def split: if_splits)
        have ok: "validate options = Ok ()" "query_validate query = Ok ()"
          using valid by (auto simp: and_then_Inr_iff)
        obtain r self1 w3 sent1 where open1: "read_open x rd False ?op None w2 [] = Some (r, self1, w3, sent1)"
          using assms facts by (cases "read_open x rd False ?op None w2 []") (auto simp: read_start_def)
        show thesis
        proof (cases "\<exists>a. r = Inr (Active a)")
          case True
          then obtain a where a: "r = Inr (Active a)" by blast
          obtain self' w4 out where "read_run x rd self1 a w3 sent1 [] = Some (self', w4, sent, out)"
            "res = Ok out" "w' = operation_drop (x_clock x) (ro_telemetry self', w4)"
            using assms facts open1 a by (auto simp: read_start_def split: option.splits)
          then show thesis using running [OF ok open1 [unfolded a]] op w1 timing by blast
        next
          case False
          then have "sent = sent1" "res = (case r of Inl error \<Rightarrow> Err error | Inr _ \<Rightarrow> Ok [])"
            "w' = operation_drop (x_clock x) (ro_telemetry self1, w3)"
            using assms facts open1
            by (auto simp: read_start_def split: sum.splits OpenResult.splits)
          then show thesis
            using unopened [OF ok, of routing d op w2 r self1 w3 w1] open1 False op w1 timing by simp
        qed
      qed
    qed
  qed
qed

lemma read_inv_new:
  "read_inv (read_operation_new original routing options deadline tracker) [] []"
  by (simp add: read_inv_def read_operation_new_def Let_def scan.in_order_Nil)

lemma read_operation_new_fields [simp]:
  "ro_original (read_operation_new original routing options deadline tracker) = original"
  "ro_options (read_operation_new original routing options deadline tracker) = options"
  "ro_attempts (read_operation_new original routing options deadline tracker) = 0"
  "ro_rows_returned (read_operation_new original routing options deadline tracker) = 0"
  "ro_deadline (read_operation_new original routing options deadline tracker) = deadline"
  by (simp_all add: read_operation_new_def Let_def)

text \<open>All that a read delivers.\<close>

definition result_rows :: "(Error, delivered) result \<Rightarrow> delivered" where
  "result_rows res = (case res of Inl _ \<Rightarrow> [] | Inr out \<Rightarrow> out)"

lemma read_start_task:
  assumes "read_start x rd config query options w = Some (res, w', sent)"
  shows "\<exists>rows. task_ok (into_request query config) options sent (result_rows res) rows"
  using assms
proof (cases rule: read_start_cases)
  case (refused error)
  then show ?thesis
    by (intro exI [of _ "[]"]) (simp add: task_ok_def result_rows_def delivers_def scan.in_order_Nil)
next
  case (unopened r routing deadline tracker w1 self' w2)
  let ?op = "read_operation_new (into_request query config) routing options deadline tracker"
  note opened = read_open_opened [OF unopened(3)]
  have "read_inv self' sent [] \<and> ro_original self' = into_request query config"
    using opened_inv [OF opened read_inv_new] by simp
  moreover have "attempts_inv self' sent \<and> ro_options self' = options"
    using opened_attempts [OF opened] validate_read_limit [OF unopened(1)]
    by (auto simp: attempts_inv_def)
  moreover have "result_rows res = []" using unopened(4) by (auto simp: result_rows_def split: sum.splits)
  ultimately show ?thesis using task_okI [of self' sent "[]" "[]"] delivers_rows [of "[]"] by auto
next
  case (running active routing deadline tracker w1 self1 w2 sent1 self' w3 out)
  let ?op = "read_operation_new (into_request query config) routing options deadline tracker"
  note opened = read_open_opened [OF running(3)]
  have "read_inv self1 sent1 [] \<and> ro_rows_returned self1 = int (length ([] :: Row list))
      \<and> ro_original self1 = into_request query config"
    using opened_inv [OF opened read_inv_new] by simp
  moreover have "attempts_inv self1 sent1 \<and> ro_options self1 = options"
    using opened_attempts [OF opened] validate_read_limit [OF running(1)]
    by (auto simp: attempts_inv_def)
  ultimately show ?thesis
    using read_run_task [of x rd self1 active w2 sent1 "[]" self' w3 sent out] running(4,5)
    by (simp add: result_rows_def)
qed

section \<open>A read returns\<close>

lemma open_pause_some:
  assumes "\<And>rand n. backoff (x_powi x) rand (ro_retry (ro_options self)) n \<noteq> None"
  shows "open_pause x rd sender status self w \<noteq> None"
proof -
  obtain b where "backoff (x_powi x) (x_rand x (w_ticks w)) (ro_retry (ro_options self))
      (ro_attempts self) = Some b" using assms by blast
  then show ?thesis by (auto simp: open_pause_def Let_def split: prod.splits sum.splits)
qed

lemma read_open_returns:
  assumes "\<And>rand n. backoff (x_powi x) rand (ro_retry (ro_options self)) n \<noteq> None"
  shows "read_open x rd sender self failure w sent \<noteq> None"
  using assms
proof (induction x rd sender self failure w sent rule: read_open.induct)
  case (1 x rd sender self failure w sent)
  obtain t w1 where now: "now_instant (x_clock x) w = (t, w1)" by fastforce
  show ?case
  proof (cases "t \<ge> ro_deadline self")
    case True
    then show ?thesis using now by (subst read_open.simps) (auto simp: Let_def split: prod.splits)
  next
    case False
    let ?pause = "case failure of None \<Rightarrow> Some (None, self, w1)
        | Some status \<Rightarrow> open_pause x rd sender status self w1"
    have "?pause \<noteq> None"
      using open_pause_some [of x self rd sender _ w1] 1(2) by (cases failure) simp_all
    then obtain r self1 w2 where pause: "?pause = Some (r, self1, w2)" by auto
    have same: "only_telemetry self self1" using pause open_pause_only by (cases failure) auto
    obtain a self2 w3 sent2 where
      attempt: "open_attempt x rd sender self1 w2 sent = (a, self2, w3, sent2)" by (metis prod_cases4)
    have opts: "ro_options self2 = ro_options self"
      using open_attempt_only [OF attempt] only_telemetryD [OF same] by auto
    show ?thesis
    proof (cases "r \<noteq> None \<or> (\<exists>res. a = Inl res)")
      case True
      then show ?thesis
        using now False pause attempt by (subst read_open.simps) (auto split: option.splits)
    next
      case again: False
      then obtain status where st: "r = None" "a = Inr status" by (cases a) auto
      have "read_open x rd sender self2 (Some status) w3 sent2 \<noteq> None"
        using 1(1) [OF refl now [symmetric] False pause refl st(1) refl attempt [symmetric] st(2) refl refl]
          1(2) opts by simp
      then show ?thesis
        using now False pause attempt st by (subst read_open.simps) simp
    qed
  qed
qed

lemma read_run_returns:
  assumes "\<And>rand n. backoff (x_powi x) rand (ro_retry (ro_options self)) n \<noteq> None"
  shows "read_run x rd self active w sent out \<noteq> None"
  using assms
proof (induction x rd self active w sent out rule: read_run.induct)
  case (1 x rd self active w sent out)
  obtain e self1 w1 out1 where
    items: "read_items x rd self active (aa_stream active) w out = (e, self1, w1, out1)"
    by (metis prod_cases4)
  have opts: "ro_options self1 = ro_options self"
    using read_items_same [OF items] by (simp add: same_request_def)
  show ?case
  proof (cases e)
    case TaskEnds
    then show ?thesis using items by (subst read_run.simps) simp
  next
    case (AttemptFails status)
    have "read_open x rd True self1 (Some status) w1 sent \<noteq> None"
      using read_open_returns [of x self1 rd True "Some status" w1 sent] 1(2) opts by simp
    then obtain res self2 w2 sent2 where
      op: "read_open x rd True self1 (Some status) w1 sent = Some (res, self2, w2, sent2)" by auto
    have opts2: "ro_options self2 = ro_options self"
      using read_open_opened [OF op] opts by (auto simp: opened_def dest!: only_telemetryD(2))
    show ?thesis
    proof (cases "\<exists>a. res = Inr (Active a)")
      case True
      then obtain a where a: "res = Inr (Active a)" by blast
      have "read_run x rd self2 a w2 sent2 out1 \<noteq> None"
        using 1(1) [OF items [symmetric] AttemptFails refl refl op refl a refl refl refl] 1(2) opts2
        by simp
      then show ?thesis using items AttemptFails op a by (subst read_run.simps) simp
    next
      case False
      then show ?thesis
        using items AttemptFails op
        by (subst read_run.simps) (auto split: sum.splits OpenResult.splits)
    qed
  qed
qed

lemma read_start_returns:
  assumes "max_backoff (ro_retry options) < 2 ^ 63 * nanos_per_sec" and "powi64_nonneg (x_powi x)"
  shows "read_start x rd config query options w \<noteq> None"
proof (cases "and_then (validate options) (\<lambda>_. query_validate query)")
  case (Inl e)
  then show ?thesis by (simp add: read_start_def)
next
  case (Inr u)
  then have "validate_policies (ro_retry options) (ro_deadlines options) = Ok ()"
    by (auto simp: and_then_Inr_iff validate_Ok)
  then have delay: "backoff (x_powi x) rand (ro_retry options) n \<noteq> None" for rand n
    using assms by (rule backoff_returns)
  have open1: "read_open x rd False
      (read_operation_new original routing options deadline tracker) None w1 [] \<noteq> None"
    for original routing deadline tracker w1 using delay by (intro read_open_returns) simp
  have run: "read_run x rd self1 active w2 sent out \<noteq> None" if "read_open x rd False
      (read_operation_new original routing options deadline tracker) None w1 []
      = Some (r, self1, w2, sent)"
    for original routing deadline tracker w1 r self1 w2 sent active out
  proof -
    have "ro_options self1 = options"
      using read_open_opened [OF that] by (auto simp: opened_def dest!: only_telemetryD(2))
    then show ?thesis using delay by (intro read_run_returns) simp
  qed
  show ?thesis
    using Inr
    by (auto simp: read_start_def Let_def open1
        split: sum.splits prod.splits option.splits OpenResult.splits dest: run)
qed

section \<open>Properties\<close>

text \<open>
  C5. Whatever the service answers and whenever attempts fail, time out or are resumed, the
  application receives complete rows whose keys are strictly in scan order, over all attempts
  of the read: no row twice, none out of order. At most one error follows, and nothing after it.
\<close>

theorem delivered_rows_in_order:
  assumes "read_start x rd config query options w = Some (res, w', sent)"
  shows "\<exists>rows. delivers (result_rows res) rows \<and> list_all row_ok rows
    \<and> scan.in_order (q_reversed query) (map row_key rows)"
proof -
  have "rr_reversed (into_request query config) = q_reversed query"
    by (simp add: into_request_def Let_def)
  then show ?thesis using read_start_task [OF assms] by (auto simp: task_ok_def)
qed



text \<open>A read whose first attempt breaks off in the middle of its row.\<close>

definition sample_row :: Row where
  "sample_row = \<lparr>row_key = [1], row_families =
     [\<lparr>fam_name = ''f'', fam_columns = [\<lparr>col_qualifier = [7], col_cells = [sample_cell 5 [1, 2]]\<rparr>]\<rparr>]\<rparr>"

definition sample_read_side :: ReadSide where
  "sample_read_side = \<lparr>rd_read_rows = (\<lambda>attempt request. if attempt = 1
       then Streaming [Message \<lparr>rsp_chunks = [], rsp_last_scanned_row_key = [0]\<rparr>,
         ReadError \<lparr>st_code = Unavailable, st_message = [], st_details = []\<rparr>]
       else Streaming [Message \<lparr>rsp_chunks = encode_row sample_row, rsp_last_scanned_row_key = []\<rparr>]),
     rd_closed_opening = (\<lambda>_. False), rd_closed_sleeping = (\<lambda>_. False), rd_takes = (\<lambda>_. True)\<rparr>"

abbreviation sample_read where
  "sample_read \<equiv> read_start sample_env sample_read_side sample_config sample_query
     read_options_default sample_world"

lemma sample_read_returns:
  obtains res w sent where "sample_read = Some (res, w, sent)"
proof -
  have "sample_read \<noteq> None"
    by (rule read_start_returns)
      (simp_all add: sample_env_def sample_powi_nonneg read_options_default_def
        retry_policy_default_def secs_def nanos_per_sec_def)
  then show ?thesis using that by (cases sample_read) auto
qed

theorem delivered_rows_in_order_witness:
  "\<exists>res w sent rows. sample_read = Some (res, w, sent) \<and> delivers (result_rows res) rows
     \<and> list_all row_ok rows \<and> scan.in_order False (map row_key rows)"
proof -
  obtain res w sent where run: "sample_read = Some (res, w, sent)" by (rule sample_read_returns)
  from delivered_rows_in_order [OF run] run show ?thesis by (auto simp: sample_query_def)
qed



end
