(* ===== verification/Trace.thy ===== *)
theory Trace
  imports Telemetry
begin

text \<open>
  The protocol of the events: what an observer may expect of one sequence of attempts, that of a
  read or of one batch of a bulk write. A state machine follows the events; \<open>leads\<close> relates the
  worlds before and after a piece of code by the run of that machine on the events it adds, and
  each operation of \<open>Telemetry\<close> is one of its steps. It also keeps the order of time: the later
  world has read the clock at least as often.
\<close>

section \<open>The state machine\<close>

text \<open>
  Between attempts, in an attempt (whether it has had a response, and its entries), or after one
  (its status, and the entries it left), with the attempts and the retries so far.
\<close>

datatype Phase = Ready | InFlight bool nat | Over Code nat

type_synonym trace_state = "Phase \<times> u32 \<times> u32"

fun follow :: "BigtableOperation \<Rightarrow> nat option \<Rightarrow> trace_state \<Rightarrow> DiagnosticEvent \<Rightarrow> trace_state option" where
  "follow op b (Ready, n, r) (AttemptStarted op' b' a entries timeout) =
     (if op' = op \<and> b' = b \<and> a = n + 1 then Some (InFlight False entries, a, r) else None)"
| "follow op b (InFlight seen entries, n, r) (FirstResponse op' b' a el) =
     (if op' = op \<and> b' = b \<and> a = n \<and> \<not> seen then Some (InFlight True entries, n, r) else None)"
| "follow op b (InFlight seen entries, n, r) (AttemptFinished op' b' a code el rows successful failed) =
     (if op' = op \<and> b' = b \<and> a = n \<and> successful + failed = entries then Some (Over code failed, n, r)
      else None)"
| "follow op b (Over code failed, n, r) (RetryScheduled op' b' a code' delay pending) =
     (if op' = op \<and> b' = b \<and> a = n \<and> code' = code \<and> pending \<le> failed then Some (Ready, n, r + 1)
      else None)"
| "follow _ _ _ _ = None"

fun follow_all ::
    "BigtableOperation \<Rightarrow> nat option \<Rightarrow> trace_state \<Rightarrow> DiagnosticEvent list \<Rightarrow> trace_state option" where
  "follow_all op b s [] = Some s"
| "follow_all op b s (e # es) =
     (case follow op b s e of None \<Rightarrow> None | Some s \<Rightarrow> follow_all op b s es)"

lemma follow_all_append:
  "follow_all op b s es = Some s' \<Longrightarrow> follow_all op b s (es @ fs) = follow_all op b s' fs"
  by (induction es arbitrary: s) (auto split: option.splits)

text \<open>No attempt is in flight.\<close>

fun settled :: "trace_state \<Rightarrow> bool" where
  "settled (InFlight _ _, n, r) = False"
| "settled (_, n, r) = True"

fun event_batch :: "DiagnosticEvent \<Rightarrow> nat option" where
  "event_batch (OperationStarted _ _ _) = None"
| "event_batch (AttemptStarted _ b _ _ _) = b"
| "event_batch (FirstResponse _ b _ _) = b"
| "event_batch (RetryScheduled _ b _ _ _ _) = b"
| "event_batch (AttemptFinished _ b _ _ _ _ _ _) = b"
| "event_batch (OperationFinished _ _ _ _ _ _ _ _) = None"

lemma follow_event_batch: "follow op b s e = Some s' \<Longrightarrow> event_batch e = b"
  by (cases "(op, b, s, e)" rule: follow.cases) (auto split: if_splits)

lemma follow_all_event_batch: "follow_all op b s es = Some s' \<Longrightarrow> \<forall>e \<in> set es. event_batch e = b"
  by (induction es arbitrary: s) (auto split: option.splits dest: follow_event_batch)

fun is_attempt_start :: "DiagnosticEvent \<Rightarrow> bool" where
  "is_attempt_start (AttemptStarted _ _ _ _ _) = True"
| "is_attempt_start _ = False"

fun is_retry :: "DiagnosticEvent \<Rightarrow> bool" where
  "is_retry (RetryScheduled _ _ _ _ _ _) = True"
| "is_retry _ = False"

text \<open>The machine counts attempts and retries.\<close>

lemma follow_all_counts:
  "follow_all op b (p, n, r) es = Some (p', n', r') \<Longrightarrow>
     n' = n + of_nat (length (filter is_attempt_start es)) \<and> r' = r + of_nat (length (filter is_retry es))"
proof (induction es arbitrary: p n r)
  case (Cons e es)
  then obtain s where s: "follow op b (p, n, r) e = Some s" "follow_all op b s es = Some (p', n', r')"
    by (auto split: option.splits)
  obtain p1 n1 r1 where s1: "s = (p1, n1, r1)" by (cases s)
  have "n1 = n + (if is_attempt_start e then 1 else 0)" "r1 = r + (if is_retry e then 1 else 0)"
    using s(1) s1 by (cases "(op, b, (p, n, r), e)" rule: follow.cases; auto split: if_splits)+
  then show ?case using Cons.IH [OF s(2) [unfolded s1]] by simp
qed simp

text \<open>A retry follows every failed attempt but the last: one attempt more than retries, or as many.\<close>

lemma follow_all_one_more:
  assumes "follow_all op b (Ready, n, r) es = Some (p', n', r')"
  shows "n' - r' = (if p' = Ready then n - r else n - r + 1)"
proof -
  have "follow_all op b (p, n, r) es = Some (p', n', r') \<Longrightarrow>
      n' - r' + (if p' = Ready then 0 else - 1) = n - r + (if p = Ready then 0 else - 1)" for p n r
  proof (induction es arbitrary: p n r)
    case (Cons e es)
    then obtain s where s: "follow op b (p, n, r) e = Some s" "follow_all op b s es = Some (p', n', r')"
      by (auto split: option.splits)
    obtain p1 n1 r1 where s1: "s = (p1, n1, r1)" by (cases s)
    have "n1 - r1 + (if p1 = Ready then 0 else - 1) = n - r + (if p = Ready then 0 else - 1)"
      using s(1) s1 by (cases "(op, b, (p, n, r), e)" rule: follow.cases) (auto split: if_splits)
    then show ?case using Cons.IH [OF s(2) [unfolded s1]] by simp
  qed simp
  from this [OF assms] show ?thesis by (auto simp: algebra_simps split: if_splits)
qed

section \<open>Code that follows the machine\<close>

definition leads ::
    "BigtableOperation \<Rightarrow> nat option \<Rightarrow> trace_state \<Rightarrow> World \<Rightarrow> trace_state \<Rightarrow> World \<Rightarrow> bool" where
  "leads op b s w s' w' \<longleftrightarrow> w_operation w = op \<and> w_ticks w \<le> w_ticks w'
     \<and> w_attempts w' - fst (snd s') = w_attempts w - fst (snd s)
     \<and> w_retries w' - snd (snd s') = w_retries w - snd (snd s)
     \<and> (\<exists>es. appends w w' es \<and> follow_all op b s es = Some s')"

lemma leads_refl: "w_operation w = op \<Longrightarrow> leads op b s w s w"
  by (auto simp: leads_def intro!: exI [of _ "[]"] appends_refl)

lemma leads_trans:
  assumes "leads op b s w s1 w1" and "leads op b s1 w1 s' w'"
  shows "leads op b s w s' w'"
proof -
  obtain es fs where "appends w w1 es" "follow_all op b s es = Some s1"
    "appends w1 w' fs" "follow_all op b s1 fs = Some s'"
    using assms by (auto simp: leads_def)
  then have "appends w w' (es @ fs)" "follow_all op b s (es @ fs) = Some s'"
    using appends_trans by (auto simp: follow_all_append)
  then show ?thesis using assms by (auto simp: leads_def)
qed

lemma leads_operation: "leads op b s w s' w' \<Longrightarrow> w_operation w = op \<and> w_operation w' = op"
  by (auto simp: leads_def appends_def)

lemma leads_ticks: "leads op b s w s' w' \<Longrightarrow> w_ticks w \<le> w_ticks w'"
  by (simp add: leads_def)

text \<open>Steps that do not show, and steps that emit one event.\<close>

lemma leads_silent:
  assumes "leads op b s w s1 w1" and "appends w1 w' []"
    and "w_attempts w' = w_attempts w1" "w_retries w' = w_retries w1" "w_ticks w1 \<le> w_ticks w'"
  shows "leads op b s w s1 w'"
proof (rule leads_trans [OF assms(1)])
  show "leads op b s1 w1 s1 w'"
    using assms leads_operation [OF assms(1)] by (auto simp: leads_def intro!: exI [of _ "[]"])
qed

lemma leads_now: "leads op b s w s1 w1 \<Longrightarrow> now_instant clk w1 = (t, w') \<Longrightarrow> leads op b s w s1 w'"
  by (erule leads_silent) (auto simp: now_instant_def appends_def)

lemma leads_elapsed: "leads op b s w s1 w1 \<Longrightarrow> elapsed clk t0 w1 = (t, w') \<Longrightarrow> leads op b s w s1 w'"
  by (erule leads_silent) (auto simp: elapsed_def now_instant_def appends_def)

lemma leads_measured: "leads op b s w s1 w1 \<Longrightarrow> leads op b s w s1 (record_measurements ms w1)"
  by (erule leads_silent) (auto simp: record_measurements_def appends_def)

lemma leads_blocked: "leads op b s w s1 w1 \<Longrightarrow> leads op b s w s1 (application_blocked d w1)"
  unfolding application_blocked_def by (rule leads_measured)

lemma leads_emit:
  assumes "leads op b s w s1 w1" and "follow op b s1 e = Some s'"
    and "w_events w2 = w_events w1" "w_observer w2 = w_observer w1" "w_context w2 = w_context w1"
    and "w_ticks w2 = w_ticks w1"
    and "w_attempts w2 - fst (snd s') = w_attempts w1 - fst (snd s1)"
    and "w_retries w2 - snd (snd s') = w_retries w1 - snd (snd s1)"
  shows "leads op b s w s' (emit e w2)"
proof (rule leads_trans [OF assms(1)])
  have "appends w1 (emit e w2) [e]" using assms by (simp add: appends_def emit_def)
  then show "leads op b s1 w1 s' (emit e w2)"
    using assms leads_operation [OF assms(1)] by (auto simp: leads_def intro!: exI [of _ "[e]"])
qed

text \<open>The tracker of the attempt in flight.\<close>

definition tracks :: "nat option \<Rightarrow> trace_state \<Rightarrow> AttemptTracker \<Rightarrow> bool" where
  "tracks b s t \<longleftrightarrow> at_batch t = b \<and> at_attempt t = fst (snd s) \<and> \<not> at_finished t
     \<and> (\<exists>entries. fst s = InFlight (at_first_response t \<noteq> None) entries)"

lemma leads_attempt:
  assumes "leads op b s w (Ready, n, r) w1"
    and "handle_attempt clk b (n + 1) entries timeout w1 = (t, w')"
  shows "leads op b s w (InFlight False entries, n + 1, r) w' \<and> tracks b (InFlight False entries, n + 1, r) t"
proof -
  have "leads op b s w (InFlight False entries, n + 1, r)
      (emit (AttemptStarted (w_operation w1) b (n + 1) entries timeout) (w1\<lparr>w_attempts := w_attempts w1 + 1\<rparr>))"
    by (rule leads_emit [OF assms(1)]) (use leads_operation [OF assms(1)] in auto)
  then show ?thesis
    using assms(2) leads_now by (auto simp: handle_attempt_def Let_def tracks_def split: prod.splits)
qed

lemma leads_first_response:
  assumes "leads op b s w (InFlight seen entries, n, r) w1" and "tracks b (InFlight seen entries, n, r) t"
    and "first_response clk (t, w1) = (t', w')"
  shows "leads op b s w (InFlight True entries, n, r) w' \<and> tracks b (InFlight True entries, n, r) t'"
proof (cases "at_first_response t")
  case (Some d)
  then show ?thesis using assms by (auto simp: first_response_def tracks_def)
next
  case None
  obtain d w2 where el: "elapsed clk (at_started t) w1 = (d, w2)" by fastforce
  have step: "leads op b s w (InFlight seen entries, n, r) w2" by (rule leads_elapsed [OF assms(1) el])
  have "leads op b s w (InFlight True entries, n, r)
      (emit (FirstResponse (w_operation w2) (at_batch t) (at_attempt t) d) w2)"
    by (rule leads_emit [OF step]) (use leads_operation [OF step] None assms(2) in \<open>auto simp: tracks_def\<close>)
  then show ?thesis
    using assms(2,3) None el by (auto simp: first_response_def tracks_def)
qed

lemma leads_attempt_finish:
  assumes "leads op b s w (InFlight seen entries, n, r) w1" and "tracks b (InFlight seen entries, n, r) t"
    and "attempt_finish clk code summary (t, w1) = (t', w')"
    and "sum_successful_entries summary + sum_failed_entries summary = entries"
  shows "leads op b s w (Over code (sum_failed_entries summary), n, r) w'"
proof -
  obtain d w2 where el: "elapsed clk (at_started t) w1 = (d, w2)" by fastforce
  define w3 where "w3 = record_measurements
    (metrics_attempt_finished (w_context w2) code d (at_first_response t)) w2"
  have step: "leads op b s w (InFlight seen entries, n, r) w3"
    unfolding w3_def by (rule leads_measured [OF leads_elapsed [OF assms(1) el]])
  have "leads op b s w (Over code (sum_failed_entries summary), n, r)
      (emit (AttemptFinished (w_operation w3) (at_batch t) (at_attempt t) code d (sum_rows summary)
        (sum_successful_entries summary) (sum_failed_entries summary)) w3)"
    by (rule leads_emit [OF step]) (use leads_operation [OF step] assms(2,4) in \<open>auto simp: tracks_def\<close>)
  then show ?thesis
    using assms(2,3) el by (auto simp: attempt_finish_def attempt_record_finish_def tracks_def w3_def Let_def)
qed

lemma leads_retry:
  assumes "leads op b s w (Over code failed, n, r) w1" and "pending \<le> failed"
  shows "leads op b s w (Ready, n, r + 1) (handle_retry b n code delay pending w1)"
  unfolding handle_retry_def Let_def
  by (rule leads_emit [OF assms(1)]) (use leads_operation [OF assms(1)] assms(2) in auto)

lemma word_of_unat: "unat a = k \<Longrightarrow> a = of_nat k"
  by (drule sym) simp

section \<open>The operation around the attempts\<close>

text \<open>What a new operation finds, and the event with which it ends.\<close>

lemma telemetry_operation_starts:
  assumes "telemetry_operation clk config op table entries w = (tracker, w1)"
  shows "w_operation w1 = op \<and> \<not> ot_finished tracker
    \<and> w_events w1 = w_events w @ (if w_observer w then [OperationStarted op table entries] else [])
    \<and> w_observer w1 = w_observer w \<and> w_attempts w1 = 0 \<and> w_retries w1 = 0"
  using assms by (auto simp: telemetry_operation_def Let_def now_instant_def emit_def)

abbreviation finish_event :: "World \<Rightarrow> Code \<Rightarrow> duration \<Rightarrow> Summary \<Rightarrow> DiagnosticEvent" where
  "finish_event w code el summary \<equiv> OperationFinished (w_operation w) code el (w_attempts w) (w_retries w)
     (sum_rows summary) (sum_successful_entries summary) (sum_failed_entries summary)"

lemma operation_record_finish_event:
  "\<exists>el. appends w (operation_record_finish clk t code summary w) [finish_event w code el summary]"
  by (auto simp: operation_record_finish_def elapsed_def now_instant_def record_measurements_def
      emit_def appends_def Let_def)

lemma operation_finish_event:
  assumes "operation_finish clk code summary (t, w) = (t', w')" and "\<not> ot_finished t"
  shows "ot_finished t' \<and> (\<exists>el. appends w w' [finish_event w code el summary])"
  using assms operation_record_finish_event [of w clk t code summary] by (auto simp: operation_finish_def)

lemma operation_drop_event:
  assumes "\<not> ot_finished t"
  shows "\<exists>el. appends w (operation_drop clk (t, w)) [finish_event w Cancelled el summary_default]"
  using assms operation_record_finish_event [of w clk t Cancelled summary_default]
  by (simp add: operation_drop_def)

text \<open>One run of the machine, from a world in which nothing has been counted.\<close>

abbreviation fresh :: trace_state where "fresh \<equiv> (Ready, 0, 0)"

lemma leads_fresh:
  assumes "leads op b fresh w s w'" and "w_attempts w = 0" "w_retries w = 0"
  shows "\<exists>es p. s = (p, w_attempts w', w_retries w') \<and> appends w w' es
    \<and> follow_all op b fresh es = Some (p, w_attempts w', w_retries w')"
  using assms by (cases s) (auto simp: leads_def)

end
