(* ===== verification/ReadTrace.thy ===== *)
theory ReadTrace
  imports ReadRuns Trace
begin

text \<open>
  What a read reports: the events of a whole read follow the protocol of \<open>Trace\<close>, and its one
  finish event agrees with the requests sent and with what the application received.
\<close>

section \<open>A read in progress\<close>

text \<open>
  From the world \<open>w0\<close> in which the operation started: it is still running with the machine in
  the given state, or it has reported its finish with the given code.
\<close>

definition runs :: "World \<Rightarrow> ReadOperation \<Rightarrow> World \<Rightarrow> trace_state \<Rightarrow> bool" where
  "runs w0 self w s \<longleftrightarrow> leads BigtableOperation.ReadRows None fresh w0 s w
     \<and> \<not> ot_finished (ro_telemetry self) \<and> fst (snd s) = ro_attempts self"

definition reported :: "World \<Rightarrow> World \<Rightarrow> u32 \<Rightarrow> Code \<Rightarrow> u64 \<Rightarrow> bool" where
  "reported w0 w n code rows \<longleftrightarrow> (\<exists>s w1 el. leads BigtableOperation.ReadRows None fresh w0 s w1
     \<and> settled s \<and> fst (snd s) = n
     \<and> appends w1 w [OperationFinished BigtableOperation.ReadRows code el (w_attempts w1)
         (w_retries w1) rows 0 0])"

definition closed :: "World \<Rightarrow> ReadOperation \<Rightarrow> World \<Rightarrow> Code \<Rightarrow> bool" where
  "closed w0 self w code \<longleftrightarrow> ot_finished (ro_telemetry self)
     \<and> reported w0 w (ro_attempts self) code (u64_of_i64 (ro_rows_returned self))"

lemma reportedI:
  assumes "leads BigtableOperation.ReadRows None fresh w0 s w" "settled s"
    and "appends w w' [OperationFinished BigtableOperation.ReadRows code el (w_attempts w) (w_retries w) rows 0 0]"
  shows "reported w0 w' (fst (snd s)) code rows"
  using assms unfolding reported_def by blast

lemma runs_leads: "runs w0 self w s \<Longrightarrow> leads BigtableOperation.ReadRows None fresh w0 s w"
  by (simp add: runs_def)

lemma runs_same:
  assumes "runs w0 self w s" and "leads BigtableOperation.ReadRows None fresh w0 s w'"
    and "ro_telemetry self' = ro_telemetry self" "ro_attempts self' = ro_attempts self"
  shows "runs w0 self' w' s"
  using assms by (simp add: runs_def)

lemma runs_now: "runs w0 self w s \<Longrightarrow> now_instant clk w = (t, w') \<Longrightarrow> runs w0 self w' s"
  unfolding runs_def by (blast intro: leads_now)

lemma runs_finish:
  assumes "runs w0 self w s" "settled s" and "read_finish x code self w = (self', w')"
  shows "closed w0 self' w' code"
proof -
  let ?summary = "summary_default\<lparr>sum_rows := u64_of_i64 (ro_rows_returned self)\<rparr>"
  obtain t' where fin: "operation_finish (x_clock x) code ?summary (ro_telemetry self, w) = (t', w')"
    and self': "self' = self\<lparr>ro_telemetry := t'\<rparr>"
    using assms(3) by (auto simp: read_finish_def split: prod.splits)
  have "w_operation w = BigtableOperation.ReadRows" using leads_operation [OF runs_leads [OF assms(1)]] by simp
  with operation_finish_event [OF fin] assms(1,2) show ?thesis
    using reportedI [of w0 s w w' code] by (auto simp: closed_def runs_def self' summary_default_def)
qed

lemmas runs_over_finish = runs_finish [where s = "(Over c k, n, r)" for c k n r, simplified]
lemmas runs_ready_finish = runs_finish [where s = "(Ready, n, r)" for n r, simplified]

lemma runs_remaining:
  assumes "runs w0 self w s" "settled s" and "remaining x self w = (res, self', w')"
  shows "case res of Inl _ \<Rightarrow> closed w0 self' w' Code.DeadlineExceeded | Inr _ \<Rightarrow> runs w0 self' w' s"
proof -
  obtain t w1 where now: "now_instant (x_clock x) w = (t, w1)" by fastforce
  note run = runs_now [OF assms(1) now]
  show ?thesis
  proof (cases "t < ro_deadline self")
    case True
    then show ?thesis using assms(3) now run by (auto simp: remaining_def)
  next
    case False
    then show ?thesis
      using assms(3) now runs_finish [OF run assms(2)] by (auto simp: remaining_def split: prod.splits)
  qed
qed

section \<open>Opening an attempt\<close>

lemma runs_open_pause:
  assumes run: "runs w0 self w (Over (st_code status) k, n, r)"
    and "open_pause x rd sender status self w = Some (res, self', w')"
  shows "case res of None \<Rightarrow> runs w0 self' w' (Ready, n, r + 1)
    | Some r \<Rightarrow> (\<exists>code. closed w0 self' w' code \<and> (\<forall>ok. r = Ok ok \<longrightarrow> ok = OpenCancelled \<and> code = Cancelled))"
proof (cases "\<not> is_retryable status \<or> ro_attempts self \<ge> max_attempts (ro_retry (ro_options self))")
  case True
  then show ?thesis
    using assms(2)
    by (auto simp: open_pause_def Let_def split: prod.splits) (blast intro: runs_over_finish [OF run])+
next
  case False
  obtain b where b: "backoff (x_powi x) (x_rand x (w_ticks w)) (ro_retry (ro_options self))
      (ro_attempts self) = Some b"
    using assms(2) False by (auto simp: open_pause_def Let_def split: option.splits)
  obtain left self1 w1 where rem: "remaining x self w = (left, self1, w1)" by (metis prod_cases3)
  note after = runs_remaining [OF run _ rem]
  note opens = assms(2) False b rem
  show ?thesis
  proof (cases left)
    case (Inl e)
    then show ?thesis using opens after by (auto simp: open_pause_def Let_def)
  next
    case (Inr d)
    let ?delay = "max b (case env_retry_delay x status of None \<Rightarrow> 0 | Some d \<Rightarrow> d)"
    have run1: "runs w0 self1 w1 (Over (st_code status) k, n, r)" using after Inr by simp
    have n: "ro_attempts self1 = n" using run1 by (simp add: runs_def)
    have "leads BigtableOperation.ReadRows None fresh w0 (Ready, n, r + 1)
        (handle_retry None n (st_code status) ?delay 0 w1)"
      by (rule leads_retry [OF runs_leads [OF run1]]) simp
    then have run2: "runs w0 self1 (handle_retry None n (st_code status) ?delay 0 w1) (Ready, n, r + 1)"
      using run1 by (simp add: runs_def)
    show ?thesis
    proof (cases "?delay \<ge> d")
      case True
      then show ?thesis
        using opens Inr
        by (auto simp: open_pause_def Let_def split: prod.splits) (blast intro: runs_over_finish [OF run1])+
    next
      case False
      then show ?thesis
        using opens Inr run2
        by (cases "sender \<and> rd_closed_sleeping rd n")
          (auto simp: n open_pause_def Let_def split: prod.splits intro: runs_ready_finish [OF run2])
    qed
  qed
qed

text \<open>What an opened attempt, a refused one and a returning \<open>open\<close> leave behind.\<close>

fun opens :: "World \<Rightarrow> (Error, OpenResult) result \<Rightarrow> ReadOperation \<Rightarrow> World \<Rightarrow> bool" where
  "opens w0 (Inr (Active a)) self w \<longleftrightarrow> (\<exists>n r. runs w0 self w (InFlight False 0, n, r)
     \<and> tracks None (InFlight False 0, n, r) (aa_telemetry a) \<and> aa_rows a = 0)"
| "opens w0 (Inr Complete) self w \<longleftrightarrow> closed w0 self w OkCode"
| "opens w0 (Inr OpenCancelled) self w \<longleftrightarrow> closed w0 self w Cancelled"
| "opens w0 (Inl _) self w \<longleftrightarrow> (\<exists>code. closed w0 self w code) \<or> (\<exists>n r. runs w0 self w (Ready, n, r))"

lemma runs_open_attempt:
  assumes run: "runs w0 self w (Ready, n, r)"
    and "open_attempt x rd sender self w sent = (res, self', w', sent')"
  shows "case res of Inl res \<Rightarrow> opens w0 res self' w'
    | Inr status \<Rightarrow> runs w0 self' w' (Over (st_code status) 0, n + 1, r)"
proof (cases "resume_request (ro_original self) (ro_progress self) (ro_rows_returned self)")
  case None
  then show ?thesis
    using assms(2) runs_finish [OF run] by (auto simp: open_attempt_def split: prod.splits)
next
  case (Some message)
  obtain left self1 w1 where rem: "remaining x self w = (left, self1, w1)" by (metis prod_cases3)
  note after = runs_remaining [OF run _ rem]
  show ?thesis
  proof (cases left)
    case (Inl e)
    then show ?thesis using assms(2) Some rem after by (auto simp: open_attempt_def)
  next
    case (Inr d)
    let ?timeout = "min (attempt_timeout (ro_deadlines (ro_options self1))) d"
    obtain t w2 where now: "now_instant (x_clock x) w1 = (t, w2)" by fastforce
    have run1: "runs w0 self1 w2 (Ready, n, r)" using after Inr runs_now [OF _ now] by simp
    show ?thesis
    proof (cases "checked_add x t ?timeout")
      case None
      then show ?thesis
        using assms(2) Some rem Inr now run1 by (auto simp: open_attempt_def)
    next
      case deadline: (Some dl)
      let ?self = "self1\<lparr>ro_attempts := n + 1\<rparr>"
      have n: "ro_attempts self1 = n" using run1 by (simp add: runs_def)
      obtain tr w3 where tr: "handle_attempt (x_clock x) None (n + 1) 0 ?timeout w2 = (tr, w3)" by fastforce
      have run2: "runs w0 ?self w3 (InFlight False 0, n + 1, r)"
        and tracks: "tracks None (InFlight False 0, n + 1, r) tr"
        using leads_attempt [OF runs_leads [OF run1] tr] run1 by (auto simp: runs_def)
      have ended: "runs w0 ?self w4 (Over code 0, n + 1, r)"
        if "attempt_finish (x_clock x) code summary_default (tr, w3) = (tr', w4)" for code tr' w4
        using leads_attempt_finish [OF runs_leads [OF run2] tracks that] run2
        by (simp add: runs_def summary_default_def)
      note facts = assms(2) Some rem Inr now deadline tr
      show ?thesis
      proof (cases "sender \<and> rd_closed_opening rd (n + 1)")
        case True
        obtain tr' w4 where fin: "attempt_finish (x_clock x) Cancelled summary_default (tr, w3) = (tr', w4)"
          by fastforce
        show ?thesis
          using facts True fin
          by (auto simp: n open_attempt_def Let_def split: prod.splits intro: runs_over_finish [OF ended [OF fin]])
      next
        case False
        have active: "opens w0 (Inr (Active \<lparr>aa_stream = items, aa_deadline = dl, aa_rows = 0,
            aa_telemetry = tr\<rparr>)) ?self w3" for items
          using run2 tracks by auto
        show ?thesis
          using facts False active
          by (auto simp: n open_attempt_def Let_def attempt_timeout_error_def simp del: opens.simps
              split: prod.splits ReadReply.splits if_splits intro: ended)
      qed
    qed
  qed
qed

text \<open>
  A request that keeps the deadlines: its timeout is not longer than the attempt timeout and,
  from a moment after the start of the operation, not longer than what is left of the operation.
\<close>

definition timely :: "Env \<Rightarrow> World \<Rightarrow> ReadOperation \<Rightarrow> bytes option \<times> i64 \<times> SentRead \<Rightarrow> bool" where
  "timely x w0 self = (\<lambda>(_, _, req).
     (0 < attempt_timeout (ro_deadlines (ro_options self)) \<longrightarrow> 0 < sr_timeout req)
   \<and> sr_timeout req \<le> attempt_timeout (ro_deadlines (ro_options self))
   \<and> (\<exists>k \<ge> w_ticks w0. x_clock x k + sr_timeout req \<le> ro_deadline self))"

lemma timely_cong:
  "\<lbrakk>ro_options self' = ro_options self; ro_deadline self' = ro_deadline self\<rbrakk>
   \<Longrightarrow> timely x w0 self' = timely x w0 self"
  by (simp add: timely_def)

lemma remaining_some:
  "remaining x self w = (Inr d, self', w') \<Longrightarrow>
     self' = self \<and> 0 < d \<and> x_clock x (w_ticks w) + d = ro_deadline self"
  by (auto simp: remaining_def now_instant_def Let_def split: if_splits prod.splits)

lemma open_attempt_timely:
  assumes run: "runs w0 self w s" and "list_all (timely x w0 self) sent"
    and "open_attempt x rd sender self w sent = (res, self', w', sent')"
  shows "list_all (timely x w0 self') sent'"
proof (cases "sent' = sent")
  case True
  have "timely x w0 self' = timely x w0 self"
    using open_attempt_only [OF assms(3)] by (auto intro!: timely_cong)
  then show ?thesis using assms(2) True by simp
next
  case False
  obtain message where message: "resume_request (ro_original self) (ro_progress self) (ro_rows_returned self)
      = Some message"
    using assms(3) False by (cases "resume_request (ro_original self) (ro_progress self) (ro_rows_returned self)")
      (auto simp: open_attempt_def split: prod.splits)
  obtain left self1 w1 where rem: "remaining x self w = (left, self1, w1)" by (metis prod_cases3)
  obtain d where d: "left = Inr d"
    using assms(3) False message rem by (cases left) (auto simp: open_attempt_def)
  note left = remaining_some [OF rem [unfolded d]]
  obtain t w2 where now: "now_instant (x_clock x) w1 = (t, w2)" by fastforce
  let ?timeout = "min (attempt_timeout (ro_deadlines (ro_options self))) d"
  obtain dl where dl: "checked_add x t ?timeout = Some dl"
    using assms(3) False message rem d left now
    by (cases "checked_add x t ?timeout") (auto simp: open_attempt_def)
  have "sent' = sent @ [(ro_progress self, ro_rows_returned self,
      \<lparr>sr_message = message, sr_routing = ro_routing self, sr_timeout = ?timeout\<rparr>)]"
    using assms(3) message rem d left now dl
    by (auto simp: open_attempt_def Let_def split: prod.splits if_splits ReadReply.splits)
  moreover have "ro_options self' = ro_options self" "ro_deadline self' = ro_deadline self"
    using open_attempt_only [OF assms(3)] by (auto dest: only_telemetryD(2,3))
  ultimately show ?thesis
    using assms(2) left leads_ticks [OF runs_leads [OF run]]
    by (auto simp: timely_def intro!: exI [of _ "w_ticks w"])
qed

text \<open>The state in which a turn of the loop of \<open>open\<close> begins.\<close>

definition turn_state :: "status option \<Rightarrow> trace_state \<Rightarrow> bool" where
  "turn_state failure s \<longleftrightarrow> (case failure of None \<Rightarrow> fst s = Ready
     | Some status \<Rightarrow> (\<exists>k. fst s = Over (st_code status) k))"

lemma turn_state_settled: "turn_state failure s \<Longrightarrow> settled s"
  by (cases s rule: settled.cases) (auto simp: turn_state_def split: option.splits)

lemma opened_keeps:
  assumes "opened self failure sent res self' sent'"
  shows "ro_options self' = ro_options self" "ro_deadline self' = ro_deadline self"
    "ro_rows_returned self' = ro_rows_returned self"
proof -
  obtain new :: read_sent where
    "only_telemetry (self\<lparr>ro_attempts := ro_attempts self + of_nat (length new)\<rparr>) self'"
    by (rule openedE [OF assms])
  from only_telemetryD [OF this]
  show "ro_options self' = ro_options self" "ro_deadline self' = ro_deadline self"
    "ro_rows_returned self' = ro_rows_returned self" by simp_all
qed

lemma runs_read_open:
  assumes "read_open x rd sender self failure w sent = Some (res, self', w', sent')"
    and "runs w0 self w s" and "turn_state failure s" and "list_all (timely x w0 self) sent"
  shows "opens w0 res self' w' \<and> list_all (timely x w0 self') sent'"
  using assms
proof (induction x rd sender self failure w sent arbitrary: s rule: read_open.induct)
  case (1 x rd sender self failure w sent)
  obtain t w1 where now: "now_instant (x_clock x) w = (t, w1)" by fastforce
  have run: "runs w0 self w1 s" by (rule runs_now [OF 1(3) now])
  show ?case
  proof (cases "t \<ge> ro_deadline self")
    case True
    obtain self1 w2 where fin: "read_finish x Code.DeadlineExceeded self w1 = (self1, w2)" by fastforce
    have "res = Err (deadline_error self1)" "self' = self1" "w' = w2" "sent' = sent"
      using 1(2) now True fin by (subst (asm) read_open.simps; simp)+
    moreover have "timely x w0 self1 = timely x w0 self"
      using only_telemetryD(2,3) [OF read_finish_only [OF fin]] by (rule timely_cong)
    ultimately show ?thesis
      using runs_finish [OF run turn_state_settled [OF 1(4)] fin] 1(5) by auto
  next
    case False
    let ?pause = "case failure of None \<Rightarrow> Some (None, self, w1)
        | Some status \<Rightarrow> open_pause x rd sender status self w1"
    obtain p self1 w2 where pause: "?pause = Some (p, self1, w2)"
      using 1(2) now False by (subst (asm) read_open.simps) (auto split: option.splits)
    have paused: "case p of None \<Rightarrow> \<exists>n r. runs w0 self1 w2 (Ready, n, r)
        | Some res \<Rightarrow> opens w0 res self1 w2"
    proof (cases failure)
      case None
      then show ?thesis using pause run 1(4) by (cases s) (auto simp: turn_state_def)
    next
      case (Some status)
      then obtain k n r where s: "s = (Over (st_code status) k, n, r)"
        using 1(4) by (cases s) (auto simp: turn_state_def)
      have "open_pause x rd sender status self w1 = Some (p, self1, w2)" using pause Some by simp
      from runs_open_pause [OF run [unfolded s] this] show ?thesis
        by (cases p; cases "the p") auto
    qed
    have same: "timely x w0 self1 = timely x w0 self"
      using pause open_pause_only [of x rd sender _ self w1 p self1 w2]
      by (cases failure) (auto intro!: timely_cong dest: only_telemetryD(2,3))
    have timely: "list_all (timely x w0 self1) sent" using 1(5) same by simp
    show ?thesis
    proof (cases p)
      case (Some res1)
      then have "res = res1" "self' = self1" "w' = w2" "sent' = sent"
        using 1(2) now False pause by (subst (asm) read_open.simps; simp)+
      then show ?thesis using paused Some timely by simp
    next
      case None
      then obtain n r where run1: "runs w0 self1 w2 (Ready, n, r)" using paused by auto
      obtain a self2 w3 sent2 where
        attempt: "open_attempt x rd sender self1 w2 sent = (a, self2, w3, sent2)" by (metis prod_cases4)
      note after = runs_open_attempt [OF run1 attempt]
      note timely2 = open_attempt_timely [OF run1 timely attempt]
      show ?thesis
      proof (cases a)
        case (Inl res1)
        then have "res = res1" "self' = self2" "w' = w3" "sent' = sent2"
          using 1(2) now False pause None attempt by (subst (asm) read_open.simps; simp)+
        then show ?thesis using after Inl timely2 by simp
      next
        case (Inr status)
        have rec: "read_open x rd sender self2 (Some status) w3 sent2 = Some (res, self', w', sent')"
          using 1(2) now False pause None attempt Inr by (subst (asm) read_open.simps) simp
        have "runs w0 self2 w3 (Over (st_code status) 0, n + 1, r)" using after Inr by simp
        then show ?thesis
          using 1(1) [OF refl now [symmetric] False pause refl None refl attempt [symmetric] Inr refl refl rec]
            timely2 by (simp add: turn_state_def)
      qed
    qed
  qed
qed

section \<open>The responses\<close>

abbreviation all_rows :: "delivered \<Rightarrow> bool" where
  "all_rows out \<equiv> list_all (\<lambda>r. \<not> isl r) out"

text \<open>Delivering rows is silent, and rows are counted as they are delivered.\<close>

lemma runs_handle_chunks:
  assumes "handle_chunks x rd self chunks w out = (res, self', w', out')" and "runs w0 self w s"
  shows "runs w0 self' w' s \<and> (res = Ok True \<longrightarrow>
    int (length out') - ro_rows_returned self' = int (length out) - ro_rows_returned self)"
  using assms
proof (induction x rd self chunks w out rule: handle_chunks.induct)
  case (2 x rd self chunk chunks w out)
  obtain p m where push: "push (ro_merger self) chunk = (p, m)" by fastforce
  consider (issue) e where "p = Inl e" | (none) "p = Inr None" | (row) r where "p = Inr (Some r)"
    by (cases p; cases "projr p") auto
  then show ?case
  proof cases
    case issue
    then show ?thesis using 2(3,4) push by (auto simp: runs_def)
  next
    case none
    have "runs w0 (self\<lparr>ro_merger := m\<rparr>) w s" using 2(4) by (simp add: runs_def)
    moreover have "handle_chunks x rd (self\<lparr>ro_merger := m\<rparr>) chunks w out = (res, self', w', out')"
      using 2(3) push none by simp
    ultimately show ?thesis using 2(1) [OF push [symmetric] none refl] by auto
  next
    case (row r)
    let ?self = "self\<lparr>ro_merger := m, ro_rows_returned := ro_rows_returned self + 1,
        ro_progress := Some (row_key r)\<rparr>"
    obtain b w1 where b: "now_instant (x_clock x) w = (b, w1)" by fastforce
    obtain d w2 where d: "elapsed (x_clock x) b w1 = (d, w2)" by fastforce
    have run: "runs w0 ?self (application_blocked d w2) s"
      using 2(4) leads_blocked [OF leads_elapsed [OF leads_now [OF runs_leads [OF 2(4)] b] d]]
      by (simp add: runs_def)
    show ?thesis
    proof (cases "rd_takes rd (length out)")
      case True
      have "handle_chunks x rd ?self chunks (application_blocked d w2) (out @ [Inr r]) = (res, self', w', out')"
        using 2(3) push row b d True by simp
      then show ?thesis
        using 2(2) [OF push [symmetric] row refl refl refl b [symmetric] refl refl refl d [symmetric] refl _ _ run]
          True by simp
    next
      case False
      then show ?thesis using 2(3) push row b d run by auto
    qed
  qed
qed simp

lemma runs_handle_response:
  assumes "handle_response x rd self response w out = (res, self', w', out')" and "runs w0 self w s"
  shows "runs w0 self' w' s \<and> (res = Ok True \<longrightarrow>
    int (length out') - ro_rows_returned self' = int (length out) - ro_rows_returned self)"
proof (cases "rsp_last_scanned_row_key response = []")
  case True
  then show ?thesis using assms runs_handle_chunks by (simp add: handle_response_def)
next
  case False
  obtain s1 m where mark: "scan_marker (ro_merger self) (rsp_last_scanned_row_key response) = (s1, m)"
    by fastforce
  let ?self = "self\<lparr>ro_merger := m, ro_progress := Some (rsp_last_scanned_row_key response)\<rparr>"
  have "runs w0 ?self w s" "runs w0 (self\<lparr>ro_merger := m\<rparr>) w s" using assms(2) by (simp_all add: runs_def)
  then show ?thesis
    using assms(1) False mark runs_handle_chunks [of x rd ?self "rsp_chunks response" w out res self' w' out' w0 s]
    by (cases s1) (auto simp: handle_response_def)
qed

lemma runs_active_finish:
  assumes "runs w0 self w (InFlight seen 0, n, r)" and "tracks None (InFlight seen 0, n, r) (aa_telemetry active)"
    and "active_finish x code active w = (active', w')"
  shows "runs w0 self w' (Over code 0, n, r)"
proof -
  obtain t' where "attempt_finish (x_clock x) code (summary_default\<lparr>sum_rows := aa_rows active\<rparr>)
      (aa_telemetry active, w) = (t', w')"
    using assms(3) by (auto simp: active_finish_def split: prod.splits)
  from leads_attempt_finish [OF runs_leads [OF assms(1)] assms(2) this] show ?thesis
    using assms(1) by (simp add: runs_def summary_default_def)
qed

section \<open>The task\<close>

text \<open>How a read that has delivered \<open>out\<close> ends.\<close>

definition ends :: "World \<Rightarrow> ReadOperation \<Rightarrow> World \<Rightarrow> delivered \<Rightarrow> bool" where
  "ends w0 self w out \<longleftrightarrow>
     (\<exists>code. closed w0 self w code \<and> (all_rows out \<longrightarrow>
        code = Cancelled \<or> code = OkCode \<and> ro_rows_returned self = int (length out)))
   \<or> (\<exists>n r. runs w0 self w (Ready, n, r)) \<and> \<not> all_rows out"

lemma ends_finish:
  assumes "runs w0 self w (InFlight seen 0, n, r)" and "tracks None (InFlight seen 0, n, r) (aa_telemetry active)"
    and "active_finish x code active w = (active', w1)" and "read_finish x code' self w1 = (self', w')"
    and "all_rows out \<Longrightarrow> code' = Cancelled \<or> code' = OkCode \<and> ro_rows_returned self = int (length out)"
  shows "ends w0 self' w' out"
proof -
  have "closed w0 self' w' code'"
    by (rule runs_finish [OF runs_active_finish [OF assms(1-3)] _ assms(4)]) simp
  moreover have "ro_rows_returned self' = ro_rows_returned self"
    using only_telemetryD(5) [OF read_finish_only [OF assms(4)]] .
  ultimately show ?thesis using assms(5) by (auto simp: ends_def)
qed

lemma runs_read_items:
  assumes "read_items x rd self active items w out = (res, self', w', out')"
    and "runs w0 self w (InFlight seen 0, n, r)" and "tracks None (InFlight seen 0, n, r) (aa_telemetry active)"
    and "ro_rows_returned self = int (length out)"
  shows "case res of TaskEnds \<Rightarrow> ends w0 self' w' out'
    | AttemptFails status \<Rightarrow> runs w0 self' w' (Over (st_code status) 0, n, r)
        \<and> ro_rows_returned self' = int (length out')"
  using assms
proof (induction x rd self active items w out arbitrary: seen rule: read_items.induct)
  case (1 x rd self active w out)
  obtain active1 w1 where fin: "active_finish x OkCode active w = (active1, w1)" by fastforce
  note ended = ends_finish [OF 1(2,3) fin]
  show ?case
    using 1(1,4) fin by (auto split: sum.splits prod.splits intro: ended)
next
  case (2 x rd self active items w out)
  obtain active1 w1 where fin: "active_finish x Cancelled active w = (active1, w1)" by fastforce
  note ended = ends_finish [OF 2(2,3) fin]
  show ?case using 2(1,4) fin by (auto split: prod.splits intro: ended)
next
  case (3 x rd self active status items w out)
  then show ?case
    using runs_active_finish [OF 3(2,3)] by (auto simp: runs_def split: prod.splits)
next
  case (4 x rd self active items w out)
  then show ?case
    using runs_active_finish [OF 4(2,3)] by (auto simp: runs_def attempt_timeout_error_def split: prod.splits)
next
  case (5 x rd self active response items w out)
  obtain t w1 where t: "first_response (x_clock x) (aa_telemetry active, w) = (t, w1)" by fastforce
  have run1: "runs w0 self w1 (InFlight True 0, n, r)" and tr: "tracks None (InFlight True 0, n, r) t"
    using leads_first_response [OF runs_leads [OF 5(3)] 5(4) t] 5(3) by (auto simp: runs_def)
  obtain res1 self1 w2 out1 where
    h: "handle_response x rd self response w1 out = (res1, self1, w2, out1)" by (metis prod_cases4)
  have run2: "runs w0 self1 w2 (InFlight True 0, n, r)"
    and rows: "res1 = Ok True \<Longrightarrow> ro_rows_returned self1 = int (length out1)"
    using runs_handle_response [OF h run1] 5(5) by auto
  have ended: "ends w0 self4 w4 out2" if "active_finish x code (active\<lparr>aa_telemetry := t\<rparr>) w2 = (active3, w3)"
      "read_finish x code' self1 w3 = (self4, w4)" "all_rows out2 \<Longrightarrow> code' = Cancelled"
    for code active3 w3 code' self4 w4 out2
    using ends_finish [OF run2 _ that(1,2)] tr that(3) by simp
  consider (error) e where "res1 = Inl e" | (go_on) "res1 = Inr True" | (gone) "res1 = Inr False"
    by (cases res1) auto
  then show ?case
  proof cases
    case go_on
    let ?active = "active\<lparr>aa_telemetry := t, aa_rows := sat_add64 (aa_rows active)
        (u64_of_i64 (ro_rows_returned self1 - ro_rows_returned self))\<rparr>"
    show ?thesis
    proof (cases "limit_reached self1")
      case True
      then show ?thesis
        using 5(2) t h go_on tr rows [OF go_on] ends_finish [OF run2, of ?active]
        by (auto simp: Let_def split: prod.splits)
    next
      case False
      have "read_items x rd self1 ?active items w2 out1 = (res, self', w', out')"
        using 5(2) t h go_on False by (simp add: Let_def)
      then show ?thesis
        using 5(1) [OF refl t [symmetric] refl refl h [symmetric] go_on refl refl refl refl False, of True]
          run2 tr rows [OF go_on] by simp
    qed
  qed (use 5(2) t h in \<open>auto simp: Let_def split: prod.splits intro: ended\<close>)
qed

lemma runs_read_run:
  assumes "read_run x rd self active w sent out = Some (self', w', sent', out')"
    and "runs w0 self w (InFlight False 0, n, r)" and "tracks None (InFlight False 0, n, r) (aa_telemetry active)"
    and "ro_rows_returned self = int (length out)" and "attempts_inv self sent"
    and "list_all (timely x w0 self) sent"
  shows "ends w0 self' w' out' \<and> attempts_inv self' sent' \<and> list_all (timely x w0 self) sent'"
  using assms
proof (induction x rd self active w sent out arbitrary: n r rule: read_run.induct)
  case (1 x rd self active w sent out)
  obtain e self1 w1 out1 where
    items: "read_items x rd self active (aa_stream active) w out = (e, self1, w1, out1)"
    by (metis prod_cases4)
  note after = runs_read_items [OF items 1(3,4,5)]
  have inv1: "attempts_inv self1 sent" and cong1: "timely x w0 self1 = timely x w0 self"
    using read_items_same [OF items] 1(6) timely_cong [of self1 self]
    by (simp_all add: same_request_def attempts_inv_def)
  have timely1: "list_all (timely x w0 self1) sent" using 1(7) cong1 by simp
  show ?case
  proof (cases e)
    case TaskEnds
    then show ?thesis
      using 1(2) items after inv1 1(7) by (subst (asm) read_run.simps) auto
  next
    case (AttemptFails status)
    then have run1: "runs w0 self1 w1 (Over (st_code status) 0, n, r)"
      and rows: "ro_rows_returned self1 = int (length out1)" using after by simp_all
    obtain res self2 w2 sent2 where
      op: "read_open x rd True self1 (Some status) w1 sent = Some (res, self2, w2, sent2)"
      using 1(2) items AttemptFails by (subst (asm) read_run.simps) (auto split: option.splits)
    have opened: "opens w0 res self2 w2" and timely2: "list_all (timely x w0 self2) sent2"
      using runs_read_open [OF op run1 _ timely1] by (simp_all add: turn_state_def)
    have cong2: "timely x w0 self2 = timely x w0 self"
      using timely_cong [OF opened_keeps(1,2) [OF read_open_opened [OF op]]] cong1 by simp
    have inv2: "attempts_inv self2 sent2" using opened_attempts [OF read_open_opened [OF op] inv1] by simp
    have rows2: "ro_rows_returned self2 = int (length out1)"
      using opened_keeps(3) [OF read_open_opened [OF op]] rows by simp
    show ?thesis
    proof (cases "\<exists>a. res = Inr (Active a)")
      case True
      then obtain a where a: "res = Inr (Active a)" by blast
      have rec: "read_run x rd self2 a w2 sent2 out1 = Some (self', w', sent', out')"
        using 1(2) items AttemptFails op a by (subst (asm) read_run.simps) simp
      obtain n' r' where "runs w0 self2 w2 (InFlight False 0, n', r')"
        "tracks None (InFlight False 0, n', r') (aa_telemetry a)" using opened a by auto
      from 1(1) [OF items [symmetric] AttemptFails refl refl op refl a refl refl refl rec this rows2 inv2 timely2] cong2
      show ?thesis by simp
    next
      case False
      then have "self' = self2 \<and> w' = w2 \<and> sent' = sent2 \<and> out' = (case res of Inl error \<Rightarrow> out1 @ [Inl error] | Inr _ \<Rightarrow> out1)"
        using 1(2) items AttemptFails op
        by (subst (asm) read_run.simps) (auto split: sum.splits OpenResult.splits)
      then show ?thesis
        using opened False rows2 inv2 timely2 cong2
        by (cases "(w0, res, self2, w2)" rule: opens.cases) (auto simp: ends_def)
    qed
  qed
qed

section \<open>The whole read\<close>

lemma attempts_count: "attempts_inv self sent \<Longrightarrow> ro_attempts self = of_nat (length sent)"
  by (simp add: attempts_inv_def word_of_unat)

lemma closed_drop: "closed w0 self w code \<Longrightarrow> operation_drop clk (ro_telemetry self, w) = w"
  by (simp add: closed_def operation_drop_def)

lemma runs_drop:
  assumes "runs w0 self w s" and "settled s"
  shows "reported w0 (operation_drop clk (ro_telemetry self, w)) (ro_attempts self) Cancelled 0"
  using assms operation_drop_event [of "ro_telemetry self" w clk] leads_operation [OF runs_leads [OF assms(1)]]
    reportedI [of w0 s w _ Cancelled]
  by (auto simp: runs_def summary_default_def)

text \<open>How the log of a read that was not refused ends, given what it returned.\<close>

definition read_reported :: "World \<Rightarrow> World \<Rightarrow> u32 \<Rightarrow> (Error, delivered) result \<Rightarrow> bool" where
  "read_reported w0 w n res \<longleftrightarrow> (\<exists>code rows. reported w0 w n code rows
     \<and> (\<forall>out. res = Ok out \<and> all_rows out \<longrightarrow>
          code = Cancelled \<or> code = OkCode \<and> rows = of_nat (length out)))"

lemma ends_reported:
  assumes "ends w0 self w out" and "w' = operation_drop clk (ro_telemetry self, w)"
  shows "read_reported w0 w' (ro_attempts self) (Ok out)"
  using assms closed_drop [of w0 self w] runs_drop [of w0 self w]
  by (fastforce simp: ends_def read_reported_def closed_def u64_of_i64_def)

lemma opens_reported:
  assumes "opens w0 res self w" and "\<forall>a. res \<noteq> Inr (Active a)" and "ro_rows_returned self = 0"
  shows "read_reported w0 (operation_drop clk (ro_telemetry self, w)) (ro_attempts self)
    (case res of Inl error \<Rightarrow> Err error | Inr _ \<Rightarrow> Ok [])"
  using assms closed_drop [of w0 self w] runs_drop [of w0 self w]
  by (cases "(w0, res, self, w)" rule: opens.cases)
    (fastforce simp: read_reported_def closed_def u64_of_i64_def)+

lemma runs_new:
  assumes "telemetry_operation clk config BigtableOperation.ReadRows table entries w = (tracker, w1)"
  shows "runs w1 (read_operation_new original routing options deadline tracker) w1 fresh"
  using telemetry_operation_starts [OF assms]
  by (simp add: runs_def read_operation_new_def leads_refl)

lemma reported_events:
  assumes "reported w0 w n code rows" and "w_observer w0" "w_attempts w0 = 0" "w_retries w0 = 0"
  shows "\<exists>body p r el. w_events w = w_events w0 @ body
      @ [OperationFinished BigtableOperation.ReadRows code el n r rows 0 0]
    \<and> follow_all BigtableOperation.ReadRows None fresh body = Some (p, n, r) \<and> settled (p, n, r)"
  using assms by (fastforce simp: reported_def leads_def appends_def)

text \<open>
  A request that keeps the deadlines of its read: it has a timeout, not longer than that of an
  attempt, and ends by the deadline of the operation if it is sent when the clock was read for it.
\<close>

definition sent_in_time :: "Env \<Rightarrow> World \<Rightarrow> ReadOptions \<Rightarrow> bytes option \<times> i64 \<times> SentRead \<Rightarrow> bool" where
  "sent_in_time x w options = (\<lambda>(_, _, req).
     0 < sr_timeout req \<and> sr_timeout req \<le> attempt_timeout (ro_deadlines options)
   \<and> (\<exists>k \<ge> w_ticks w. x_clock x k + sr_timeout req
        \<le> x_clock x (w_ticks w) + operation_timeout (ro_deadlines options)))"

lemma timely_in_time:
  assumes "list_all (timely x w1 self) sent" and "validate options = Ok ()" and "w_ticks w \<le> w_ticks w1"
    and "ro_options self = options"
    and "ro_deadline self = x_clock x (w_ticks w) + operation_timeout (ro_deadlines options)"
  shows "list_all (sent_in_time x w options) sent"
proof -
  have "0 < attempt_timeout (ro_deadlines options)"
    using assms(2) by (auto simp: validate_Ok validate_policies_Ok)
  then have "timely x w1 self r \<Longrightarrow> sent_in_time x w options r" for r
    using assms(3-5) by (cases r) (auto simp: timely_def sent_in_time_def intro: order_trans)
  then show ?thesis using assms(1) by (auto simp: list_all_iff)
qed

lemma read_start_reported:
  assumes "read_start x rd config query options w = Some (res, w', sent)"
  shows "list_all (sent_in_time x w options) sent
    \<and> ((w_events w' = w_events w \<and> sent = [] \<and> (\<exists>error. res = Err error))
    \<or> (\<exists>w0. w_events w0 = w_events w @ (if w_observer w
          then [OperationStarted BigtableOperation.ReadRows (q_table_id query) 0] else [])
        \<and> w_observer w0 = w_observer w \<and> w_attempts w0 = 0 \<and> w_retries w0 = 0
        \<and> read_reported w0 w' (of_nat (length sent)) res))"
  using assms
proof (cases rule: read_start_cases)
  case (refused error)
  then show ?thesis by simp
next
  case (unopened r routing deadline tracker w1 self' w2 w0)
  note opened = read_open_opened [OF unopened(3)]
  have "attempts_inv self' sent" and fields: "ro_options self' = options" "ro_deadline self' = deadline"
    using opened_attempts [OF opened] validate_read_limit [OF unopened(1)] opened_keeps [OF opened]
    by (simp_all add: attempts_inv_def)
  then have n: "ro_attempts self' = of_nat (length sent)" by (intro attempts_count)
  have "opens w1 r self' w2" and timely: "list_all (timely x w1 self') sent"
    using runs_read_open [OF unopened(3) runs_new [OF unopened(6)]] by (simp_all add: turn_state_def)
  moreover have "ro_rows_returned self' = 0"
    using opened_keeps(3) [OF opened] by simp
  ultimately have "read_reported w1 w' (of_nat (length sent)) res"
    using opens_reported [of w1 r self' w2] unopened(4,5,9) n by auto
  then show ?thesis
    using telemetry_operation_starts [OF unopened(6)] unopened(7,8)
      timely_in_time [OF timely unopened(1,11) fields(1)] fields(2) unopened(10)
    by (intro conjI disjI2 exI [of _ w1]) auto
next
  case (running active routing deadline tracker w1 self1 w2 sent1 self' w3 out w0)
  note opened = read_open_opened [OF running(3)]
  have rows: "ro_rows_returned self1 = int (length ([] :: delivered))"
    using opened_keeps(3) [OF opened] by simp
  have inv1: "attempts_inv self1 sent1" and fields: "ro_options self1 = options" "ro_deadline self1 = deadline"
    using opened_attempts [OF opened] validate_read_limit [OF running(1)] opened_keeps [OF opened]
    by (simp_all add: attempts_inv_def)
  have "opens w1 (Inr (Active active)) self1 w2" and timely1: "list_all (timely x w1 self1) sent1"
    using runs_read_open [OF running(3) runs_new [OF running(6)]] by (simp_all add: turn_state_def)
  then obtain n r where "runs w1 self1 w2 (InFlight False 0, n, r)"
    "tracks None (InFlight False 0, n, r) (aa_telemetry active)" by auto
  from runs_read_run [OF running(4) this rows inv1 timely1]
  have ends: "ends w1 self' w3 out" and timely: "list_all (timely x w1 self1) sent"
    and n: "ro_attempts self' = of_nat (length sent)" by (auto intro: attempts_count)
  have "read_reported w1 w' (of_nat (length sent)) res"
    using ends_reported [OF ends running(9)] running(5) n by simp
  then show ?thesis
    using telemetry_operation_starts [OF running(6)] running(7,8)
      timely_in_time [OF timely running(1,11) fields(1)] fields(2) running(10)
    by (intro conjI disjI2 exI [of _ w1]) auto
qed

section \<open>Properties\<close>





end
