(* ===== verification/ReadAnswers.thy ===== *)
theory ReadAnswers
  imports ReadRuns
begin

text \<open>
  Why a read ends: an error it reports is the deadline or what the service answered to the last
  request, and a read that ends without an error has all it asked for, or the service or the
  application ended it.
\<close>

section \<open>Answers\<close>

datatype StreamEnd = EndOfStream | Closed | Failed status

fun stream_end :: "ReadItem list \<Rightarrow> StreamEnd" where
  "stream_end [] = EndOfStream"
| "stream_end (Message _ # items) = stream_end items"
| "stream_end (ReadError status # _) = Failed status"
| "stream_end (ReadTimeout # _) = Failed attempt_timeout_error"
| "stream_end (ReceiverClosed # _) = Closed"

fun answer_fails :: "ReadReply \<Rightarrow> status \<Rightarrow> bool" where
  "answer_fails (Streaming items) status \<longleftrightarrow> stream_end items = Failed status"
| "answer_fails (Rejected s) status \<longleftrightarrow> status = s"
| "answer_fails NoReply status \<longleftrightarrow> status = attempt_timeout_error"

text \<open>The answer to the last request, the \<open>n\<close>-th.\<close>

definition last_answer :: "ReadSide \<Rightarrow> u32 \<Rightarrow> read_sent \<Rightarrow> ReadReply" where
  "last_answer rd n sent = rd_read_rows rd n (snd (snd (last sent)))"

text \<open>The errors of a read that has sent \<open>n\<close> requests.\<close>

definition attempt_error :: "ReadSide \<Rightarrow> ReadOptions \<Rightarrow> u32 \<Rightarrow> read_sent \<Rightarrow> Error \<Rightarrow> bool" where
  "attempt_error rd options n sent e \<longleftrightarrow>
     (\<exists>status. e = Error.ReadRows n status \<and> sent \<noteq> [] \<and> answer_fails (last_answer rd n sent) status
        \<and> (\<not> is_retryable status \<or> max_attempts (ro_retry options) \<le> n))
   \<or> e = ReadDeadlineExceeded n (operation_timeout (ro_deadlines options))
   \<or> e = invalid_read_policy ReadPolicyIssue.DeadlineTooLarge"

section \<open>Opening an attempt\<close>

definition open_reason ::
    "ReadSide \<Rightarrow> ReadOperation \<Rightarrow> (Error, OpenResult) result \<Rightarrow> ReadOperation \<Rightarrow> read_sent \<Rightarrow> bool" where
  "open_reason rd self res self' sent \<longleftrightarrow> (case res of
      Inl e \<Rightarrow> attempt_error rd (ro_options self) (ro_attempts self') sent e
    | Inr (Active a) \<Rightarrow> sent \<noteq> [] \<and> last_answer rd (ro_attempts self') sent = Streaming (aa_stream a)
    | Inr Complete \<Rightarrow> resume_request (ro_original self) (ro_progress self) (ro_rows_returned self) = None
    | Inr OpenCancelled \<Rightarrow> rd_closed_opening rd (ro_attempts self') \<or> rd_closed_sleeping rd (ro_attempts self'))"

lemma read_finish_attempts [simp]: "ro_attempts (fst (read_finish x code self w)) = ro_attempts self"
  by (simp add: read_finish_def split_beta)

lemma remaining_answer:
  "remaining x self w = (Inl e, self', w') \<Longrightarrow> e = deadline_error self \<and> ro_attempts self' = ro_attempts self"
  "remaining x self w = (Inr left, self', w') \<Longrightarrow> self' = self"
  by (auto simp: remaining_def deadline_error_def read_finish_def Let_def split: prod.splits if_splits)

lemma open_pause_reason:
  assumes "open_pause x rd sender status self w = Some (Some res, self', w')"
    and "sent \<noteq> []" "answer_fails (last_answer rd (ro_attempts self) sent) status"
  shows "open_reason rd self res self' sent"
proof -
  obtain r self1 w1 where rem: "remaining x self w = (r, self1, w1)" by (metis prod_cases3)
  have same: "ro_attempts self' = ro_attempts self" using open_pause_only [OF assms(1)] by auto
  show ?thesis
    using assms rem same remaining_answer [of x self w]
    by (cases r)
      (auto simp: open_pause_def open_reason_def attempt_error_def deadline_error_def Let_def
        dest!: read_finish_only split: if_splits option.splits prod.splits)
qed

lemma open_attempt_reason:
  assumes "open_attempt x rd sender self w sent = (r, self', w', sent')"
  shows "case r of
      Inl res \<Rightarrow> open_reason rd self res self' sent'
    | Inr status \<Rightarrow> sent' \<noteq> [] \<and> answer_fails (last_answer rd (ro_attempts self') sent') status"
proof (cases "resume_request (ro_original self) (ro_progress self) (ro_rows_returned self)")
  case None
  then show ?thesis using assms by (auto simp: open_attempt_def open_reason_def split: prod.splits)
next
  case (Some message)
  obtain r0 self1 w1 where rem: "remaining x self w = (r0, self1, w1)" by (metis prod_cases3)
  show ?thesis
  proof (cases r0)
    case (Inl e)
    then show ?thesis
      using assms Some rem remaining_answer(1) [OF rem [unfolded Inl]]
      by (auto simp: open_attempt_def open_reason_def attempt_error_def deadline_error_def)
  next
    case (Inr left)
    have [simp]: "ro_attempts (fst (read_finish x code s v)) = ro_attempts s" for code s v by simp
    show ?thesis
      using assms Some rem Inr remaining_answer(2) [OF rem [unfolded Inr]]
      by (auto simp: open_attempt_def open_reason_def attempt_error_def last_answer_def Let_def
          dest!: read_finish_only split: option.splits if_splits prod.splits ReadReply.splits)
  qed
qed

lemma open_attempt_fields:
  assumes "open_attempt x rd sender self w sent = (r, self', w', sent')"
  shows "ro_original self' = ro_original self" "ro_progress self' = ro_progress self"
    "ro_rows_returned self' = ro_rows_returned self" "ro_options self' = ro_options self"
proof -
  obtain s where s: "only_telemetry s self'" "s = self \<or> s = self\<lparr>ro_attempts := ro_attempts self + 1\<rparr>"
    using open_attempt_only [OF assms] by blast
  from only_telemetryD [OF s(1)] s(2) show "ro_original self' = ro_original self"
    "ro_progress self' = ro_progress self" "ro_rows_returned self' = ro_rows_returned self"
    "ro_options self' = ro_options self"
    by auto
qed

lemma read_open_reason:
  assumes "read_open x rd sender self failure w sent = Some (res, self', w', sent')"
    and "\<And>status. failure = Some status \<Longrightarrow> sent \<noteq> [] \<and> answer_fails (last_answer rd (ro_attempts self) sent) status"
  shows "open_reason rd self res self' sent'"
  using assms
proof (induction x rd sender self failure w sent rule: read_open.induct)
  case (1 x rd sender self failure w sent)
  obtain t w1 where now: "now_instant (x_clock x) w = (t, w1)" by fastforce
  show ?case
  proof (cases "t \<ge> ro_deadline self")
    case True
    then show ?thesis
      using 1(2) now
      by (subst (asm) read_open.simps)
        (auto simp: Let_def open_reason_def attempt_error_def deadline_error_def dest!: read_finish_only
          split: prod.splits)
  next
    case False
    let ?pause = "case failure of None \<Rightarrow> Some (None, self, w1)
        | Some status \<Rightarrow> open_pause x rd sender status self w1"
    obtain r self1 w2 where pause: "?pause = Some (r, self1, w2)"
      using 1(2) now False by (subst (asm) read_open.simps) (auto split: option.splits)
    have same: "only_telemetry self self1"
      using pause open_pause_only by (cases failure) auto
    show ?thesis
    proof (cases r)
      case (Some res1)
      then obtain status where f: "failure = Some status" using pause by (cases failure) auto
      have "res = res1" "self' = self1" "sent' = sent"
        using 1(2) now False pause Some by (subst (asm) read_open.simps; simp)+
      then show ?thesis
        using open_pause_reason [of x rd sender status self w1 res1 self1 w2 sent] pause Some f 1(3) [OF f] by simp
    next
      case None
      obtain a self2 w3 sent2 where
        attempt: "open_attempt x rd sender self1 w2 sent = (a, self2, w3, sent2)"
        by (metis prod_cases4)
      note answer = open_attempt_reason [OF attempt]
      have kept: "open_reason rd s r' self' sent' = open_reason rd self r' self' sent'"
        if "only_telemetry self s" for s r'
        unfolding open_reason_def only_telemetryD [OF that] by (rule refl)
      show ?thesis
      proof (cases a)
        case (Inl res1)
        then have "res = res1" "self' = self2" "sent' = sent2"
          using 1(2) now False pause None attempt by (subst (asm) read_open.simps; simp)+
        then show ?thesis using answer Inl kept [OF same] by simp
      next
        case (Inr status)
        have again: "read_open x rd sender self2 (Some status) w3 sent2 = Some (res, self', w', sent')"
          using 1(2) now False pause None attempt Inr by (subst (asm) read_open.simps) simp
        have fields: "ro_original self2 = ro_original self" "ro_progress self2 = ro_progress self"
          "ro_rows_returned self2 = ro_rows_returned self" "ro_options self2 = ro_options self"
          using open_attempt_fields [OF attempt] only_telemetryD [OF same] by simp_all
        have "open_reason rd self2 res self' sent'"
          using 1(1) [OF refl now [symmetric] _ pause refl None refl _ _ refl refl again] False attempt Inr answer
          by simp
        then show ?thesis unfolding open_reason_def fields .
      qed
    qed
  qed
qed

section \<open>The responses of an attempt\<close>

lemma handle_chunks_reason:
  assumes "handle_chunks x rd self chunks w out = (res, self', w', out')"
  shows "(\<exists>later. out' = out @ later) \<and> (case res of
      Inl e \<Rightarrow> \<exists>issue. e = InvalidReadRowsResponse issue
    | Inr taken \<Rightarrow> if taken
        then ro_progress self' = ro_progress self \<or> (\<exists>r. Inr r \<in> set out' \<and> ro_progress self' = Some (row_key r))
        else \<not> rd_takes rd (length out'))"
  using assms
proof (induction chunks arbitrary: self w out)
  case (Cons chunk chunks)
  obtain p m where push: "push (ro_merger self) chunk = (p, m)" by fastforce
  consider (issue) e where "p = Inl e" | (none) "p = Inr None" | (row) r where "p = Inr (Some r)"
    by (cases p; cases "projr p") auto
  then show ?case
  proof cases
    case none
    then show ?thesis
      using Cons.prems push Cons.IH [of "self\<lparr>ro_merger := m\<rparr>" w out] by (auto split: sum.splits)
  next
    case (row r)
    let ?self = "self\<lparr>ro_merger := m, ro_rows_returned := ro_rows_returned self + 1,
        ro_progress := Some (row_key r)\<rparr>"
    show ?thesis
    proof (cases "rd_takes rd (length out)")
      case True
      then obtain v where "handle_chunks x rd ?self chunks v (out @ [Inr r]) = (res, self', w', out')"
        using Cons.prems push row by (auto simp: Let_def split: prod.splits)
      from Cons.IH [OF this] show ?thesis by (auto split: sum.splits)
    next
      case False
      then show ?thesis using Cons.prems push row by (auto simp: Let_def split: prod.splits)
    qed
  qed (use Cons.prems push in auto)
qed auto

text \<open>A place a scan has reached: where it was, the key of a row, or a key the server has passed.\<close>

definition passed :: "ReadItem list \<Rightarrow> delivered \<Rightarrow> bytes option \<Rightarrow> bytes option \<Rightarrow> bool" where
  "passed items out p q \<longleftrightarrow> q = p \<or> (\<exists>r. Inr r \<in> set out \<and> q = Some (row_key r))
     \<or> (\<exists>response. Message response \<in> set items \<and> q = Some (rsp_last_scanned_row_key response))"

lemma handle_response_reason:
  assumes "handle_response x rd self response w out = (res, self', w', out')"
  shows "(\<exists>later. out' = out @ later) \<and> (case res of
      Inl e \<Rightarrow> \<exists>issue. e = InvalidReadRowsResponse issue
    | Inr taken \<Rightarrow> if taken then passed [Message response] out' (ro_progress self) (ro_progress self')
        else \<not> rd_takes rd (length out'))"
proof (cases "rsp_last_scanned_row_key response = []")
  case True
  then have "handle_chunks x rd self (rsp_chunks response) w out = (res, self', w', out')"
    using assms by (simp add: handle_response_def)
  from handle_chunks_reason [OF this] show ?thesis by (auto simp: passed_def split: sum.splits)
next
  case False
  obtain s m where mark: "scan_marker (ro_merger self) (rsp_last_scanned_row_key response) = (s, m)" by fastforce
  show ?thesis
  proof (cases s)
    case (Inl issue)
    then show ?thesis using assms False mark by (auto simp: handle_response_def)
  next
    case (Inr u)
    then have "handle_chunks x rd (self\<lparr>ro_merger := m, ro_progress := Some (rsp_last_scanned_row_key response)\<rparr>)
        (rsp_chunks response) w out = (res, self', w', out')"
      using assms False mark by (simp add: handle_response_def)
    from handle_chunks_reason [OF this] show ?thesis by (auto simp: passed_def split: sum.splits)
  qed
qed

lemma passed_trans:
  "\<lbrakk>passed [item] out p q; passed items out' q q'; out' = out @ later\<rbrakk> \<Longrightarrow> passed (item # items) out' p q'"
  by (auto simp: passed_def)

text \<open>Why the loop over the responses is left, after it has delivered \<open>rows\<close>.\<close>

definition items_reason :: "ReadSide \<Rightarrow> ReadRowsRequest \<Rightarrow> ReadItem list \<Rightarrow> delivered \<Rightarrow> bool" where
  "items_reason rd original items out \<longleftrightarrow> (\<exists>rows. (\<exists>issue. out = map Inr rows @ [Inl (InvalidReadRowsResponse issue)])
     \<or> (out = map Inr rows \<and> (stream_end items = EndOfStream \<or> stream_end items = Closed
         \<or> \<not> rd_takes rd (length rows)
         \<or> (0 < rr_rows_limit original \<and> rr_rows_limit original \<le> int (length rows)))))"

lemma read_items_reason:
  assumes "read_items x rd self active items w (map Inr rows) = (res, self', w', out')"
    and "read_inv self sent rows" and "ro_rows_returned self = int (length rows)"
  shows "case res of
      AttemptFails status \<Rightarrow> stream_end items = Failed status
        \<and> passed items out' (ro_progress self) (ro_progress self') \<and> (\<exists>later. out' = map Inr rows @ later)
    | TaskEnds \<Rightarrow> items_reason rd (ro_original self) items out'"
  using assms
proof (induction items arbitrary: self active w rows)
  case Nil
  then show ?case
    by (auto simp: Let_def items_reason_def split: prod.splits sum.splits)
next
  case (Cons item items)
  show ?case
  proof (cases item)
    case (Message response)
    obtain t w1 where t: "first_response (x_clock x) (aa_telemetry active, w) = (t, w1)" by fastforce
    obtain res1 self1 w2 out1 where
      h: "handle_response x rd self response w1 (map Inr rows) = (res1, self1, w2, out1)"
      by (metis prod_cases4)
    obtain rows1 where rows1: "out1 = map Inr rows1" "read_inv self1 sent rows1"
      "res1 = Ok True \<longrightarrow> ro_rows_returned self1 = int (length rows1)"
      using handle_response_inv [OF h Cons.prems(2,3)] by blast
    note reason = handle_response_reason [OF h]
    have original: "ro_original self1 = ro_original self"
      using handle_response_same [OF h] by (simp add: same_request_def)
    consider (error) e where "res1 = Inl e" | (go_on) "res1 = Inr True" | (gone) "res1 = Inr False"
      by (cases res1) auto
    then show ?thesis
    proof cases
      case error
      then obtain issue where "e = InvalidReadRowsResponse issue" using reason by auto
      then have "out' = map Inr rows1 @ [Inl (InvalidReadRowsResponse issue)]" "res = TaskEnds"
        using Cons.prems(1) Message t h rows1(1) error by (auto simp: Let_def split: prod.splits)
      then show ?thesis by (auto simp: items_reason_def)
    next
      case gone
      then show ?thesis
        using Cons.prems(1) Message t h rows1(1) reason
        by (auto simp: Let_def items_reason_def split: prod.splits)
    next
      case go_on
      show ?thesis
      proof (cases "limit_reached self1")
        case True
        then show ?thesis
          using Cons.prems(1) Message t h go_on rows1 original
          by (auto simp: Let_def items_reason_def limit_reached_def split: prod.splits)
      next
        case False
        then obtain active1 where "read_items x rd self1 active1 items w2 (map Inr rows1) = (res, self', w', out')"
          using Cons.prems(1) Message t h go_on rows1(1) by (auto simp: Let_def)
        note rest = Cons.IH [OF this rows1(2)] 
        obtain later where later: "map Inr rows1 = (map Inr rows :: delivered) @ later" using reason rows1(1) by auto
        have here: "passed [item] out1 (ro_progress self) (ro_progress self1)"
          using reason go_on Message by simp
        show ?thesis
        proof (cases res)
          case TaskEnds
          then show ?thesis using rest rows1(3) go_on original Message by (simp add: items_reason_def)
        next
          case (AttemptFails status)
          then obtain later' where "out' = out1 @ later'" using rest rows1(1,3) go_on by auto
          then show ?thesis
            using rest rows1(1,3) go_on AttemptFails Message passed_trans [OF here] later by auto
        qed
      qed
    qed
  qed (use Cons.prems in \<open>auto simp: Let_def items_reason_def passed_def split: prod.splits\<close>)
qed

section \<open>The task\<close>

text \<open>A place the scan has reached over all answers: the \<open>k\<close>-th request got the \<open>k\<close>-th answer.\<close>

definition reached :: "ReadSide \<Rightarrow> read_sent \<Rightarrow> delivered \<Rightarrow> bytes option \<Rightarrow> bool" where
  "reached rd sent out q \<longleftrightarrow> q = None \<or> (\<exists>r. Inr r \<in> set out \<and> q = Some (row_key r))
     \<or> (\<exists>k < length sent. \<exists>items response. rd_read_rows rd (of_nat (Suc k)) (snd (snd (sent ! k))) = Streaming items
          \<and> Message response \<in> set items \<and> q = Some (rsp_last_scanned_row_key response))"

lemma reached_more: "reached rd sent out q \<Longrightarrow> reached rd (sent @ later) (out @ later') q"
  unfolding reached_def by (auto simp: nth_append)

lemma reached_passed:
  assumes "reached rd sent out p" and "passed items out' p q" and "out' = out @ later"
    and "sent \<noteq> []" "last_answer rd (of_nat (length sent)) sent = Streaming items"
  shows "reached rd sent out' q"
proof -
  have "rd_read_rows rd (of_nat (Suc (length sent - 1))) (snd (snd (sent ! (length sent - 1)))) = Streaming items"
    "length sent - 1 < length sent"
    using assms(4,5) by (simp_all add: last_answer_def last_conv_nth del: of_nat_Suc)
  moreover have "reached rd sent out' p" using reached_more [OF assms(1), of "[]" later] assms(3) by simp
  ultimately show ?thesis using assms(2) unfolding passed_def reached_def by blast
qed

text \<open>
  Why a read that has sent the requests \<open>sent\<close> and delivered the rows \<open>out\<close> ends without an error,
  and with which errors it may end.
\<close>

definition end_reason :: "ReadSide \<Rightarrow> ReadRowsRequest \<Rightarrow> read_sent \<Rightarrow> Row list \<Rightarrow> bool" where
  "end_reason rd original sent rows \<longleftrightarrow>
     rd_closed_opening rd (of_nat (length sent)) \<or> rd_closed_sleeping rd (of_nat (length sent))
   \<or> \<not> rd_takes rd (length rows)
   \<or> (\<exists>items. sent \<noteq> [] \<and> last_answer rd (of_nat (length sent)) sent = Streaming items
        \<and> (stream_end items = EndOfStream \<or> stream_end items = Closed))
   \<or> (0 < rr_rows_limit original \<and> rr_rows_limit original \<le> int (length rows))
   \<or> (\<exists>p. reached rd sent (map Inr rows) p \<and> resume_request original p (int (length rows)) = None)"

definition error_reason :: "ReadSide \<Rightarrow> ReadOptions \<Rightarrow> read_sent \<Rightarrow> Error \<Rightarrow> bool" where
  "error_reason rd options sent e \<longleftrightarrow> attempt_error rd options (of_nat (length sent)) sent e
     \<or> (\<exists>issue items. e = InvalidReadRowsResponse issue \<and> sent \<noteq> []
          \<and> last_answer rd (of_nat (length sent)) sent = Streaming items)"

definition task_reason :: "ReadSide \<Rightarrow> ReadRowsRequest \<Rightarrow> ReadOptions \<Rightarrow> read_sent \<Rightarrow> delivered \<Rightarrow> bool" where
  "task_reason rd original options sent out \<longleftrightarrow> (\<exists>rows.
     (out = map Inr rows \<and> end_reason rd original sent rows)
   \<or> (\<exists>e. out = map Inr rows @ [Inl e] \<and> error_reason rd options sent e))"

lemma attempts_number: "attempts_inv self sent \<Longrightarrow> ro_attempts self = of_nat (length sent)"
  by (auto simp: attempts_inv_def dest: sym)

lemma items_task:
  assumes "items_reason rd original items out" and "sent \<noteq> []"
    and "last_answer rd (of_nat (length sent)) sent = Streaming items"
  shows "task_reason rd original options sent out"
  using assms unfolding items_reason_def task_reason_def end_reason_def error_reason_def by blast

lemma open_task:
  assumes "open_reason rd self res self' sent" and "attempts_inv self' sent"
    and "ro_rows_returned self = int (length rows)" "reached rd sent (map Inr rows) (ro_progress self)"
    and "\<forall>a. res \<noteq> Inr (Active a)"
  shows "task_reason rd (ro_original self) (ro_options self) sent
    (map Inr rows @ (case res of Inl e \<Rightarrow> [Inl e] | Inr _ \<Rightarrow> []))"
proof (cases res)
  case (Inl e)
  then show ?thesis
    using assms(1) attempts_number [OF assms(2)]
    by (auto simp: open_reason_def task_reason_def error_reason_def)
next
  case (Inr r)
  then have "end_reason rd (ro_original self) sent rows"
    using assms attempts_number [OF assms(2)]
    by (cases r) (auto simp: open_reason_def end_reason_def)
  then show ?thesis using Inr by (auto simp: task_reason_def)
qed

lemma opened_progress:
  assumes "opened self failure sent res self' sent'"
  obtains new where "sent' = sent @ new" "ro_progress self' = ro_progress self"
proof -
  obtain new :: read_sent where
    only: "only_telemetry (self\<lparr>ro_attempts := ro_attempts self + of_nat (length new)\<rparr>) self'"
    and "sent' = sent @ new"
    by (rule openedE [OF assms])
  with only_telemetryD(6) [OF only] show thesis using that by simp
qed

lemma read_run_reason:
  assumes "read_run x rd self active w sent (map Inr rows) = Some (self', w', sent', out')"
    and "read_inv self sent rows" and "ro_rows_returned self = int (length rows)"
    and "attempts_inv self sent" and "sent \<noteq> []"
    and "last_answer rd (of_nat (length sent)) sent = Streaming (aa_stream active)"
    and "reached rd sent (map Inr rows) (ro_progress self)"
  shows "task_reason rd (ro_original self) (ro_options self) sent' out'"
  using assms
proof (induction x rd self active w sent "map Inr rows :: delivered" arbitrary: rows rule: read_run.induct)
  case (1 x rd self active w sent)
  obtain e self1 w1 out1 where
    items: "read_items x rd self active (aa_stream active) w (map Inr rows) = (e, self1, w1, out1)"
    by (metis prod_cases4)
  note reason = read_items_reason [OF items 1(3,4)]
  obtain rows1 where rows1: "delivers out1 rows1" "read_inv self1 sent rows1"
    "\<And>status. e = AttemptFails status \<Longrightarrow>
       out1 = map Inr rows1 \<and> ro_rows_returned self1 = int (length rows1)"
    using read_items_inv [OF items 1(3,4)] by blast
  have same: "ro_original self1 = ro_original self" "ro_options self1 = ro_options self"
    "attempts_inv self1 sent"
    using read_items_same [OF items] 1(5) by (auto simp: same_request_def attempts_inv_def)
  show ?case
  proof (cases e)
    case TaskEnds
    then have "out' = out1" "sent' = sent"
      using 1(2) items by (subst (asm) read_run.simps; simp)+
    then show ?thesis using items_task [OF _ 1(6,7)] reason TaskEnds by simp
  next
    case (AttemptFails status)
    note rows1' = rows1(3) [OF AttemptFails]
    obtain later where ended: "stream_end (aa_stream active) = Failed status"
      "passed (aa_stream active) out1 (ro_progress self) (ro_progress self1)" "out1 = map Inr rows @ later"
      using reason AttemptFails by auto
    have reached1: "reached rd sent (map Inr rows1) (ro_progress self1)"
      using reached_passed [OF 1(8) ended(2,3) 1(6,7)] rows1' by simp
    obtain res self2 w2 sent2 where
      op: "read_open x rd True self1 (Some status) w1 sent = Some (res, self2, w2, sent2)"
      using 1(2) items AttemptFails by (subst (asm) read_run.simps) (auto split: option.splits)
    note opened = read_open_opened [OF op]
    have inv2: "read_inv self2 sent2 rows1" "ro_rows_returned self2 = int (length rows1)"
      "ro_original self2 = ro_original self" "attempts_inv self2 sent2" "ro_options self2 = ro_options self"
      using opened_inv [OF opened rows1(2)] opened_attempts [OF opened same(3)] rows1' same by simp_all
    have answered: "open_reason rd self1 res self2 sent2"
      by (rule read_open_reason [OF op]) (use 1(6,7) ended(1) attempts_number [OF same(3)] in simp)
    obtain new where new: "sent2 = sent @ new" "ro_progress self2 = ro_progress self1"
      by (rule opened_progress [OF opened])
    have reached2: "reached rd sent2 (map Inr rows1) (ro_progress self1)"
      using reached_more [OF reached1, of new "[]"] new(1) by simp
    show ?thesis
    proof (cases "\<exists>a. res = Inr (Active a)")
      case True
      then obtain a where a: "res = Inr (Active a)" by blast
      have "read_run x rd self2 a w2 sent2 (map Inr rows1) = Some (self', w', sent', out')"
        using 1(2) items AttemptFails op a rows1' by (subst (asm) read_run.simps) simp
      then show ?thesis
        using 1(1) [OF items [unfolded conjunct1 [OF rows1'], symmetric] AttemptFails refl refl op
            refl a refl refl refl] inv2 answered a attempts_number [OF inv2(4)] reached2 new(2)
        by (simp add: open_reason_def)
    next
      case False
      then have "sent' = sent2 \<and> out' = map Inr rows1 @ (case res of Inl e \<Rightarrow> [Inl e] | Inr _ \<Rightarrow> [])"
        using 1(2) items AttemptFails op rows1'
        by (subst (asm) read_run.simps) (auto split: sum.splits OpenResult.splits)
      then show ?thesis
        using open_task [OF answered inv2(4) conjunct2 [OF rows1'] reached2] False same by simp
    qed
  qed
qed

section \<open>Property\<close>



end
