(* ===== verification/Mutation.thy ===== *)
theory Mutation
  imports Config
begin

text \<open>
  \<open>mutation.rs\<close>: single mutations, row mutations and bulk mutations, their validation, and
  the test of retry safety, which is compared with what the mutations do to a row. The system
  clock is the parameter \<open>now\<close>, nanoseconds since the Unix epoch, negative before it. The
  payloads of aggregate mutations are never looked into and are kept as encoded bytes.
\<close>

section \<open>Mutations\<close>

definition max_family_name_chars :: nat where "max_family_name_chars = 64"
definition max_mutations_per_entry :: nat where "max_mutations_per_entry = 100000"
definition min_idempotency_token_bytes :: nat where "min_idempotency_token_bytes = 8"

record TimestampRange =
  start_timestamp_micros :: i64
  end_timestamp_micros :: i64

datatype ProtoMutation =
    SetCell string bytes i64 bytes  \<comment> \<open>family, qualifier, timestamp, value\<close>
  | AddToCell bytes
  | MergeToCell bytes
  | DeleteFromColumn string bytes "TimestampRange option"
  | DeleteFromFamily string
  | DeleteFromRow

record Mutation =
  mut_inner :: "ProtoMutation option"

definition current_timestamp_micros :: "int \<Rightarrow> (Error, i64) result" where
  "current_timestamp_micros now =
     (if now < 0 then Err (invalid_mutation ClockBeforeUnixEpoch)
      else
        let milliseconds = now div 1000000
        in if milliseconds > i64_max then Err (invalid_mutation ClockOutOfRange)
           else if milliseconds * 1000 > i64_max then Err (invalid_mutation ClockOutOfRange)
           else Ok (milliseconds * 1000))"

definition validate_row_key :: "bytes \<Rightarrow> (Error, unit) result" where
  "validate_row_key key =
     (if key = [] then Err (invalid_mutation MutationIssue.EmptyRowKey)
      else if length key > max_row_key_bytes then Err (invalid_mutation MutationIssue.RowKeyTooLong)
      else Ok ())"

definition valid_family_name :: "string \<Rightarrow> (Error, string) result" where
  "valid_family_name family_name =
     (if family_name = [] then Err (invalid_mutation EmptyFamilyName)
      else if chars_count family_name > max_family_name_chars
      then Err (invalid_mutation FamilyNameTooLong)
      else if \<not> list_all (\<lambda>byte. is_ascii_alphanumeric byte
                  \<or> byte = CHR ''-'' \<or> byte = CHR ''_'' \<or> byte = CHR ''.'') family_name
      then Err (invalid_mutation InvalidFamilyName)
      else Ok family_name)"

text \<open>Rust's remainder of a negative timestamp is not reached: negative ones are refused first.\<close>

definition validate_timestamp :: "i64 \<Rightarrow> (Error, unit) result" where
  "validate_timestamp timestamp_micros =
     (if timestamp_micros < 0 then Err (invalid_mutation NegativeTimestamp)
      else if timestamp_micros mod 1000 \<noteq> 0 then Err (invalid_mutation TimestampNotMillisecondAligned)
      else Ok ())"

definition mutation_new :: "ProtoMutation \<Rightarrow> Mutation" where
  "mutation_new m = \<lparr>mut_inner = Some m\<rparr>"

definition set_cell_at :: "string \<Rightarrow> bytes \<Rightarrow> i64 \<Rightarrow> bytes \<Rightarrow> (Error, Mutation) result" where
  "set_cell_at family_name column_qualifier timestamp_micros v =
     and_then (valid_family_name family_name) (\<lambda>family_name.
     and_then (validate_timestamp timestamp_micros) (\<lambda>_.
       Ok (mutation_new (SetCell family_name column_qualifier timestamp_micros v))))"

definition set_cell :: "int \<Rightarrow> string \<Rightarrow> bytes \<Rightarrow> bytes \<Rightarrow> (Error, Mutation) result" where
  "set_cell now family_name column_qualifier v =
     and_then (current_timestamp_micros now) (\<lambda>timestamp_micros.
       set_cell_at family_name column_qualifier timestamp_micros v)"

definition set_cell_at_server_time :: "string \<Rightarrow> bytes \<Rightarrow> bytes \<Rightarrow> (Error, Mutation) result" where
  "set_cell_at_server_time family_name column_qualifier v =
     and_then (valid_family_name family_name) (\<lambda>family_name.
       Ok (mutation_new (SetCell family_name column_qualifier (- 1) v)))"

definition delete_cells :: "string \<Rightarrow> bytes \<Rightarrow> (Error, Mutation) result" where
  "delete_cells family_name column_qualifier =
     and_then (valid_family_name family_name) (\<lambda>family_name.
       Ok (mutation_new (DeleteFromColumn family_name column_qualifier None)))"

definition delete_cells_in_range :: "string \<Rightarrow> bytes \<Rightarrow> i64 \<Rightarrow> i64 \<Rightarrow> (Error, Mutation) result" where
  "delete_cells_in_range family_name column_qualifier start_ts end_ts =
     and_then (valid_family_name family_name) (\<lambda>family_name.
     and_then (validate_timestamp start_ts) (\<lambda>_.
     and_then (validate_timestamp end_ts) (\<lambda>_.
       if start_ts \<ge> end_ts then Err (invalid_mutation InvalidTimestampRange)
       else Ok (mutation_new (DeleteFromColumn family_name column_qualifier
              (Some \<lparr>start_timestamp_micros = start_ts, end_timestamp_micros = end_ts\<rparr>))))))"

definition delete_family :: "string \<Rightarrow> (Error, Mutation) result" where
  "delete_family family_name =
     and_then (valid_family_name family_name) (\<lambda>family_name.
       Ok (mutation_new (DeleteFromFamily family_name)))"

definition delete_row :: Mutation where
  "delete_row = mutation_new DeleteFromRow"

definition from_proto :: "ProtoMutation option \<Rightarrow> (Error, Mutation) result" where
  "from_proto m =
     (if m = None then Err (invalid_mutation MissingOperation) else Ok \<lparr>mut_inner = m\<rparr>)"

definition mutation_is_retry_safe :: "Mutation \<Rightarrow> bool \<Rightarrow> bool" where
  "mutation_is_retry_safe self has_idempotency =
     (case mut_inner self of
        Some (SetCell _ _ timestamp_micros _) \<Rightarrow> timestamp_micros \<noteq> - 1
      | Some (DeleteFromColumn _ _ _) \<Rightarrow> True
      | Some (DeleteFromFamily _) \<Rightarrow> True
      | Some DeleteFromRow \<Rightarrow> True
      | Some (AddToCell _) \<Rightarrow> has_idempotency
      | Some (MergeToCell _) \<Rightarrow> has_idempotency
      | None \<Rightarrow> False)"

section \<open>Row mutations\<close>

record Timestamp =
  ts_seconds :: i64
  ts_nanos :: i32

record Idempotency =
  idem_token :: bytes
  idem_start_time :: "Timestamp option"

record RowMutation =
  rm_row_key :: bytes
  rm_mutations :: "Mutation list"
  rm_idempotency :: "Idempotency option"

record Entry =
  entry_row_key :: bytes
  entry_mutations :: "ProtoMutation option list"
  entry_idempotency :: "Idempotency option"

definition row_mutation_new :: "bytes \<Rightarrow> (Error, RowMutation) result" where
  "row_mutation_new key =
     and_then (validate_row_key key) (\<lambda>_.
       Ok \<lparr>rm_row_key = key, rm_mutations = [], rm_idempotency = None\<rparr>)"

definition add_mutation :: "RowMutation \<Rightarrow> Mutation \<Rightarrow> (Error, RowMutation) result" where
  "add_mutation self m =
     (if length (rm_mutations self) = max_mutations_per_entry
      then Err (invalid_mutation TooManyMutations)
      else Ok (self\<lparr>rm_mutations := rm_mutations self @ [m]\<rparr>))"

definition with_idempotency_token :: "int \<Rightarrow> RowMutation \<Rightarrow> bytes \<Rightarrow> (Error, RowMutation) result" where
  "with_idempotency_token now self token =
     (if length token < min_idempotency_token_bytes
      then Err (invalid_mutation IdempotencyTokenTooShort)
      else if now < 0 then Err (invalid_mutation ClockBeforeUnixEpoch)
      else
        let seconds = now div 1000000000; nanos = now mod 1000000000
        in if seconds > i64_max then Err (invalid_mutation ClockOutOfRange)
           else if nanos > i32_max then Err (invalid_mutation ClockOutOfRange)
           else Ok (self\<lparr>rm_idempotency :=
                  Some \<lparr>idem_token = token,
                        idem_start_time = Some \<lparr>ts_seconds = seconds, ts_nanos = nanos\<rparr>\<rparr>\<rparr>))"

definition row_is_empty :: "RowMutation \<Rightarrow> bool" where
  "row_is_empty self \<longleftrightarrow> rm_mutations self = []"

definition is_retry_safe :: "RowMutation \<Rightarrow> bool" where
  "is_retry_safe self \<longleftrightarrow>
     list_all (\<lambda>m. mutation_is_retry_safe m (rm_idempotency self \<noteq> None)) (rm_mutations self)"

definition into_proto :: "RowMutation \<Rightarrow> Entry" where
  "into_proto self =
     \<lparr>entry_row_key = rm_row_key self, entry_mutations = map mut_inner (rm_mutations self),
      entry_idempotency = rm_idempotency self\<rparr>"

section \<open>Bulk mutations\<close>

record BulkMutation =
  bm_table_id :: string
  bm_entries :: "RowMutation list"

definition bulk_new :: "string \<Rightarrow> (Error, BulkMutation) result" where
  "bulk_new table_id =
     and_then (map_err (\<lambda>issue. invalid_mutation (case issue of
                  TableIdIssue.Empty \<Rightarrow> MutationIssue.EmptyTableId
                | TableIdIssue.TooLong \<Rightarrow> MutationIssue.TableIdTooLong
                | ContainsSlash \<Rightarrow> MutationIssue.TableIdContainsSlash))
                (validate_table_id table_id)) (\<lambda>_.
       Ok \<lparr>bm_table_id = table_id, bm_entries = []\<rparr>)"

text \<open>\<open>push\<close> changes the bulk mutation in place: result and state, also on error.\<close>

definition bulk_push :: "BulkMutation \<Rightarrow> RowMutation \<Rightarrow> (Error, unit) result \<times> BulkMutation" where
  "bulk_push self entry =
     (if row_is_empty entry then (Err (invalid_mutation EmptyRowMutation), self)
      else (Ok (), self\<lparr>bm_entries := bm_entries self @ [entry]\<rparr>))"

definition bulk_entry :: "BulkMutation \<Rightarrow> RowMutation \<Rightarrow> (Error, BulkMutation) result" where
  "bulk_entry self entry =
     (let (r, self) = bulk_push self entry in and_then r (\<lambda>_. Ok self))"

definition into_parts :: "BulkMutation \<Rightarrow> string \<times> RowMutation list" where
  "into_parts self = (bm_table_id self, bm_entries self)"

section \<open>What the builders guarantee\<close>

text \<open>A mutation built here names a legal family and, with a client timestamp, a legal one.\<close>

definition family_name_ok :: "string \<Rightarrow> bool" where
  "family_name_ok f \<longleftrightarrow> valid_family_name f = Ok f"

definition timestamp_ok :: "i64 \<Rightarrow> bool" where
  "timestamp_ok t \<longleftrightarrow> 0 \<le> t \<and> t mod 1000 = 0"

fun proto_mutation_ok :: "ProtoMutation \<Rightarrow> bool" where
  "proto_mutation_ok (SetCell f q t v) \<longleftrightarrow> family_name_ok f \<and> (t = - 1 \<or> timestamp_ok t)"
| "proto_mutation_ok (DeleteFromColumn f q r) \<longleftrightarrow> family_name_ok f
     \<and> (case r of None \<Rightarrow> True
        | Some r \<Rightarrow> timestamp_ok (start_timestamp_micros r) \<and> timestamp_ok (end_timestamp_micros r)
            \<and> start_timestamp_micros r < end_timestamp_micros r)"
| "proto_mutation_ok (DeleteFromFamily f) \<longleftrightarrow> family_name_ok f"
| "proto_mutation_ok _ \<longleftrightarrow> True"

inductive mutation_built :: "Mutation \<Rightarrow> bool" where
  set_cell: "set_cell now f q v = Ok m \<Longrightarrow> mutation_built m"
| set_cell_at: "set_cell_at f q t v = Ok m \<Longrightarrow> mutation_built m"
| server_time: "set_cell_at_server_time f q v = Ok m \<Longrightarrow> mutation_built m"
| cells: "delete_cells f q = Ok m \<Longrightarrow> mutation_built m"
| in_range: "delete_cells_in_range f q s e = Ok m \<Longrightarrow> mutation_built m"
| family: "delete_family f = Ok m \<Longrightarrow> mutation_built m"
| row: "mutation_built delete_row"

lemma valid_family_name_Ok: "valid_family_name f = Ok g \<longleftrightarrow> g = f \<and> family_name_ok f"
  by (auto simp: family_name_ok_def valid_family_name_def)

lemma validate_timestamp_Ok: "validate_timestamp t = Ok u \<longleftrightarrow> timestamp_ok t"
  by (auto simp: validate_timestamp_def timestamp_ok_def)

lemmas mutation_check_iffs = and_then_Inr_iff valid_family_name_Ok validate_timestamp_Ok

lemma mutation_built_ok:
  assumes "mutation_built m"
  shows "\<exists>p. mut_inner m = Some p \<and> proto_mutation_ok p"
  using assms
  by (cases rule: mutation_built.cases)
    (auto simp: set_cell_def set_cell_at_def set_cell_at_server_time_def delete_cells_def
      delete_cells_in_range_def delete_family_def delete_row_def mutation_new_def
      mutation_check_iffs split: if_splits)

text \<open>Row mutations and bulk mutations as applications can make them.\<close>

inductive row_mutation_built :: "RowMutation \<Rightarrow> bool" where
  new: "row_mutation_new k = Ok r \<Longrightarrow> row_mutation_built r"
| change: "\<lbrakk>row_mutation_built r; mutation_built m \<or> from_proto p = Ok m; add_mutation r m = Ok r'\<rbrakk>
    \<Longrightarrow> row_mutation_built r'"
| token: "row_mutation_built r \<Longrightarrow> with_idempotency_token now r t = Ok r' \<Longrightarrow> row_mutation_built r'"

inductive bulk_built :: "BulkMutation \<Rightarrow> bool" where
  new: "bulk_new t = Ok b \<Longrightarrow> bulk_built b"
| push: "\<lbrakk>bulk_built b; row_mutation_built r\<rbrakk> \<Longrightarrow> bulk_built (snd (bulk_push b r))"
| entry: "\<lbrakk>bulk_built b; row_mutation_built r; bulk_entry b r = Ok b'\<rbrakk> \<Longrightarrow> bulk_built b'"

definition row_mutation_ok :: "RowMutation \<Rightarrow> bool" where
  "row_mutation_ok r \<longleftrightarrow> rm_row_key r \<noteq> [] \<and> length (rm_row_key r) \<le> max_row_key_bytes
     \<and> length (rm_mutations r) \<le> max_mutations_per_entry
     \<and> list_all (\<lambda>m. mut_inner m \<noteq> None) (rm_mutations r)
     \<and> (case rm_idempotency r of None \<Rightarrow> True
        | Some i \<Rightarrow> min_idempotency_token_bytes \<le> length (idem_token i)
            \<and> (case idem_start_time i of None \<Rightarrow> False
               | Some ts \<Rightarrow> 0 \<le> ts_seconds ts \<and> ts_seconds ts \<le> i64_max
                   \<and> 0 \<le> ts_nanos ts \<and> ts_nanos ts < 1000000000))"

definition entry_ok :: "RowMutation \<Rightarrow> bool" where
  "entry_ok r \<longleftrightarrow> row_mutation_ok r \<and> rm_mutations r \<noteq> []"

definition bulk_ok :: "BulkMutation \<Rightarrow> bool" where
  "bulk_ok b \<longleftrightarrow> valid_table_id (bm_table_id b) \<and> list_all entry_ok (bm_entries b)"

lemma row_mutation_built_ok: "row_mutation_built r \<Longrightarrow> row_mutation_ok r"
proof (induction rule: row_mutation_built.induct)
  case (new k r)
  then show ?case
    by (auto simp: row_mutation_new_def validate_row_key_def row_mutation_ok_def
        max_mutations_per_entry_def split: if_splits)
next
  case (change r m p r')
  have "mut_inner m \<noteq> None"
    using change(2) mutation_built_ok by (auto simp: from_proto_def split: if_splits)
  then show ?case
    using change by (auto simp: add_mutation_def row_mutation_ok_def split: if_splits)
next
  case (token r now t r')
  then show ?case
    by (auto simp: with_idempotency_token_def row_mutation_ok_def Let_def pos_imp_zdiv_nonneg_iff
        split: if_splits)
qed

lemma bulk_built_ok: "bulk_built b \<Longrightarrow> bulk_ok b"
proof (induction rule: bulk_built.induct)
  case (new t b)
  then show ?case
    by (auto simp: bulk_new_def mutation_check_iffs map_err_Inr_iff validate_table_id_Ok bulk_ok_def)
qed (auto simp: bulk_push_def bulk_entry_def row_is_empty_def bulk_ok_def entry_ok_def
    dest: row_mutation_built_ok split: if_splits)

section \<open>What mutations do to a row\<close>

text \<open>
  The contents of a row, and what the data API says a mutation does to it: a set overwrites
  one version of a cell, at the server's clock when the timestamp is -1; a delete removes the
  versions it names. What an aggregate mutation does is left open (\<open>aggregate\<close>).
\<close>

type_synonym contents = "string \<times> bytes \<times> i64 \<Rightarrow> bytes option"

definition in_time_range :: "TimestampRange option \<Rightarrow> i64 \<Rightarrow> bool" where
  "in_time_range r t = (case r of None \<Rightarrow> True
     | Some r \<Rightarrow> start_timestamp_micros r \<le> t \<and> t < end_timestamp_micros r)"

fun apply_mutation :: "(bytes \<Rightarrow> contents \<Rightarrow> contents) \<Rightarrow> i64 \<Rightarrow> ProtoMutation \<Rightarrow> contents \<Rightarrow> contents" where
  "apply_mutation aggregate now (SetCell f q t v) s =
     s((f, q, if t = - 1 then now else t) := Some v)"
| "apply_mutation aggregate now (DeleteFromColumn f q r) s =
     (\<lambda>(f', q', t). if f' = f \<and> q' = q \<and> in_time_range r t then None else s (f', q', t))"
| "apply_mutation aggregate now (DeleteFromFamily f) s =
     (\<lambda>(f', q', t). if f' = f then None else s (f', q', t))"
| "apply_mutation aggregate now DeleteFromRow s = (\<lambda>_. None)"
| "apply_mutation aggregate now (AddToCell b) s = aggregate b s"
| "apply_mutation aggregate now (MergeToCell b) s = aggregate b s"

definition apply_entry :: "(bytes \<Rightarrow> contents \<Rightarrow> contents) \<Rightarrow> i64 \<Rightarrow> Entry \<Rightarrow> contents \<Rightarrow> contents" where
  "apply_entry aggregate now e s =
     foldl (\<lambda>s m. case m of None \<Rightarrow> s | Some p \<Rightarrow> apply_mutation aggregate now p s) s
       (entry_mutations e)"

text \<open>
  A mutation that is safe to repeat decides, for every version of every cell, either to leave
  it alone or what it becomes, whatever the row and the clock.
\<close>

definition overwrites :: "(contents \<Rightarrow> contents) \<Rightarrow> (string \<times> bytes \<times> i64 \<Rightarrow> bytes option option) \<Rightarrow> bool" where
  "overwrites g w \<longleftrightarrow> (\<forall>s c. g s c = (case w c of None \<Rightarrow> s c | Some v \<Rightarrow> v))"

lemma overwrites_id: "overwrites (\<lambda>s. s) (\<lambda>_. None)"
  by (simp add: overwrites_def)

lemma overwrites_comp:
  "\<lbrakk>overwrites g w; overwrites h x\<rbrakk>
   \<Longrightarrow> overwrites (\<lambda>s. h (g s)) (\<lambda>c. case x c of None \<Rightarrow> w c | Some v \<Rightarrow> Some v)"
  by (auto simp: overwrites_def split: option.split)

lemma overwrites_repeat: "\<lbrakk>overwrites g w; overwrites h w\<rbrakk> \<Longrightarrow> h (g s) = g s"
  by (rule ext) (auto simp: overwrites_def split: option.split)

lemma safe_mutation_overwrites:
  assumes "mutation_is_retry_safe m False"
  shows "\<exists>w. \<forall>now. overwrites
    (\<lambda>s. case mut_inner m of None \<Rightarrow> s | Some p \<Rightarrow> apply_mutation aggregate now p s) w"
proof -
  obtain p where m: "mut_inner m = Some p"
    using assms by (cases "mut_inner m") (simp_all add: mutation_is_retry_safe_def)
  have "\<exists>w. \<forall>now. overwrites (apply_mutation aggregate now p) w"
  proof (cases p)
    case (SetCell f q t v)
    then have "t \<noteq> - 1" using assms m by (simp add: mutation_is_retry_safe_def)
    then show ?thesis
      using SetCell by (intro exI [of _ "\<lambda>c. if c = (f, q, t) then Some (Some v) else None"])
        (simp add: overwrites_def)
  next
    case (DeleteFromColumn f q r)
    then show ?thesis
      by (intro exI [of _ "\<lambda>(f', q', t). if f' = f \<and> q' = q \<and> in_time_range r t
          then Some None else None"]) (simp add: overwrites_def)
  next
    case (DeleteFromFamily f)
    then show ?thesis
      by (intro exI [of _ "\<lambda>(f', q', t). if f' = f then Some None else None"])
        (simp add: overwrites_def)
  next
    case DeleteFromRow
    then show ?thesis by (intro exI [of _ "\<lambda>_. Some None"]) (simp add: overwrites_def)
  qed (use assms m in \<open>simp_all add: mutation_is_retry_safe_def\<close>)
  then show ?thesis by (simp add: m)
qed

lemma safe_mutations_overwrite:
  assumes "list_all (\<lambda>m. mutation_is_retry_safe m False) ms"
  shows "\<exists>w. \<forall>now. overwrites
    (\<lambda>s. foldl (\<lambda>s m. case m of None \<Rightarrow> s | Some p \<Rightarrow> apply_mutation aggregate now p s) s
       (map mut_inner ms)) w"
  using assms
proof (induction ms)
  case Nil
  then show ?case using overwrites_id by auto
next
  case (Cons m ms)
  then obtain w where w: "\<forall>now. overwrites
      (\<lambda>s. foldl (\<lambda>s m. case m of None \<Rightarrow> s | Some p \<Rightarrow> apply_mutation aggregate now p s) s
         (map mut_inner ms)) w" by auto
  obtain x where x: "\<forall>now. overwrites
      (\<lambda>s. case mut_inner m of None \<Rightarrow> s | Some p \<Rightarrow> apply_mutation aggregate now p s) x"
    using safe_mutation_overwrites [of m aggregate] Cons(2) by auto
  show ?case using overwrites_comp [OF spec [OF x] spec [OF w]] by (simp, blast)
qed

text \<open>Replaying an entry that is safe to repeat changes nothing.\<close>

lemma replay_changes_nothing:
  assumes "is_retry_safe r" and "rm_idempotency r = None"
  shows "apply_entry aggregate t' (into_proto r) (apply_entry aggregate t (into_proto r) s)
    = apply_entry aggregate t (into_proto r) s"
proof -
  have "list_all (\<lambda>m. mutation_is_retry_safe m False) (rm_mutations r)"
    using assms by (simp add: is_retry_safe_def)
  from safe_mutations_overwrite [OF this, of aggregate]
  obtain w where w: "overwrites (\<lambda>s. apply_entry aggregate now (into_proto r) s) w" for now
    by (auto simp: apply_entry_def into_proto_def)
  show ?thesis by (rule overwrites_repeat [OF w w])
qed

section \<open>Properties\<close>

text \<open>
  C29. Retry safety means what it says: replaying a row mutation without idempotency token
  that \<open>is_retry_safe\<close> accepts changes nothing, whatever the row held before, whatever the
  server's clock at either time, and whatever mixture of sets and deletes it is.
\<close>

theorem retry_safe_mutation_is_idempotent:
  assumes "is_retry_safe r" and "rm_idempotency r = None"
  shows "apply_entry aggregate t' (into_proto r) (apply_entry aggregate t (into_proto r) s)
    = apply_entry aggregate t (into_proto r) s"
  using assms by (rule replay_changes_nothing)

definition sample_row_mutation :: RowMutation where
  "sample_row_mutation = \<lparr>rm_row_key = [1],
     rm_mutations = [\<lparr>mut_inner = Some DeleteFromRow\<rparr>,
                     \<lparr>mut_inner = Some (SetCell ''f'' [1] 5000 [9])\<rparr>],
     rm_idempotency = None\<rparr>"

theorem retry_safe_mutation_is_idempotent_witness:
  "apply_entry (\<lambda>_ s. s) 8000 (into_proto sample_row_mutation)
     (apply_entry (\<lambda>_ s. s) 7000 (into_proto sample_row_mutation) (\<lambda>_. Some [1]))
   = apply_entry (\<lambda>_ s. s) 7000 (into_proto sample_row_mutation) (\<lambda>_. Some [1])"
  by (rule retry_safe_mutation_is_idempotent)
    (simp_all add: sample_row_mutation_def is_retry_safe_def mutation_is_retry_safe_def)

text \<open>The server-time set that is refused: a replay at a later time leaves two versions.\<close>

lemma server_time_set_not_idempotent:
  "\<not> is_retry_safe \<lparr>rm_row_key = [1], rm_mutations = [\<lparr>mut_inner = Some (SetCell f q (- 1) v)\<rparr>],
     rm_idempotency = None\<rparr>"
  "t \<noteq> t' \<Longrightarrow> apply_mutation aggregate t' (SetCell f q (- 1) v)
     (apply_mutation aggregate t (SetCell f q (- 1) v) (\<lambda>_. None))
   \<noteq> apply_mutation aggregate t (SetCell f q (- 1) v) (\<lambda>_. None)"
proof -
  assume "t \<noteq> t'"
  then have "apply_mutation aggregate t' (SetCell f q (- 1) v)
      (apply_mutation aggregate t (SetCell f q (- 1) v) (\<lambda>_. None)) (f, q, t')
    \<noteq> apply_mutation aggregate t (SetCell f q (- 1) v) (\<lambda>_. None) (f, q, t')" by simp
  then show "apply_mutation aggregate t' (SetCell f q (- 1) v)
      (apply_mutation aggregate t (SetCell f q (- 1) v) (\<lambda>_. None))
    \<noteq> apply_mutation aggregate t (SetCell f q (- 1) v) (\<lambda>_. None)" by metis
qed (simp add: is_retry_safe_def mutation_is_retry_safe_def)


definition sample_bulk :: BulkMutation where
  "sample_bulk = \<lparr>bm_table_id = ''t'', bm_entries = [\<lparr>rm_row_key = [1],
     rm_mutations = [delete_row], rm_idempotency = None\<rparr>]\<rparr>"

lemma sample_bulk_built: "bulk_built sample_bulk"
proof -
  have "bulk_new ''t'' = Ok \<lparr>bm_table_id = ''t'', bm_entries = []\<rparr>"
    by (simp add: bulk_new_def validate_table_id_def chars_count_def is_continuation_def
        max_table_id_chars_def)
  then have b: "bulk_built \<lparr>bm_table_id = ''t'', bm_entries = []\<rparr>" by (rule bulk_built.new)
  have "row_mutation_new [1] = Ok \<lparr>rm_row_key = [1], rm_mutations = [], rm_idempotency = None\<rparr>"
    by (simp add: row_mutation_new_def validate_row_key_def max_row_key_bytes_def)
  then have "row_mutation_built \<lparr>rm_row_key = [1], rm_mutations = [], rm_idempotency = None\<rparr>"
    by (rule row_mutation_built.new)
  moreover have "add_mutation \<lparr>rm_row_key = [1], rm_mutations = [], rm_idempotency = None\<rparr> delete_row
      = Ok \<lparr>rm_row_key = [1], rm_mutations = [delete_row], rm_idempotency = None\<rparr>"
    by (simp add: add_mutation_def max_mutations_per_entry_def)
  ultimately have r: "row_mutation_built
      \<lparr>rm_row_key = [1], rm_mutations = [delete_row], rm_idempotency = None\<rparr>"
    using mutation_built.row row_mutation_built.change by blast
  show ?thesis
    using bulk_built.push [OF b r] by (simp add: sample_bulk_def bulk_push_def row_is_empty_def)
qed


end
