(* ===== verification/Batches.thy ===== *)
theory Batches
  imports Mutation
begin

text \<open>
  The request splitting of \<open>write.rs\<close>: \<open>split\_batches\<close> and the size computations it rests on.
  The greedy way of filling batches is the interface \<open>batching\<close>, stated for any test of
  whether one more item fits and interpreted on the test of the code. The encoded lengths of
  the generated messages are parameters: \<open>request_len table profile\<close> for a request without
  entries, \<open>entry_len\<close> for one entry. Sizes are \<open>usize\<close> sums of things held in memory.
\<close>

section \<open>Sizes\<close>

definition max_mutations_per_request :: nat where "max_mutations_per_request = 100000"

text \<open>The loop of \<open>varint\_size\<close>: its variables \<open>value\<close> and \<open>bytes\<close>.\<close>

function varint_loop :: "nat \<Rightarrow> nat \<Rightarrow> nat" where
  "varint_loop v n = (if 0x80 \<le> v then varint_loop (drop_bit 7 v) (n + 1) else n)"
  by pat_completeness auto
termination
  by (relation "measure fst") (simp_all add: drop_bit_nat_def)

declare varint_loop.simps [simp del]

definition varint_size :: "nat \<Rightarrow> nat" where
  "varint_size v = varint_loop v 1"

definition repeated_message_size :: "nat \<Rightarrow> nat" where
  "repeated_message_size message_len = 1 + varint_size message_len + message_len"

lemma varint_loop_bounds:
  "v < 128 ^ (varint_loop v n - n + 1) \<and> n \<le> varint_loop v n
   \<and> (n < varint_loop v n \<longrightarrow> 128 ^ (varint_loop v n - n) \<le> v)"
proof (induction v n rule: varint_loop.induct)
  case (1 v n)
  show ?case
  proof (cases "0x80 \<le> v")
    case False
    then show ?thesis by (simp add: varint_loop.simps [of v])
  next
    case True
    have step: "varint_loop v n = varint_loop (v div 128) (n + 1)"
      using True by (simp add: varint_loop.simps [of v] drop_bit_nat_def)
    let ?m = "varint_loop (v div 128) (n + 1)"
    have IH: "v div 128 < 128 ^ (?m - (n + 1) + 1)" "n + 1 \<le> ?m"
        "n + 1 < ?m \<Longrightarrow> 128 ^ (?m - (n + 1)) \<le> v div 128"
      using 1 True by (auto simp: drop_bit_nat_def)
    then obtain k where k: "?m = n + 1 + k" using le_Suc_ex by blast
    have "v < 128 * 128 ^ (k + 1)"
      using IH(1) unfolding k by (simp add: div_less_iff_less_mult mult.commute)
    moreover have "128 * 128 ^ k \<le> v"
    proof (cases k)
      case (Suc j)
      then have "128 ^ k \<le> v div 128" using IH(3) unfolding k by simp
      then show ?thesis by (simp add: less_eq_div_iff_mult_less_eq mult.commute)
    qed (use True in simp)
    ultimately show ?thesis unfolding step k by simp
  qed
qed

section \<open>Greedy batches\<close>

locale batching =
  fixes fits :: "'a list \<Rightarrow> 'a \<Rightarrow> bool"
  assumes fits_empty: "fits [] x"
begin

fun pack :: "'a list \<Rightarrow> 'a list \<Rightarrow> 'a list list" where
  "pack current [] = (if current = [] then [] else [current])"
| "pack current (x # xs) =
     (if fits current x then pack (current @ [x]) xs else current # pack [x] xs)"

definition filled :: "'a list \<Rightarrow> bool" where
  "filled b \<longleftrightarrow> (\<forall>i < length b. fits (take i b) (b ! i))"

lemma filled_Nil: "filled []"
  by (simp add: filled_def)

lemma filled_snoc: "filled (b @ [x]) \<longleftrightarrow> filled b \<and> fits b x"
  by (auto simp: filled_def less_Suc_eq nth_append)

lemma concat_pack: "concat (pack current xs) = current @ xs"
  by (induction current xs rule: pack.induct) auto

lemma pack_filled: "filled current \<Longrightarrow> list_all (\<lambda>b. b \<noteq> [] \<and> filled b) (pack current xs)"
proof (induction current xs rule: pack.induct)
  case (2 current x xs)
  have "filled [x]" using filled_snoc [of "[]" x] fits_empty filled_Nil by simp
  moreover have "\<not> fits current x \<Longrightarrow> current \<noteq> []" using fits_empty by auto
  ultimately show ?case using 2 by (simp add: filled_snoc)
qed simp

lemma pack_first: "current \<noteq> [] \<Longrightarrow> \<exists>ys bs. pack current xs = (current @ ys) # bs"
proof (induction current xs rule: pack.induct)
  case (2 current x xs)
  then show ?case by (cases "fits current x") auto
qed auto

lemma pack_greedy: "successively (\<lambda>b c. \<not> fits b (hd c)) (pack current xs)"
proof (induction current xs rule: pack.induct)
  case (2 current x xs)
  obtain ys bs where "pack [x] xs = ([x] @ ys) # bs" using pack_first by blast
  then show ?case using 2 by (simp add: successively_Cons)
qed simp

end

section \<open>split\_batches\<close>

record BatchPolicy =
  max_entries_per_request :: nat
  max_request_bytes :: nat
  max_in_flight_requests :: nat

definition batch_policy_default :: BatchPolicy where
  "batch_policy_default = \<lparr>max_entries_per_request = 100,
     max_request_bytes = 20 * 1024 * 1024, max_in_flight_requests = 5\<rparr>"

record PendingEntry =
  pe_original_index :: nat
  pe_proto :: Entry
  pe_retry_safe :: bool
  pe_attempts :: u32

record SplitState =
  sp_batches :: "PendingEntry list list"
  sp_current :: "PendingEntry list"
  sp_current_bytes :: nat
  sp_current_mutations :: nat

definition split_step ::
    "(Entry \<Rightarrow> nat) \<Rightarrow> BatchPolicy \<Rightarrow> nat \<Rightarrow> SplitState \<Rightarrow> nat \<times> RowMutation \<Rightarrow> SplitState" where
  "split_step entry_len policy base_size s = (\<lambda>(original_index, row).
     let retry_safe = is_retry_safe row;
         proto = into_proto row;
         mutation_count = length (entry_mutations proto);
         entry_bytes = repeated_message_size (entry_len proto);
         exceeds_target = (sp_current s \<noteq> []
           \<and> (length (sp_current s) = max_entries_per_request policy
              \<or> sp_current_mutations s + mutation_count > max_mutations_per_request
              \<or> sp_current_bytes s + entry_bytes > max_request_bytes policy));
         s = (if exceeds_target
              then s\<lparr>sp_batches := sp_batches s @ [sp_current s], sp_current := [],
                     sp_current_bytes := base_size, sp_current_mutations := 0\<rparr>
              else s)
     in s\<lparr>sp_current_bytes := sp_current_bytes s + entry_bytes,
          sp_current_mutations := sp_current_mutations s + mutation_count,
          sp_current := sp_current s @
            [\<lparr>pe_original_index = original_index, pe_proto = proto,
              pe_retry_safe = retry_safe, pe_attempts = 0\<rparr>]\<rparr>)"

definition split_batches ::
    "(string \<Rightarrow> string \<Rightarrow> nat) \<Rightarrow> (Entry \<Rightarrow> nat) \<Rightarrow> RowMutation list \<Rightarrow> string \<Rightarrow> string \<Rightarrow> BatchPolicy
     \<Rightarrow> PendingEntry list list" where
  "split_batches request_len entry_len entries table profile policy =
     (let base_size = request_len table profile;
          s = foldl (split_step entry_len policy base_size)
                \<lparr>sp_batches = [], sp_current = [], sp_current_bytes = base_size,
                 sp_current_mutations = 0\<rparr> (enumerate 0 entries)
      in if sp_current s \<noteq> [] then sp_batches s @ [sp_current s] else sp_batches s)"

text \<open>The pending entry of a row, and the size a batch of them adds up to.\<close>

definition pending_of :: "nat \<times> RowMutation \<Rightarrow> PendingEntry" where
  "pending_of = (\<lambda>(i, row). \<lparr>pe_original_index = i, pe_proto = into_proto row,
     pe_retry_safe = is_retry_safe row, pe_attempts = 0\<rparr>)"

definition batch_mutations :: "PendingEntry list \<Rightarrow> nat" where
  "batch_mutations b = sum_list (map (\<lambda>e. length (entry_mutations (pe_proto e))) b)"

definition batch_bytes :: "(Entry \<Rightarrow> nat) \<Rightarrow> nat \<Rightarrow> PendingEntry list \<Rightarrow> nat" where
  "batch_bytes entry_len base_size b =
     base_size + sum_list (map (\<lambda>e. repeated_message_size (entry_len (pe_proto e))) b)"

definition entry_fits :: "(Entry \<Rightarrow> nat) \<Rightarrow> BatchPolicy \<Rightarrow> nat \<Rightarrow> PendingEntry list \<Rightarrow> PendingEntry \<Rightarrow> bool" where
  "entry_fits entry_len policy base_size b e \<longleftrightarrow> b = [] \<or>
     length b \<noteq> max_entries_per_request policy
     \<and> batch_mutations (b @ [e]) \<le> max_mutations_per_request
     \<and> batch_bytes entry_len base_size (b @ [e]) \<le> max_request_bytes policy"

interpretation batch: batching "entry_fits entry_len policy base_size"
  for entry_len policy base_size
  by unfold_locales (simp add: entry_fits_def)

lemma split_fold:
  assumes "sp_current_bytes s = batch_bytes entry_len base_size (sp_current s)"
    and "sp_current_mutations s = batch_mutations (sp_current s)"
  shows "(let t = foldl (split_step entry_len policy base_size) s xs
          in if sp_current t \<noteq> [] then sp_batches t @ [sp_current t] else sp_batches t)
    = sp_batches s @ batch.pack entry_len policy base_size (sp_current s) (map pending_of xs)"
  using assms
proof (induction xs arbitrary: s)
  case Nil
  then show ?case by simp
next
  case (Cons x xs)
  let ?t = "split_step entry_len policy base_size s x"
  let ?fits = "entry_fits entry_len policy base_size (sp_current s) (pending_of x)"
  have t: "sp_batches ?t = (if ?fits then sp_batches s else sp_batches s @ [sp_current s])"
      "sp_current ?t = (if ?fits then sp_current s @ [pending_of x] else [pending_of x])"
      "sp_current_bytes ?t = batch_bytes entry_len base_size (sp_current ?t)"
      "sp_current_mutations ?t = batch_mutations (sp_current ?t)"
    using Cons(2,3)
    by (auto simp: split_step_def pending_of_def entry_fits_def batch_bytes_def batch_mutations_def
        Let_def not_le split: prod.splits)
  show ?case
    using Cons(1) [OF t(3,4)] by (simp add: t(1,2))
qed

lemma split_batches_pack:
  "split_batches request_len entry_len entries table profile policy =
     batch.pack entry_len policy (request_len table profile) [] (map pending_of (enumerate 0 entries))"
  using split_fold [of "\<lparr>sp_batches = [], sp_current = [], sp_current_bytes = request_len table profile,
      sp_current_mutations = 0\<rparr>" entry_len "request_len table profile" policy "enumerate 0 entries"]
  by (simp add: split_batches_def Let_def batch_bytes_def batch_mutations_def)

text \<open>What filling by this test means for one batch.\<close>

definition batch_within ::
    "(Entry \<Rightarrow> nat) \<Rightarrow> BatchPolicy \<Rightarrow> nat \<Rightarrow> PendingEntry list \<Rightarrow> bool" where
  "batch_within entry_len policy base_size b \<longleftrightarrow> b \<noteq> []
     \<and> length b \<le> max_entries_per_request policy
     \<and> (length b = 1 \<or> batch_mutations b \<le> max_mutations_per_request
          \<and> batch_bytes entry_len base_size b \<le> max_request_bytes policy)"

lemma filled_within:
  assumes "batch.filled entry_len policy base_size b" and "b \<noteq> []"
    and "0 < max_entries_per_request policy"
  shows "batch_within entry_len policy base_size b"
  using assms(1,2)
proof (induction b rule: rev_induct)
  case (snoc x b)
  then have fits: "entry_fits entry_len policy base_size b x"
    and filled: "batch.filled entry_len policy base_size b"
    using batch.filled_snoc by blast+
  show ?case
  proof (cases "b = []")
    case True
    then show ?thesis using assms(3) by (simp add: batch_within_def)
  next
    case False
    then have "batch_within entry_len policy base_size b" using snoc.IH filled by blast
    then show ?thesis using fits False by (auto simp: batch_within_def entry_fits_def)
  qed
qed simp

section \<open>Properties\<close>

text \<open>
  Splitting loses nothing, repeats nothing and keeps the order: the batches one after
  another are the entries of the bulk mutation, numbered from 0, as they were given.
\<close>

theorem split_batches_partition:
  "concat (split_batches request_len entry_len entries table profile policy)
     = map pending_of (enumerate 0 entries)"
  by (simp add: split_batches_pack batch.concat_pack)

text \<open>
  C33. Every batch is non-empty and has at most \<open>max_entries_per_request\<close> entries; it stays
  within 100000 mutations and \<open>max_request_bytes\<close> encoded bytes unless it is a single entry
  that exceeds them on its own. And no batch is cut short: the first entry of each following
  batch would not have fit.
\<close>

theorem split_batches_bounded_and_greedy:
  assumes "0 < max_entries_per_request policy"
  shows "list_all (batch_within entry_len policy (request_len table profile))
      (split_batches request_len entry_len entries table profile policy)
    \<and> successively (\<lambda>b c. \<not> entry_fits entry_len policy (request_len table profile) b (hd c))
      (split_batches request_len entry_len entries table profile policy)"
proof
  have "list_all (\<lambda>b. b \<noteq> [] \<and> batch.filled entry_len policy (request_len table profile) b)
      (split_batches request_len entry_len entries table profile policy)"
    unfolding split_batches_pack by (rule batch.pack_filled [OF batch.filled_Nil])
  then show "list_all (batch_within entry_len policy (request_len table profile))
      (split_batches request_len entry_len entries table profile policy)"
    by (auto simp: list_all_iff intro: filled_within [OF _ _ assms])
qed (unfold split_batches_pack, rule batch.pack_greedy)

theorem split_batches_bounded_and_greedy_witness:
  "list_all (batch_within (\<lambda>_. 9) (batch_policy_default\<lparr>max_entries_per_request := 2\<rparr>) 30)
     (split_batches (\<lambda>_ _. 30) (\<lambda>_. 9) [sample_row_mutation, sample_row_mutation, sample_row_mutation]
        ''t'' ''p'' (batch_policy_default\<lparr>max_entries_per_request := 2\<rparr>))"
  using split_batches_bounded_and_greedy
    [of "batch_policy_default\<lparr>max_entries_per_request := 2\<rparr>" "\<lambda>_. 9" "\<lambda>_ _. 30" "''t''" "''p''"
      "[sample_row_mutation, sample_row_mutation, sample_row_mutation]"]
  by simp

text \<open>
  \<open>varint\_size\<close> is the number of 7-bit groups of a length, as a protobuf varint has them:
  the least number of bytes, at least one, that can hold it.
\<close>

lemma varint_size_is_least:
  "v < 128 ^ varint_size v \<and> (varint_size v = 1 \<or> 128 ^ (varint_size v - 1) \<le> v)"
  using varint_loop_bounds [of v 1]
  by (cases "varint_loop v 1") (auto simp: varint_size_def)

end
