(* ===== verification/Attempt.thy ===== *)
theory Attempt
  imports Batches Environment
begin

text \<open>
  One attempt of a bulk write in \<open>write.rs\<close>: how the response stream of a \<open>MutateRows\<close> call
  is consumed and how each entry of the request ends, as a success, a failure or an entry to
  send again. The loop over the stream and the merge of the sorted entry failures with the
  entries are modelled as written; a reference that looks each entry up says what they compute.
\<close>

section \<open>What a call gives\<close>

text \<open>A call of the service can give a stream, a status, or nothing in time.\<close>

record ResponseEntry =
  re_index :: i64
  re_status :: "ProtoStatus option"

datatype StreamItem = Response "ResponseEntry list" | StreamError status | StreamTimeout

text \<open>A stream is the list of what its reader gets; after the last item it ends.\<close>

datatype MutateReply = Connected "StreamItem list" | Refused status | CallTimeout

section \<open>Entry results\<close>

definition status_result :: "Env \<Rightarrow> ProtoStatus option \<Rightarrow> (status, unit) result" where
  "status_result x s =
     (let s = (case s of None \<Rightarrow> \<lparr>rpc_code = 0, rpc_message = [], rpc_details = []\<rparr> | Some s \<Rightarrow> s)
      in if rpc_code s = 0 then Ok ()
         else Err \<lparr>st_code = x_code_from_i32 x (rpc_code s), st_message = rpc_message s,
                   st_details = x_encode_status x s\<rparr>)"

datatype FailureOrigin = EntryOrigin | RpcOrigin

record AttemptOutcome =
  ao_code :: Code
  ao_successful :: nat
  ao_failures :: "MutationFailure list"
  ao_retry :: "PendingEntry list"
  ao_retry_delay :: duration

definition outcome_default :: AttemptOutcome where
  "outcome_default = \<lparr>ao_code = OkCode, ao_successful = 0, ao_failures = [], ao_retry = [],
     ao_retry_delay = 0\<rparr>"

definition classify_status ::
    "Env \<Rightarrow> u32 \<Rightarrow> PendingEntry \<Rightarrow> status \<Rightarrow> FailureOrigin \<Rightarrow> AttemptOutcome \<Rightarrow> AttemptOutcome" where
  "classify_status x limit entry status origin outcome =
     (let can_retry = (pe_retry_safe entry \<and> is_mutate_retryable status
                       \<and> pe_attempts entry < limit);
          outcome = (if ao_code outcome = OkCode then outcome\<lparr>ao_code := st_code status\<rparr>
                     else outcome)
      in if can_retry then
           outcome\<lparr>ao_retry_delay := max (ao_retry_delay outcome)
                     (case env_retry_delay x status of None \<Rightarrow> 0 | Some d \<Rightarrow> d),
                   ao_retry := ao_retry outcome @ [entry]\<rparr>
         else
           let cause = (case origin of
                  EntryOrigin \<Rightarrow> EntryStatus status (pe_retry_safe entry)
                | RpcOrigin \<Rightarrow> RpcStatus status (pe_retry_safe entry))
           in outcome\<lparr>ao_failures := ao_failures outcome @
                [\<lparr>mf_index = pe_original_index entry, mf_attempts = pe_attempts entry,
                  mf_cause = cause\<rparr>]\<rparr>)"

definition rpc_failure :: "Env \<Rightarrow> u32 \<Rightarrow> PendingEntry list \<Rightarrow> status \<Rightarrow> AttemptOutcome" where
  "rpc_failure x limit current status =
     foldl (\<lambda>outcome entry. classify_status x limit entry status RpcOrigin outcome)
       (outcome_default\<lparr>ao_code := st_code status\<rparr>) current"

definition invalid_response_outcome ::
    "PendingEntry list \<Rightarrow> MutateRowsResponseIssue \<Rightarrow> AttemptOutcome" where
  "invalid_response_outcome current issue =
     \<lparr>ao_code = Unknown, ao_successful = 0,
      ao_failures = map (\<lambda>entry. \<lparr>mf_index = pe_original_index entry,
        mf_attempts = pe_attempts entry, mf_cause = InvalidResponse issue\<rparr>) current,
      ao_retry = [], ao_retry_delay = 0\<rparr>"

section \<open>The stream loop\<close>

record SeenState =
  ss_seen :: "bool list"
  ss_seen_count :: nat
  ss_entry_failures :: "(nat \<times> status) list"

text \<open>The results of one message, up to the first one that breaks the protocol.\<close>

fun consume_entries ::
    "Env \<Rightarrow> nat \<Rightarrow> SeenState \<Rightarrow> ResponseEntry list \<Rightarrow> SeenState \<times> MutateRowsResponseIssue option" where
  "consume_entries x n s [] = (s, None)"
| "consume_entries x n s (r # rs) =
     (if re_index r < 0 then (s, Some (NegativeIndex (re_index r)))
      else
        let index = nat (re_index r)
        in if index \<ge> n then (s, Some (IndexOutOfRange (re_index r) n))
           else if ss_seen s ! index then (s, Some (DuplicateIndex index))
           else
             let s = s\<lparr>ss_seen := (ss_seen s)[index := True],
                       ss_seen_count := ss_seen_count s + 1\<rparr>;
                 s = (case status_result x (re_status r) of
                        Inr _ \<Rightarrow> s
                      | Inl status \<Rightarrow>
                          s\<lparr>ss_entry_failures := ss_entry_failures s @ [(index, status)]\<rparr>)
             in consume_entries x n s rs)"

definition attempt_timeout_status :: status where
  "attempt_timeout_status = \<lparr>st_code = Code.DeadlineExceeded,
     st_message = ''MutateRows attempt deadline exceeded'', st_details = []\<rparr>"

record StreamResult =
  sr_seen :: SeenState
  sr_protocol_issue :: "MutateRowsResponseIssue option"
  sr_stream_failure :: "status option"

fun consume_items ::
    "Env \<Rightarrow> nat \<Rightarrow> SeenState \<Rightarrow> StreamItem list \<Rightarrow> AttemptTracker \<times> World
     \<Rightarrow> StreamResult \<times> AttemptTracker \<times> World" where
  "consume_items x n s [] tw =
     (\<lparr>sr_seen = s, sr_protocol_issue = None, sr_stream_failure = None\<rparr>, tw)"
| "consume_items x n s (StreamError status # _) tw =
     (\<lparr>sr_seen = s, sr_protocol_issue = None, sr_stream_failure = Some status\<rparr>, tw)"
| "consume_items x n s (StreamTimeout # _) tw =
     (\<lparr>sr_seen = s, sr_protocol_issue = None,
       sr_stream_failure = Some attempt_timeout_status\<rparr>, tw)"
| "consume_items x n s (Response rs # items) tw =
     (let tw = first_response (x_clock x) tw
      in case consume_entries x n s rs of
           (s, Some issue) \<Rightarrow>
             (\<lparr>sr_seen = s, sr_protocol_issue = Some issue, sr_stream_failure = None\<rparr>, tw)
         | (s, None) \<Rightarrow> consume_items x n s items tw)"

section \<open>Sorting the entries out\<close>

text \<open>
  The second loop of \<open>consume\_stream\<close>: the entry failures, sorted by index, are consumed in
  step with the entries. What is left of them at the end is returned too; the code asserts
  that it is nothing.
\<close>

fun sort_out ::
    "Env \<Rightarrow> u32 \<Rightarrow> bool list \<Rightarrow> status option \<Rightarrow> nat \<Rightarrow> PendingEntry list \<Rightarrow> (nat \<times> status) list
     \<Rightarrow> AttemptOutcome \<Rightarrow> AttemptOutcome \<times> (nat \<times> status) list" where
  "sort_out x limit seen stream_failure i [] failures outcome = (outcome, failures)"
| "sort_out x limit seen stream_failure i (entry # rest) failures outcome =
     (if seen ! i then
        (case failures of
           (index, status) # failures' \<Rightarrow>
             if index = i
             then sort_out x limit seen stream_failure (i + 1) rest failures'
                    (classify_status x limit entry status EntryOrigin outcome)
             else sort_out x limit seen stream_failure (i + 1) rest failures
                    (outcome\<lparr>ao_successful := ao_successful outcome + 1\<rparr>)
         | [] \<Rightarrow> sort_out x limit seen stream_failure (i + 1) rest failures
                   (outcome\<lparr>ao_successful := ao_successful outcome + 1\<rparr>))
      else (case stream_failure of
           Some status \<Rightarrow> sort_out x limit seen stream_failure (i + 1) rest failures
             (classify_status x limit entry status RpcOrigin outcome)
         | None \<Rightarrow> sort_out x limit seen stream_failure (i + 1) rest failures
             (outcome\<lparr>ao_code := Unknown, ao_failures := ao_failures outcome @
                [\<lparr>mf_index = pe_original_index entry, mf_attempts = pe_attempts entry,
                  mf_cause = InvalidResponse (MissingIndex i)\<rparr>]\<rparr>)))"

definition stream_outcome ::
    "Env \<Rightarrow> u32 \<Rightarrow> PendingEntry list \<Rightarrow> StreamResult \<Rightarrow> AttemptOutcome" where
  "stream_outcome x limit current r =
     (case sr_protocol_issue r of
        Some issue \<Rightarrow> invalid_response_outcome current issue
      | None \<Rightarrow>
          if ss_seen_count (sr_seen r) = length current \<and> ss_entry_failures (sr_seen r) = []
          then outcome_default\<lparr>ao_successful := length current\<rparr>
          else fst (sort_out x limit (ss_seen (sr_seen r)) (sr_stream_failure r) 0 current
                      (sort_key fst (ss_entry_failures (sr_seen r))) outcome_default))"

definition consume_stream ::
    "Env \<Rightarrow> u32 \<Rightarrow> PendingEntry list \<Rightarrow> StreamItem list \<Rightarrow> AttemptTracker \<times> World
     \<Rightarrow> AttemptOutcome \<times> AttemptTracker \<times> World" where
  "consume_stream x limit current items tw =
     (let (r, tw) = consume_items x (length current)
            \<lparr>ss_seen = replicate (length current) False, ss_seen_count = 0,
             ss_entry_failures = []\<rparr> items tw
      in (stream_outcome x limit current r, tw))"

section \<open>Every entry ends in one way\<close>

text \<open>
  What an attempt that has dealt with the entries \<open>es\<close> may report: each entry is a success, a
  failure or sent again, exactly once; only retry-safe entries with attempts left are sent
  again, in their order; and a failure carries the index and the attempts of its entry.
\<close>

definition ends_ok ::
    "u32 \<Rightarrow> PendingEntry list \<Rightarrow> nat \<Rightarrow> MutationFailure list \<Rightarrow> PendingEntry list \<Rightarrow> bool" where
  "ends_ok limit es successful failures retry \<longleftrightarrow>
     successful + length failures + length retry = length es
   \<and> mset (map mf_index failures) + mset (map pe_original_index retry)
       \<subseteq># mset (map pe_original_index es)
   \<and> subseq retry es
   \<and> list_all (\<lambda>e. pe_retry_safe e \<and> pe_attempts e < limit) retry
   \<and> list_all (\<lambda>f. \<exists>e \<in> set es. mf_index f = pe_original_index e \<and> mf_attempts f = pe_attempts e)
       failures"

definition outcome_ok :: "u32 \<Rightarrow> PendingEntry list \<Rightarrow> AttemptOutcome \<Rightarrow> bool" where
  "outcome_ok limit es out \<longleftrightarrow>
     ends_ok limit es (ao_successful out) (ao_failures out) (ao_retry out)"

lemma ends_ok_Nil: "ends_ok limit [] 0 [] []"
  by (simp add: ends_ok_def)

lemma subset_mset_skip: "A \<subseteq># B \<Longrightarrow> A \<subseteq># add_mset x B"
  by (metis add_mset_add_single subset_mset.add_increasing2 empty_le)

lemma subseq_snoc: "subseq xs ys \<Longrightarrow> subseq (xs @ [y]) (ys @ [y])"
  by (rule list_emb_append_mono) auto

lemma ends_ok_success:
  "ends_ok limit es n fs rs \<Longrightarrow> ends_ok limit (es @ [e]) (Suc n) fs rs"
  by (auto simp: ends_ok_def list_all_iff intro: subset_mset_skip list_emb_append2)

lemma ends_ok_failure:
  "\<lbrakk>ends_ok limit es n fs rs; mf_index f = pe_original_index e; mf_attempts f = pe_attempts e\<rbrakk>
   \<Longrightarrow> ends_ok limit (es @ [e]) n (fs @ [f]) rs"
  by (auto simp: ends_ok_def list_all_iff)

lemma ends_ok_retry:
  "\<lbrakk>ends_ok limit es n fs rs; pe_retry_safe e; pe_attempts e < limit\<rbrakk>
   \<Longrightarrow> ends_ok limit (es @ [e]) n fs (rs @ [e])"
  by (auto simp: ends_ok_def list_all_iff subseq_snoc)

lemma outcome_ok_classify:
  "outcome_ok limit es out \<Longrightarrow>
     outcome_ok limit (es @ [e]) (classify_status x limit e status origin out)"
  by (auto simp: outcome_ok_def classify_status_def Let_def
      intro!: ends_ok_retry ends_ok_failure)

lemma outcome_ok_success:
  "outcome_ok limit es out \<Longrightarrow>
     outcome_ok limit (es @ [e]) (out\<lparr>ao_successful := ao_successful out + 1\<rparr>)"
  by (simp add: outcome_ok_def ends_ok_success)

lemma outcome_ok_missing:
  "outcome_ok limit es out \<Longrightarrow> outcome_ok limit (es @ [e])
     (out\<lparr>ao_code := c, ao_failures := ao_failures out @
        [\<lparr>mf_index = pe_original_index e, mf_attempts = pe_attempts e, mf_cause = cause\<rparr>]\<rparr>)"
  by (simp add: outcome_ok_def ends_ok_failure)

lemma rpc_failure_ok: "outcome_ok limit current (rpc_failure x limit current status)"
proof -
  have "outcome_ok limit (es @ current)
      (foldl (\<lambda>outcome entry. classify_status x limit entry status RpcOrigin outcome) out current)"
    if "outcome_ok limit es out" for es out
    using that
  proof (induction current arbitrary: es out)
    case (Cons e current)
    then show ?case using Cons.IH [OF outcome_ok_classify [OF Cons.prems]] by simp
  qed simp
  from this [of "[]"] show ?thesis
    by (simp add: rpc_failure_def outcome_ok_def outcome_default_def ends_ok_Nil)
qed

lemma invalid_response_ok: "outcome_ok limit current (invalid_response_outcome current issue)"
proof -
  have "map mf_index (ao_failures (invalid_response_outcome current issue))
      = map pe_original_index current" by (simp add: invalid_response_outcome_def)
  then show ?thesis
    unfolding outcome_ok_def ends_ok_def
    by (auto simp: invalid_response_outcome_def list_all_iff comp_def)
qed

lemma sort_out_ok:
  "outcome_ok limit es out \<Longrightarrow>
     outcome_ok limit (es @ rest) (fst (sort_out x limit seen sf i rest failures out))"
proof (induction rest arbitrary: es out i failures)
  case (Cons e rest)
  let ?ok = "\<lambda>i failures out. outcome_ok limit (es @ e # rest)
      (fst (sort_out x limit seen sf i rest failures out))"
  have "?ok i failures (classify_status x limit e status origin out)" for i failures status origin
    using Cons.IH [OF outcome_ok_classify [OF Cons.prems]] by simp
  moreover have "?ok i failures (out\<lparr>ao_successful := ao_successful out + 1\<rparr>)" for i failures
    using Cons.IH [OF outcome_ok_success [OF Cons.prems]] by simp
  moreover have "?ok i failures (out\<lparr>ao_code := c, ao_failures := ao_failures out @
        [\<lparr>mf_index = pe_original_index e, mf_attempts = pe_attempts e, mf_cause = cause\<rparr>]\<rparr>)"
    for i failures c cause
    using Cons.IH [OF outcome_ok_missing [OF Cons.prems]] by simp
  ultimately show ?case by (cases sf) (simp_all split: list.split prod.split)
qed simp

lemma stream_outcome_ok: "outcome_ok limit current (stream_outcome x limit current r)"
proof (cases "sr_protocol_issue r")
  case (Some issue)
  then show ?thesis by (simp add: stream_outcome_def invalid_response_ok)
next
  case None
  have "outcome_ok limit [] outcome_default"
    by (simp add: outcome_ok_def outcome_default_def ends_ok_Nil)
  then have "outcome_ok limit current (fst (sort_out x limit seen sf 0 current fs outcome_default))"
    for seen sf fs using sort_out_ok [of limit "[]"] by simp
  moreover have "outcome_ok limit current (outcome_default\<lparr>ao_successful := length current\<rparr>)"
    by (simp add: outcome_ok_def outcome_default_def ends_ok_def)
  ultimately show ?thesis using None by (simp add: stream_outcome_def)
qed

lemma consume_stream_ok:
  "outcome_ok limit current (fst (consume_stream x limit current items tw))"
  by (simp add: consume_stream_def stream_outcome_ok split_beta)

section \<open>The reference: every entry looked up\<close>

text \<open>
  What a stream delivers before it ends, and why it ends if not by itself; when the results
  are valid; and the outcome obtained by looking each entry up in them.
\<close>

fun stream_results :: "StreamItem list \<Rightarrow> ResponseEntry list \<times> status option" where
  "stream_results [] = ([], None)"
| "stream_results (StreamError status # _) = ([], Some status)"
| "stream_results (StreamTimeout # _) = ([], Some attempt_timeout_status)"
| "stream_results (Response rs # items) =
     (let (rs', failure) = stream_results items in (rs @ rs', failure))"

definition valid_results :: "nat \<Rightarrow> ResponseEntry list \<Rightarrow> bool" where
  "valid_results n rs \<longleftrightarrow> list_all (\<lambda>r. 0 \<le> re_index r \<and> re_index r < int n) rs
     \<and> distinct (map re_index rs)"

definition result_of :: "Env \<Rightarrow> ResponseEntry list \<Rightarrow> nat \<Rightarrow> (status, unit) result option" where
  "result_of x rs i =
     map_of (map (\<lambda>r. (nat (re_index r), status_result x (re_status r))) rs) i"

definition file_entry ::
    "Env \<Rightarrow> u32 \<Rightarrow> (nat \<Rightarrow> (status, unit) result option) \<Rightarrow> status option
     \<Rightarrow> AttemptOutcome \<Rightarrow> nat \<times> PendingEntry \<Rightarrow> AttemptOutcome" where
  "file_entry x limit lookup failure outcome = (\<lambda>(i, entry).
     case lookup i of
       Some (Inr _) \<Rightarrow> outcome\<lparr>ao_successful := ao_successful outcome + 1\<rparr>
     | Some (Inl status) \<Rightarrow> classify_status x limit entry status EntryOrigin outcome
     | None \<Rightarrow> (case failure of
         Some status \<Rightarrow> classify_status x limit entry status RpcOrigin outcome
       | None \<Rightarrow> outcome\<lparr>ao_code := Unknown, ao_failures := ao_failures outcome @
           [\<lparr>mf_index = pe_original_index entry, mf_attempts = pe_attempts entry,
             mf_cause = InvalidResponse (MissingIndex i)\<rparr>]\<rparr>))"

definition reference_outcome ::
    "Env \<Rightarrow> u32 \<Rightarrow> PendingEntry list \<Rightarrow> ResponseEntry list \<Rightarrow> status option \<Rightarrow> AttemptOutcome" where
  "reference_outcome x limit current rs failure =
     foldl (file_entry x limit (result_of x rs) failure) outcome_default (enumerate 0 current)"

text \<open>The second loop computes the reference when its inputs fit together.\<close>

lemma file_entry_apply:
  "file_entry x limit lookup failure outcome (i, entry) =
     (case lookup i of
       Some (Inr _) \<Rightarrow> outcome\<lparr>ao_successful := ao_successful outcome + 1\<rparr>
     | Some (Inl status) \<Rightarrow> classify_status x limit entry status EntryOrigin outcome
     | None \<Rightarrow> (case failure of
         Some status \<Rightarrow> classify_status x limit entry status RpcOrigin outcome
       | None \<Rightarrow> outcome\<lparr>ao_code := Unknown, ao_failures := ao_failures outcome @
           [\<lparr>mf_index = pe_original_index entry, mf_attempts = pe_attempts entry,
             mf_cause = InvalidResponse (MissingIndex i)\<rparr>]\<rparr>))"
  by (simp add: file_entry_def)

lemma file_entry_cong:
  "lookup i = lookup' i \<Longrightarrow> file_entry x limit lookup sf out (i, e) = file_entry x limit lookup' sf out (i, e)"
  by (simp add: file_entry_def)

lemma foldl_file_entry_cong:
  "(\<And>j. i \<le> j \<Longrightarrow> lookup j = lookup' j) \<Longrightarrow>
     foldl (file_entry x limit lookup sf) out (enumerate i es)
   = foldl (file_entry x limit lookup' sf) out (enumerate i es)"
proof (induction es arbitrary: i out)
  case (Cons e es)
  then show ?case
    using Cons.IH [of "Suc i"] by (simp add: file_entry_cong [of lookup i lookup'])
qed simp

lemma sort_out_reference:
  assumes "sorted_wrt (<) (map fst failures)"
    and "\<And>j st. (j, st) \<in> set failures \<Longrightarrow> i \<le> j \<and> j < i + length es \<and> lookup j = Some (Inl st)"
    and "\<And>j. i \<le> j \<Longrightarrow> j < i + length es \<Longrightarrow> seen ! j = (lookup j \<noteq> None)"
    and "\<And>j st. i \<le> j \<Longrightarrow> j < i + length es \<Longrightarrow> lookup j = Some (Inl st) \<Longrightarrow> (j, st) \<in> set failures"
  shows "sort_out x limit seen sf i es failures out
    = (foldl (file_entry x limit lookup sf) out (enumerate i es), [])"
  using assms
proof (induction es arbitrary: i failures out)
  case Nil
  show ?case
  proof (cases failures)
    case (Cons p ps)
    then show ?thesis using Nil(2) [of "fst p" "snd p"] by force
  qed simp
next
  case (Cons e es)
  have bound: "i < i + length (e # es)" by simp
  show ?case
  proof (cases "\<exists>st. lookup i = Some (Inl st)")
    case True
    then obtain st where st: "lookup i = Some (Inl st)" by blast
    then have "(i, st) \<in> set failures" using Cons.prems(4) bound by blast
    then obtain fs where fs: "failures = (i, st) # fs"
      using Cons.prems(1,2) st by (cases failures) (auto, force+)
    have "sort_out x limit seen sf (Suc i) es fs out'
        = (foldl (file_entry x limit lookup sf) out' (enumerate (Suc i) es), [])" for out'
    proof (rule Cons.IH)
      show "sorted_wrt (<) (map fst fs)" using Cons.prems(1) fs by simp
      show "Suc i \<le> j \<and> j < Suc i + length es \<and> lookup j = Some (Inl st)" if "(j, st) \<in> set fs" for j st
        using that Cons.prems(1) Cons.prems(2) [of j st] fs by auto
      show "(j, st) \<in> set fs" if "Suc i \<le> j" "j < Suc i + length es" "lookup j = Some (Inl st)" for j st
        using that Cons.prems(4) [of j st] fs by auto
    qed (use Cons.prems(3) in auto)
    then show ?thesis
      using st fs Cons.prems(3) [of i] bound by (simp add: file_entry_apply)
  next
    case False
    then have no: "i \<notin> fst ` set failures" using Cons.prems(2) by fastforce
    have "sort_out x limit seen sf (Suc i) es failures out'
        = (foldl (file_entry x limit lookup sf) out' (enumerate (Suc i) es), [])" for out'
    proof (rule Cons.IH [OF Cons.prems(1)])
      show "Suc i \<le> j \<and> j < Suc i + length es \<and> lookup j = Some (Inl st)" if "(j, st) \<in> set failures" for j st
        using that no Cons.prems(2) [of j st] by (cases "i = j") force+
    qed (use Cons.prems(3,4) in auto)
    then show ?thesis
      using False no Cons.prems(3) [of i] bound
      by (cases failures; cases "lookup i"; cases sf)
        (auto simp: file_entry_apply split: sum.splits)
  qed
qed

text \<open>The first loop collects the results, unless they break the protocol.\<close>

definition failed_results :: "Env \<Rightarrow> ResponseEntry list \<Rightarrow> (nat \<times> status) list" where
  "failed_results x rs = concat (map (\<lambda>r. case status_result x (re_status r) of
     Inr _ \<Rightarrow> [] | Inl st \<Rightarrow> [(nat (re_index r), st)]) rs)"

definition seen_ok :: "Env \<Rightarrow> nat \<Rightarrow> ResponseEntry list \<Rightarrow> SeenState \<Rightarrow> bool" where
  "seen_ok x n rs s \<longleftrightarrow> valid_results n rs \<and> length (ss_seen s) = n
     \<and> (\<forall>j < n. ss_seen s ! j = (int j \<in> re_index ` set rs))
     \<and> ss_seen_count s = length rs \<and> ss_entry_failures s = failed_results x rs"

lemma valid_results_prefix: "valid_results n (rs @ rs') \<Longrightarrow> valid_results n rs"
  by (auto simp: valid_results_def)

lemma seen_ok_step:
  assumes "seen_ok x n rs s" and "0 \<le> re_index r" "nat (re_index r) < n"
    and "\<not> ss_seen s ! nat (re_index r)"
  shows "seen_ok x n (rs @ [r])
    (let t = s\<lparr>ss_seen := (ss_seen s)[nat (re_index r) := True], ss_seen_count := ss_seen_count s + 1\<rparr>
     in case status_result x (re_status r) of Inr _ \<Rightarrow> t
        | Inl status \<Rightarrow> t\<lparr>ss_entry_failures := ss_entry_failures t @ [(nat (re_index r), status)]\<rparr>)"
proof -
  have "int (nat (re_index r)) \<notin> re_index ` set rs"
    using assms by (simp add: seen_ok_def)
  then have "re_index r \<notin> re_index ` set rs" using assms(2) by simp
  then show ?thesis
    using assms
    by (auto simp: seen_ok_def valid_results_def failed_results_def nth_list_update Let_def
        split: sum.split)
qed

lemma consume_entries_ok:
  assumes "seen_ok x n rs s"
  shows "case consume_entries x n s rs' of
      (s', None) \<Rightarrow> seen_ok x n (rs @ rs') s'
    | (s', Some issue) \<Rightarrow> \<not> valid_results n (rs @ rs')"
  using assms
proof (induction rs' arbitrary: rs s)
  case (Cons r rs')
  show ?case
  proof (cases "0 \<le> re_index r \<and> nat (re_index r) < n \<and> \<not> ss_seen s ! nat (re_index r)")
    case True
    then show ?thesis
      using Cons.IH [OF seen_ok_step [OF Cons.prems, of r]] by (simp add: Let_def)
  next
    case False
    then have "\<not> valid_results n (rs @ r # rs')"
      using Cons.prems by (auto simp: seen_ok_def valid_results_def nat_less_iff)
    then show ?thesis using False by (auto simp: Let_def split: sum.split)
  qed
qed simp

definition items_ok ::
    "Env \<Rightarrow> nat \<Rightarrow> ResponseEntry list \<Rightarrow> status option \<Rightarrow> StreamResult \<Rightarrow> bool" where
  "items_ok x n rs failure r \<longleftrightarrow> (case sr_protocol_issue r of
      None \<Rightarrow> seen_ok x n rs (sr_seen r) \<and> sr_stream_failure r = failure
    | Some issue \<Rightarrow> \<not> valid_results n rs)"

lemma consume_items_ok:
  assumes "seen_ok x n rs s"
  shows "items_ok x n (rs @ fst (stream_results items)) (snd (stream_results items))
    (fst (consume_items x n s items tw))"
  using assms
proof (induction x n s items tw arbitrary: rs rule: consume_items.induct)
  case (4 x n s rs' items tw)
  obtain s' issue where c: "consume_entries x n s rs' = (s', issue)" by fastforce
  show ?case
  proof (cases issue)
    case None
    then have "seen_ok x n (rs @ rs') s'" using consume_entries_ok [OF 4(2), of rs'] c by simp
    from 4(1) [OF refl c [symmetric] None this] show ?thesis
      using c None by (simp add: Let_def split_beta)
  next
    case (Some i)
    then have "\<not> valid_results n (rs @ rs')" using consume_entries_ok [OF 4(2), of rs'] c by simp
    then show ?thesis
      using c Some valid_results_prefix [of n "rs @ rs'" "fst (stream_results items)"]
      by (auto simp: items_ok_def Let_def split_beta)
  qed
qed (simp_all add: items_ok_def)

lemma set_failed_results:
  assumes "valid_results n rs"
  shows "(j, st) \<in> set (failed_results x rs) \<longleftrightarrow> result_of x rs j = Some (Inl st)"
proof -
  have "inj_on (\<lambda>r. nat (re_index r)) (set rs) \<and> distinct rs"
    using assms by (auto simp: valid_results_def distinct_map inj_on_def list_all_iff eq_nat_nat_iff)
  then have "distinct (map fst (map (\<lambda>r. (nat (re_index r), status_result x (re_status r))) rs))"
    by (simp add: comp_def distinct_map)
  then have "result_of x rs j = Some v \<longleftrightarrow>
      (j, v) \<in> set (map (\<lambda>r. (nat (re_index r), status_result x (re_status r))) rs)" for v
    by (simp only: result_of_def map_of_eq_Some_iff)
  then show ?thesis
    by (auto simp: failed_results_def split: sum.splits)
qed

lemma distinct_failed_results:
  assumes "valid_results n rs" shows "distinct (map fst (failed_results x rs))"
  using assms
proof (induction rs)
  case (Cons r rs)
  have "nat (re_index r) \<notin> fst ` set (failed_results x rs)"
    using Cons.prems by (auto simp: failed_results_def valid_results_def list_all_iff
        eq_nat_nat_iff image_iff split: sum.splits)
  then show ?case
    using Cons by (auto simp: failed_results_def valid_results_def split: sum.split)
qed (simp add: failed_results_def)

lemma result_of_None:
  "result_of x rs j = None \<longleftrightarrow> j \<notin> (\<lambda>r. nat (re_index r)) ` set rs"
  by (auto simp: result_of_def map_of_eq_None_iff image_iff)

lemma foldl_all_successful:
  "\<forall>j. i \<le> j \<longrightarrow> j < i + length es \<longrightarrow> (\<exists>u. lookup j = Some (Inr u)) \<Longrightarrow>
     foldl (file_entry x limit lookup sf) out (enumerate i es)
     = out\<lparr>ao_successful := ao_successful out + length es\<rparr>"
proof (induction es arbitrary: i out)
  case (Cons e es)
  obtain u where "lookup i = Some (Inr u)" using Cons.prems by auto
  moreover have "\<forall>j. Suc i \<le> j \<longrightarrow> j < Suc i + length es \<longrightarrow> (\<exists>u. lookup j = Some (Inr u))"
    using Cons.prems by auto
  ultimately show ?case using Cons.IH [of "Suc i"] by (simp add: file_entry_apply)
qed simp

text \<open>When as many results as entries have come, every entry has one.\<close>

lemma all_seen:
  assumes "valid_results n rs" "length rs = n" "j < n"
  shows "int j \<in> re_index ` set rs"
proof -
  have "card (re_index ` set rs) = n"
    using assms(1,2) by (metis distinct_card length_map list.set_map valid_results_def)
  moreover have "re_index ` set rs \<subseteq> {0..<int n}"
    using assms(1) by (auto simp: valid_results_def list_all_iff)
  ultimately have "re_index ` set rs = {0..<int n}"
    by (intro card_subset_eq) simp_all
  then show ?thesis using assms(3) by simp
qed

lemma stream_outcome_reference:
  assumes "seen_ok x (length current) rs (sr_seen r)" and "sr_protocol_issue r = None"
  shows "stream_outcome x limit current r = reference_outcome x limit current rs (sr_stream_failure r)"
proof (cases "length rs = length current \<and> failed_results x rs = []")
  case True
  have valid: "valid_results (length current) rs" using assms(1) by (simp add: seen_ok_def)
  have "\<exists>u. result_of x rs j = Some (Inr u)" if "j < length current" for j
  proof -
    have "int j \<in> re_index ` set rs" using all_seen [OF valid _ that] True by simp
    then have "j \<in> (\<lambda>r. nat (re_index r)) ` set rs" by force
    then obtain v where "result_of x rs j = Some v"
      using result_of_None [of x rs j] by blast
    moreover have "v \<noteq> Inl st" for st
      using set_failed_results [OF valid, of j st x] True calculation by auto
    ultimately show ?thesis by (cases v) auto
  qed
  then show ?thesis
    using foldl_all_successful [of 0 current "result_of x rs"] assms True
    by (simp add: stream_outcome_def seen_ok_def reference_outcome_def outcome_default_def)
next
  case False
  have valid: "valid_results (length current) rs" using assms(1) by (simp add: seen_ok_def)
  let ?fs = "sort_key fst (failed_results x rs)"
  have "sort_out x limit (ss_seen (sr_seen r)) (sr_stream_failure r) 0 current ?fs outcome_default
      = (foldl (file_entry x limit (result_of x rs) (sr_stream_failure r)) outcome_default
          (enumerate 0 current), [])"
  proof (rule sort_out_reference)
    have "distinct (map fst ?fs)"
      using distinct_failed_results [OF valid] by (metis distinct_map distinct_sort set_sort)
    then show "sorted_wrt (<) (map fst ?fs)"
      using sorted_sort_key [of fst] by (simp add: strict_sorted_iff)
    show "0 \<le> j \<and> j < 0 + length current \<and> result_of x rs j = Some (Inl st)"
      if "(j, st) \<in> set ?fs" for j st
    proof -
      have "result_of x rs j = Some (Inl st)" using that set_failed_results [OF valid] by simp
      moreover from this have "j \<in> (\<lambda>r. nat (re_index r)) ` set rs"
        using result_of_None [of x rs j] by auto
      ultimately show ?thesis using valid by (auto simp: valid_results_def list_all_iff)
    qed
    show "ss_seen (sr_seen r) ! j = (result_of x rs j \<noteq> None)"
      if "0 \<le> j" "j < 0 + length current" for j
    proof -
      have "int j \<in> re_index ` set rs \<longleftrightarrow> j \<in> (\<lambda>r. nat (re_index r)) ` set rs"
        using valid by (auto simp: valid_results_def list_all_iff image_iff) (metis nat_int)+
      then show ?thesis
        using assms(1) that result_of_None [of x rs j] by (simp add: seen_ok_def)
    qed
  qed (simp add: set_failed_results [OF valid])
  then show ?thesis
    using assms False by (auto simp: stream_outcome_def seen_ok_def reference_outcome_def)
qed

definition first_seen :: "nat \<Rightarrow> SeenState" where
  "first_seen n = \<lparr>ss_seen = replicate n False, ss_seen_count = 0, ss_entry_failures = []\<rparr>"

lemma seen_ok_first: "seen_ok x n [] (first_seen n)"
  by (simp add: seen_ok_def first_seen_def valid_results_def failed_results_def)

lemma consume_stream_reference:
  assumes "stream_results items = (rs, failure)"
  shows "if valid_results (length current) rs
    then fst (consume_stream x limit current items tw) = reference_outcome x limit current rs failure
    else \<exists>issue. fst (consume_stream x limit current items tw) = invalid_response_outcome current issue"
proof -
  let ?r = "fst (consume_items x (length current) (first_seen (length current)) items tw)"
  have ok: "items_ok x (length current) rs failure ?r"
    using consume_items_ok [OF seen_ok_first, of x "length current" items tw] assms by simp
  have out: "fst (consume_stream x limit current items tw) = stream_outcome x limit current ?r"
    by (simp add: consume_stream_def first_seen_def split_beta)
  show ?thesis
  proof (cases "sr_protocol_issue ?r")
    case None
    then have "seen_ok x (length current) rs (sr_seen ?r)" "sr_stream_failure ?r = failure"
      using ok by (simp_all add: items_ok_def)
    then show ?thesis
      using stream_outcome_reference [OF _ None, of x current rs limit] out
      by (simp add: seen_ok_def)
  next
    case (Some issue)
    then show ?thesis using ok out by (auto simp: items_ok_def stream_outcome_def)
  qed
qed

lemma result_of_mset:
  assumes "valid_results n rs" and "mset rs = mset rs'"
  shows "valid_results n rs' \<and> result_of x rs' = result_of x rs"
proof -
  have same: "set rs = set rs'" using assms(2) by (rule mset_eq_setD)
  have "mset (map re_index rs) = mset (map re_index rs')" using assms(2) by simp
  then have "distinct (map re_index rs')"
    using assms(1) mset_eq_imp_distinct_iff unfolding valid_results_def by blast
  then have valid: "valid_results n rs'"
    using assms(1) same by (auto simp: valid_results_def list_all_iff)
  have keys: "distinct (map fst (map (\<lambda>r. (nat (re_index r), status_result x (re_status r))) qs))"
    if "valid_results n qs" for qs
  proof -
    have "inj_on nat (set (map re_index qs))"
      using that by (auto simp: valid_results_def list_all_iff inj_on_def eq_nat_nat_iff)
    then have "distinct (map nat (map re_index qs))"
      using that by (simp only: valid_results_def distinct_map)
    then show ?thesis by (simp add: comp_def)
  qed
  have "result_of x rs' = result_of x rs"
    unfolding result_of_def fun_eq_iff
    using map_of_inject_set [OF keys [OF valid] keys [OF assms(1)]] same by auto
  with valid show ?thesis by blast
qed

section \<open>Properties\<close>

text \<open>
  An attempt accounts for every entry exactly once. Whatever the stream delivers, or
  whatever status the call fails with, successes, failures and entries to send again add up to
  the entries of the request, no entry is counted twice, only retry-safe entries with attempts
  left are sent again, in their order, and each failure names its entry and its attempts.
\<close>

theorem attempt_accounts_for_every_entry:
  "outcome_ok limit current (fst (consume_stream x limit current items tw))
   \<and> outcome_ok limit current (rpc_failure x limit current status)"
  by (simp add: consume_stream_ok rpc_failure_ok)

text \<open>
  Consuming a stream, with its early exit, its sorted failures and its second loop, is
  looking every entry up in the results received: a success, the entry's own status, the
  status that ended the stream, or a missing result. If a result is out of range or repeated,
  all entries fail with the protocol issue and none is sent again.
\<close>

theorem consume_stream_is_lookup:
  "let rs = fst (stream_results items); failure = snd (stream_results items);
       outcome = fst (consume_stream x limit current items tw)
   in if valid_results (length current) rs
      then outcome = reference_outcome x limit current rs failure
      else \<exists>issue. outcome = invalid_response_outcome current issue"
  using consume_stream_reference [of items "fst (stream_results items)" "snd (stream_results items)"]
  by (simp add: Let_def)

text \<open>
  The outcome of an attempt does not depend on the order in which valid results arrive
  nor on how they are grouped into messages.
\<close>

theorem arrival_order_is_irrelevant:
  assumes "valid_results (length current) (fst (stream_results items))"
    and "mset (fst (stream_results items)) = mset (fst (stream_results items'))"
    and "snd (stream_results items) = snd (stream_results items')"
  shows "fst (consume_stream x limit current items tw)
    = fst (consume_stream x limit current items' tw')"
proof -
  have "fst (consume_stream x limit current items tw)
      = reference_outcome x limit current (fst (stream_results items)) (snd (stream_results items))"
    using consume_stream_reference [where items = items and tw = tw, OF prod.collapse [symmetric], of current x limit]
      assms(1) by simp
  moreover have "fst (consume_stream x limit current items' tw')
      = reference_outcome x limit current (fst (stream_results items')) (snd (stream_results items'))"
    using consume_stream_reference [where items = items' and tw = tw', OF prod.collapse [symmetric], of current x limit]
      result_of_mset [OF assms(1,2)] by simp
  ultimately show ?thesis
    using result_of_mset [OF assms(1,2), of x] assms(3) by (simp add: reference_outcome_def)
qed

definition sample_tracker :: AttemptTracker where
  "sample_tracker = \<lparr>at_batch = Some 0, at_attempt = 1, at_started = 0, at_first_response = None,
     at_finished = False\<rparr>"

definition sample_entries :: "PendingEntry list" where
  "sample_entries = map pending_of (enumerate 0 [sample_row_mutation, sample_row_mutation])"

definition sample_failure :: ResponseEntry where
  "sample_failure = \<lparr>re_index = 0, re_status =
     Some \<lparr>rpc_code = 14, rpc_message = ''busy'', rpc_details = []\<rparr>\<rparr>"

definition sample_success :: ResponseEntry where
  "sample_success = \<lparr>re_index = 1, re_status = None\<rparr>"

theorem arrival_order_is_irrelevant_witness:
  "fst (consume_stream sample_env 3 sample_entries
      [Response [sample_failure, sample_success]] (sample_tracker, sample_world))
   = fst (consume_stream sample_env 3 sample_entries
      [Response [sample_success], Response [], Response [sample_failure]] (sample_tracker, sample_world))"
  by (rule arrival_order_is_irrelevant)
    (simp_all add: valid_results_def sample_entries_def sample_failure_def sample_success_def)

end
