(* ===== verification/Write.thy ===== *)
theory Write
  imports Attempt
begin

text \<open>
  \<open>write.rs\<close>: the options of a bulk mutation, and the retry loop of one batch.

  The service is a parameter: \<open>sv_mutate_rows\<close> answers the request of an attempt of a batch,
  \<open>sv_sleep_expires\<close> tells whether the sleep after an attempt runs into the deadline. A result
  \<open>None\<close> is a panic, which only the computation of a backoff can cause.
\<close>

section \<open>Options and results\<close>

record BulkMutationOptions =
  wo_retry :: RetryPolicy
  wo_deadlines :: DeadlinePolicy
  wo_batch :: BatchPolicy

definition bulk_mutation_options_default :: BulkMutationOptions where
  "bulk_mutation_options_default =
     \<lparr>wo_retry = retry_policy_default,
      wo_deadlines = \<lparr>operation_timeout = secs 600, attempt_timeout = secs 60\<rparr>,
      wo_batch = batch_policy_default\<rparr>"

record BulkMutationResult =
  br_entries :: nat
  br_rpc_attempts :: u32
  br_request_batches :: nat

definition bulk_mutation_result_default :: BulkMutationResult where
  "bulk_mutation_result_default = \<lparr>br_entries = 0, br_rpc_attempts = 0, br_request_batches = 0\<rparr>"

fun bulk_policy_issue :: "PolicyIssue \<Rightarrow> BulkMutationPolicyIssue" where
  "bulk_policy_issue PolicyIssue.ZeroMaxAttempts = BulkMutationPolicyIssue.ZeroMaxAttempts"
| "bulk_policy_issue PolicyIssue.ZeroInitialBackoff = BulkMutationPolicyIssue.ZeroInitialBackoff"
| "bulk_policy_issue PolicyIssue.ZeroMaxBackoff = BulkMutationPolicyIssue.ZeroMaxBackoff"
| "bulk_policy_issue PolicyIssue.MaxBackoffTooSmall = BulkMutationPolicyIssue.MaxBackoffTooSmall"
| "bulk_policy_issue PolicyIssue.InvalidBackoffMultiplier =
     BulkMutationPolicyIssue.InvalidBackoffMultiplier"
| "bulk_policy_issue PolicyIssue.ZeroOperationTimeout = BulkMutationPolicyIssue.ZeroOperationTimeout"
| "bulk_policy_issue PolicyIssue.ZeroAttemptTimeout = BulkMutationPolicyIssue.ZeroAttemptTimeout"

definition validate_options :: "BulkMutationOptions \<Rightarrow> (Error, unit) result" where
  "validate_options options =
     and_then (map_err (\<lambda>issue. invalid_bulk_mutation_policy (bulk_policy_issue issue))
                 (validate_policies (wo_retry options) (wo_deadlines options))) (\<lambda>_.
       if max_entries_per_request (wo_batch options) = 0
       then Err (invalid_bulk_mutation_policy ZeroEntriesPerRequest)
       else if max_request_bytes (wo_batch options) = 0
       then Err (invalid_bulk_mutation_policy ZeroRequestBytes)
       else if max_in_flight_requests (wo_batch options) = 0
       then Err (invalid_bulk_mutation_policy ZeroInFlightRequests)
       else Ok ())"

definition routing_header :: "Env \<Rightarrow> string \<Rightarrow> (Error, string) result" where
  "routing_header x table =
     map_err (\<lambda>source. InvalidClientMetadata ''x-goog-request-params'' source)
       (x_parse_metadata x (''table_name='' @ table))"

section \<open>One batch\<close>

record MutateRowsRequest =
  mr_table_name :: string
  mr_app_profile_id :: string
  mr_entries :: "Entry list"
  mr_routing :: string
  mr_timeout :: "duration option"

record Service =
  sv_mutate_rows :: "nat \<Rightarrow> u32 \<Rightarrow> MutateRowsRequest \<Rightarrow> MutateReply"
  sv_sleep_expires :: "nat \<Rightarrow> u32 \<Rightarrow> bool"

record BatchOperation =
  bo_table_name :: string
  bo_app_profile_id :: string
  bo_routing :: string
  bo_options :: BulkMutationOptions
  bo_deadline :: instant
  bo_pending :: "PendingEntry list"
  bo_successful :: nat
  bo_failures :: "MutationFailure list"
  bo_rpc_attempts :: u32
  bo_batch :: nat

abbreviation bo_limit :: "BatchOperation \<Rightarrow> u32" where
  "bo_limit self \<equiv> max_attempts (wo_retry (bo_options self))"

definition fail_pending_deadline :: "BatchOperation \<Rightarrow> BatchOperation" where
  "fail_pending_deadline self =
     self\<lparr>bo_failures := bo_failures self @
            map (\<lambda>entry. \<lparr>mf_index = pe_original_index entry, mf_attempts = pe_attempts entry,
                   mf_cause = MutationFailureCause.DeadlineExceeded
                     (operation_timeout (wo_deadlines (bo_options self)))\<rparr>) (bo_pending self),
          bo_pending := []\<rparr>"

definition write_request ::
    "Env \<Rightarrow> BatchOperation \<Rightarrow> PendingEntry list \<Rightarrow> instant \<Rightarrow> World \<Rightarrow> MutateRowsRequest \<times> World" where
  "write_request x self entries attempt_deadline w =
     (let (t, w) = now_instant (x_clock x) w
      in (\<lparr>mr_table_name = bo_table_name self, mr_app_profile_id = bo_app_profile_id self,
           mr_entries = map pe_proto entries, mr_routing = bo_routing self,
           mr_timeout = (if t \<le> attempt_deadline then Some (attempt_deadline - t) else None)\<rparr>, w))"

text \<open>
  A round of the loop of \<open>run\<close> up to the point where the outcome of the attempt has been
  taken over: the entries with their attempts counted, the request, the outcome.
\<close>

definition run_attempt ::
    "Env \<Rightarrow> Service \<Rightarrow> BatchOperation \<Rightarrow> World
     \<Rightarrow> (PendingEntry list \<times> MutateRowsRequest \<times> AttemptOutcome) \<times> BatchOperation \<times> World" where
  "run_attempt x svc self w =
     (let self = self\<lparr>bo_rpc_attempts := sat_inc (bo_rpc_attempts self)\<rparr>;
          current = map (\<lambda>entry. entry\<lparr>pe_attempts := sat_inc (pe_attempts entry)\<rparr>) (bo_pending self);
          self = self\<lparr>bo_pending := []\<rparr>;
          (t, w) = now_instant (x_clock x) w;
          attempt_deadline =
            (case checked_add x t (attempt_timeout (wo_deadlines (bo_options self))) of
               None \<Rightarrow> bo_deadline self
             | Some d \<Rightarrow> min d (bo_deadline self));
          (t, w) = now_instant (x_clock x) w;
          timeout = attempt_deadline - t;
          (request, w) = write_request x self current attempt_deadline w;
          (telemetry, w) = handle_attempt (x_clock x) (Some (bo_batch self)) (bo_rpc_attempts self)
            (length current) timeout w;
          (attempt, telemetry, w) =
            (case sv_mutate_rows svc (bo_batch self) (bo_rpc_attempts self) request of
               Connected items \<Rightarrow> consume_stream x (bo_limit self) current items (telemetry, w)
             | Refused status \<Rightarrow> (rpc_failure x (bo_limit self) current status, telemetry, w)
             | CallTimeout \<Rightarrow>
                 (rpc_failure x (bo_limit self) current attempt_timeout_status, telemetry, w));
          (telemetry, w) = attempt_finish (x_clock x) (ao_code attempt)
            \<lparr>sum_rows = 0, sum_successful_entries = ao_successful attempt,
             sum_failed_entries = length (ao_failures attempt) + length (ao_retry attempt)\<rparr>
            (telemetry, w)
      in ((current, request, attempt),
          self\<lparr>bo_successful := bo_successful self + ao_successful attempt,
               bo_failures := bo_failures self @ ao_failures attempt,
               bo_pending := ao_retry attempt\<rparr>, w))"

text \<open>The largest number of attempts among the pending entries, 1 if there are none.\<close>

definition failed_attempt :: "PendingEntry list \<Rightarrow> u32" where
  "failed_attempt pending =
     (case pending of [] \<Rightarrow> 1
      | entry # rest \<Rightarrow> fold (\<lambda>entry m. max m (pe_attempts entry)) rest (pe_attempts entry))"

text \<open>
  The rest of the round, when entries are pending: wait for the backoff, unless the deadline
  comes first. The flag tells whether the loop goes on.
\<close>

definition run_pause ::
    "Env \<Rightarrow> Service \<Rightarrow> AttemptOutcome \<Rightarrow> BatchOperation \<Rightarrow> World \<Rightarrow> (bool \<times> BatchOperation \<times> World) option"
  where
  "run_pause x svc attempt self w =
     (let failed = failed_attempt (bo_pending self)
      in case backoff (x_powi x) (x_rand x (w_ticks w)) (wo_retry (bo_options self)) failed of
           None \<Rightarrow> None
         | Some b \<Rightarrow>
             (let delay = max b (ao_retry_delay attempt);
                  (t, w) = now_instant (x_clock x) w
              in if t > bo_deadline self \<or> delay \<ge> bo_deadline self - t
                 then Some (False, fail_pending_deadline self, w)
                 else
                   let w = handle_retry (Some (bo_batch self)) failed (ao_code attempt) delay
                             (length (bo_pending self)) w
                   in if sv_sleep_expires svc (bo_batch self) (bo_rpc_attempts self)
                      then Some (False, fail_pending_deadline self, w)
                      else Some (True, self, w)))"

text \<open>The requests handed to the service, each with the entries it carries, in order.\<close>

type_synonym sent = "(PendingEntry list \<times> MutateRowsRequest) list"

lemma run_attempt_pending:
  "bo_pending (fst (snd (run_attempt x svc self w))) = ao_retry (snd (snd (fst (run_attempt x svc self w))))"
  by (simp add: run_attempt_def Let_def split_beta)

text \<open>Terminates because an entry is sent again only with attempts left, after counting one.\<close>

definition attempts_left :: "BatchOperation \<Rightarrow> nat" where
  "attempts_left self =
     (if bo_pending self = [] then 0
      else Suc u32_max - Min (set (map (\<lambda>e. unat (pe_attempts e)) (bo_pending self))))"

definition count_attempt :: "PendingEntry \<Rightarrow> PendingEntry" where
  "count_attempt entry = entry\<lparr>pe_attempts := sat_inc (pe_attempts entry)\<rparr>"

lemma count_attempt_fields [simp]:
  "pe_original_index (count_attempt e) = pe_original_index e" "pe_proto (count_attempt e) = pe_proto e"
  "pe_retry_safe (count_attempt e) = pe_retry_safe e"
  "pe_attempts (count_attempt e) = sat_inc (pe_attempts e)"
  by (simp_all add: count_attempt_def)

text \<open>What a round does to the operation, in terms of the outcome of its attempt.\<close>

definition round_ok ::
    "BatchOperation \<Rightarrow> PendingEntry list \<times> MutateRowsRequest \<times> AttemptOutcome \<Rightarrow> BatchOperation \<Rightarrow> bool"
  where
  "round_ok self = (\<lambda>(current, request, attempt) self'.
     current = map count_attempt (bo_pending self) \<and> outcome_ok (bo_limit self) current attempt
   \<and> mr_entries request = map pe_proto current
   \<and> self' = self\<lparr>bo_rpc_attempts := sat_inc (bo_rpc_attempts self),
       bo_successful := bo_successful self + ao_successful attempt,
       bo_failures := bo_failures self @ ao_failures attempt, bo_pending := ao_retry attempt\<rparr>)"

lemma run_attempt_ok:
  "round_ok self (fst (run_attempt x svc self w)) (fst (snd (run_attempt x svc self w)))"
  by (simp add: run_attempt_def round_ok_def Let_def split_beta write_request_def count_attempt_def
      consume_stream_ok rpc_failure_ok split: MutateReply.split)

lemma run_pause_fields:
  assumes "run_pause x svc attempt self w = Some (continue, self', w')"
  shows "self' = (if continue then self else fail_pending_deadline self)"
  using assms
  by (auto simp: run_pause_def Let_def now_instant_def split: option.splits if_splits)

lemma attempts_left_decreases:
  assumes "round_ok self out self'" and "bo_pending self \<noteq> []" and "bo_pending self' \<noteq> []"
  shows "attempts_left self' < attempts_left self"
proof -
  obtain current request attempt where out: "out = (current, request, attempt)" by (cases out)
  let ?att = "\<lambda>s. set (map (\<lambda>e. unat (pe_attempts e)) (bo_pending s))"
  have retry: "bo_pending self' = ao_retry attempt" "outcome_ok (bo_limit self) current attempt"
    "current = map count_attempt (bo_pending self)"
    using assms(1) by (auto simp: round_ok_def out)
  obtain e' where e': "e' \<in> set (bo_pending self')" "unat (pe_attempts e') = Min (?att self')"
  proof -
    have "Min (?att self') \<in> ?att self'" using assms(3) by (intro Min_in) simp_all
    then show ?thesis using that by auto
  qed
  have "e' \<in> set current" "pe_attempts e' < bo_limit self"
    using retry e'(1) list_emb_set [of "(=)" "bo_pending self'" current]
    by (auto simp: outcome_ok_def ends_ok_def list_all_iff)
  then obtain e where e: "e \<in> set (bo_pending self)" "pe_attempts e' = sat_inc (pe_attempts e)"
    using retry(3) by auto
  have "unat (pe_attempts e') < u32_max"
    using \<open>pe_attempts e' < bo_limit self\<close> unat_u32_le [of "bo_limit self"]
    by (simp add: word_less_nat_alt)
  then have "unat (pe_attempts e') = Suc (unat (pe_attempts e))"
    using e(2) by (simp add: unat_sat_inc min_def split: if_splits)
  moreover have "Min (?att self) \<le> unat (pe_attempts e)" using e(1) by (intro Min_le) auto
  ultimately have "Min (?att self) < Min (?att self')" "Min (?att self') < u32_max"
    using e'(2) \<open>unat (pe_attempts e') < u32_max\<close> by linarith+
  then have "Suc u32_max - Min (?att self') < Suc u32_max - Min (?att self)" by linarith
  then show ?thesis using assms(2,3) by (simp only: attempts_left_def if_False)
qed

function run_loop ::
    "Env \<Rightarrow> Service \<Rightarrow> BatchOperation \<Rightarrow> World \<Rightarrow> sent \<Rightarrow> (BatchOperation \<times> World \<times> sent) option" where
  "run_loop x svc self w sent =
     (if bo_pending self = [] then Some (self, w, sent)
      else
        let (t, w) = now_instant (x_clock x) w
        in if t \<ge> bo_deadline self then Some (fail_pending_deadline self, w, sent)
           else
             (case run_attempt x svc self w of
                ((current, request, attempt), self', w) \<Rightarrow>
                  let sent = sent @ [(current, request)]
                  in if bo_pending self' = [] then Some (self', w, sent)
                     else (case run_pause x svc attempt self' w of
                         None \<Rightarrow> None
                       | Some (continue, self'', w) \<Rightarrow>
                           if continue then run_loop x svc self'' w sent
                           else Some (self'', w, sent))))"
  by pat_completeness auto
termination
proof (relation "measure (\<lambda>(x, svc, self, w, sent). attempts_left self)", goal_cases)
  case (2 x svc self w sent now t w1 out rest current out' request attempt self' w2 sent' p continue q self'' w3)
  then have "run_attempt x svc self w1 = ((current, request, attempt), self', w2)" by simp
  then have "round_ok self (current, request, attempt) self'"
    using run_attempt_ok [of self x svc w1] by simp
  moreover have "self'' = self'" using 2 run_pause_fields by fastforce
  ultimately show ?case using 2 attempts_left_decreases by simp
qed simp

declare run_loop.simps [simp del]

record BatchOutcome =
  out_successful :: nat
  out_failures :: "MutationFailure list"
  out_rpc_attempts :: u32

definition batch_run :: "Env \<Rightarrow> Service \<Rightarrow> BatchOperation \<Rightarrow> World \<Rightarrow> (BatchOutcome \<times> World \<times> sent) option"
  where
  "batch_run x svc self w =
     map_option (\<lambda>(self, w, sent).
       (\<lparr>out_successful = bo_successful self, out_failures = bo_failures self,
         out_rpc_attempts = bo_rpc_attempts self\<rparr>, w, sent))
       (run_loop x svc self w [])"

section \<open>What a batch guarantees\<close>

text \<open>Invariants of the loop: kept by a round and by giving up on what is pending.\<close>

lemma run_loop_invariant:
  assumes "run_loop x svc self w sent = Some (self', w', sent')" and "P self sent"
    and step: "\<And>self w sent current request attempt self' w'.
      \<lbrakk>P self sent; bo_pending self \<noteq> [];
        run_attempt x svc self w = ((current, request, attempt), self', w')\<rbrakk>
      \<Longrightarrow> P self' (sent @ [(current, request)])"
    and give_up: "\<And>self sent. P self sent \<Longrightarrow> P (fail_pending_deadline self) sent"
  shows "P self' sent' \<and> bo_pending self' = []"
  using assms(1-3)
proof (induction x svc self w sent rule: run_loop.induct)
  case (1 x svc self w sent)
  have gave_up: "bo_pending (fail_pending_deadline s) = []" for s
    by (simp add: fail_pending_deadline_def)
  obtain t w1 where now: "now_instant (x_clock x) w = (t, w1)" by fastforce
  obtain current request attempt self1 w2 where
    run: "run_attempt x svc self w1 = ((current, request, attempt), self1, w2)"
    by (metis prod.exhaust)
  let ?sent = "sent @ [(current, request)]"
  show ?case
  proof (cases "bo_pending self = [] \<or> t \<ge> bo_deadline self")
    case True
    then show ?thesis
      using 1(2,3) now give_up gave_up
      by (subst (asm) run_loop.simps) (auto split: if_splits)
  next
    case False
    then have P1: "P self1 ?sent" using 1(4) [OF 1(3) _ run] by simp
    show ?thesis
    proof (cases "bo_pending self1 = []")
      case True
      then show ?thesis
        using 1(2) False now run P1 by (subst (asm) run_loop.simps) simp
    next
      case pending: False
      then obtain continue self2 w3 where
        pause: "run_pause x svc attempt self1 w2 = Some (continue, self2, w3)"
        using 1(2) False now run
        by (subst (asm) run_loop.simps) (auto simp: Let_def split: option.splits)
      have self2: "self2 = (if continue then self1 else fail_pending_deadline self1)"
        using run_pause_fields [OF pause] .
      show ?thesis
      proof (cases continue)
        case True
        have "run_loop x svc self2 w3 ?sent = Some (self', w', sent')"
          using 1(2) False now run pause pending True by (subst (asm) run_loop.simps) simp
        then show ?thesis
          using 1(1) [OF _ now [symmetric] refl _ run [symmetric] refl refl refl refl _ pause refl refl True _ _ 1(4)]
            False pending self2 True P1 by simp
      next
        case stop: False
        then show ?thesis
          using 1(2) False now run pause pending self2 give_up [OF P1] gave_up [of self1]
          by (subst (asm) run_loop.simps) auto
      qed
    qed
  qed
qed

text \<open>An entry as it was queued, but for the attempts counted since.\<close>

definition queued_in :: "PendingEntry list \<Rightarrow> PendingEntry \<Rightarrow> bool" where
  "queued_in es e \<longleftrightarrow> (\<exists>e0 \<in> set es. e = e0\<lparr>pe_attempts := pe_attempts e\<rparr>)"

definition batch_inv :: "PendingEntry list \<Rightarrow> u32 \<Rightarrow> BatchOperation \<Rightarrow> sent \<Rightarrow> bool" where
  "batch_inv es limit self sent \<longleftrightarrow>
     bo_limit self = limit
   \<and> bo_successful self + length (bo_failures self) + length (bo_pending self) = length es
   \<and> mset (map mf_index (bo_failures self)) + mset (map pe_original_index (bo_pending self))
       \<subseteq># mset (map pe_original_index es)
   \<and> list_all (\<lambda>e. queued_in es e \<and> unat (pe_attempts e) = length sent \<and> pe_attempts e < limit
       \<and> (sent \<noteq> [] \<longrightarrow> pe_retry_safe e)) (bo_pending self)
   \<and> unat (bo_rpc_attempts self) = length sent \<and> length sent \<le> unat limit
   \<and> list_all (\<lambda>f. unat (mf_attempts f) \<le> length sent) (bo_failures self)
   \<and> list_all (\<lambda>(current, request). current \<noteq> [] \<and> mr_entries request = map pe_proto current
       \<and> list_all (queued_in es) current) sent
   \<and> list_all (\<lambda>(current, request). list_all pe_retry_safe current) (tl sent)"

lemma batch_inv_give_up: "batch_inv es limit self sent \<Longrightarrow> batch_inv es limit (fail_pending_deadline self) sent"
  by (auto simp: batch_inv_def fail_pending_deadline_def list_all_iff comp_def)

lemma batch_inv_round:
  assumes inv: "batch_inv es limit self sent" and pending: "bo_pending self \<noteq> []"
    and round: "round_ok self (current, request, attempt) self'"
  shows "batch_inv es limit self' (sent @ [(current, request)])"
proof -
  have cur: "current = map count_attempt (bo_pending self)"
    and ends: "ends_ok limit current (ao_successful attempt) (ao_failures attempt) (ao_retry attempt)"
    and req: "mr_entries request = map pe_proto current"
    and self': "self' = self\<lparr>bo_rpc_attempts := sat_inc (bo_rpc_attempts self),
       bo_successful := bo_successful self + ao_successful attempt,
       bo_failures := bo_failures self @ ao_failures attempt, bo_pending := ao_retry attempt\<rparr>"
    using round inv by (auto simp: round_ok_def outcome_ok_def batch_inv_def)
  obtain e0 where "e0 \<in> set (bo_pending self)" using pending by (cases "bo_pending self") auto
  then have below: "length sent < unat limit"
    using inv by (auto simp: batch_inv_def list_all_iff word_less_nat_alt)
  then have small: "length sent < u32_max" using unat_u32_le [of limit] by linarith
  have att: "unat (sat_inc a) = Suc (length sent)" if "unat a = length sent" for a :: u32
    using that small by (simp add: unat_sat_inc)
  have counted: "\<forall>e \<in> set current. queued_in es e \<and> unat (pe_attempts e) = Suc (length sent)
      \<and> (sent \<noteq> [] \<longrightarrow> pe_retry_safe e)"
  proof
    fix e assume "e \<in> set current"
    then obtain d where d: "d \<in> set (bo_pending self)" "e = count_attempt d" by (auto simp: cur)
    then have q: "queued_in es d" "unat (pe_attempts d) = length sent" "sent \<noteq> [] \<longrightarrow> pe_retry_safe d"
      using inv by (auto simp: batch_inv_def list_all_iff)
    from q(1) obtain d0 where "d0 \<in> set es" and d0: "d = d0\<lparr>pe_attempts := pe_attempts d\<rparr>"
      by (auto simp: queued_in_def)
    have "e = d0\<lparr>pe_attempts := pe_attempts e\<rparr>"
      unfolding d(2) count_attempt_def by (subst (1) d0) simp
    then have "queued_in es e" using \<open>d0 \<in> set es\<close> by (auto simp only: queued_in_def)
    moreover have "unat (pe_attempts e) = Suc (length sent)" "sent \<noteq> [] \<longrightarrow> pe_retry_safe e"
      using d(2) q(2,3) att by simp_all
    ultimately show "queued_in es e \<and> unat (pe_attempts e) = Suc (length sent)
        \<and> (sent \<noteq> [] \<longrightarrow> pe_retry_safe e)" by blast
  qed
  have retry_in: "set (ao_retry attempt) \<subseteq> set current"
    using ends list_emb_set [of "(=)" "ao_retry attempt" current] by (auto simp: ends_ok_def)
  have idx: "mset (map pe_original_index current) = mset (map pe_original_index (bo_pending self))"
    by (simp add: cur comp_def)
  have "mset (map mf_index (bo_failures self)) +
      (mset (map mf_index (ao_failures attempt)) + mset (map pe_original_index (ao_retry attempt)))
    \<subseteq># mset (map mf_index (bo_failures self)) + mset (map pe_original_index current)"
    using ends by (intro subset_mset.add_left_mono) (simp add: ends_ok_def)
  also have "\<dots> \<subseteq># mset (map pe_original_index es)"
    using inv by (simp add: batch_inv_def idx del: mset_map)
  finally have sub: "mset (map mf_index (bo_failures self')) + mset (map pe_original_index (bo_pending self'))
      \<subseteq># mset (map pe_original_index es)"
    by (simp add: self' ac_simps)
  have count: "bo_successful self' + length (bo_failures self') + length (bo_pending self') = length es"
    using inv ends cur by (simp add: batch_inv_def ends_ok_def self')
  have fails: "list_all (\<lambda>f. unat (mf_attempts f) \<le> Suc (length sent)) (ao_failures attempt)"
    using ends counted by (auto simp: ends_ok_def list_all_iff)
  have old: "bo_limit self = limit" "unat (bo_rpc_attempts self) = length sent"
    "list_all (\<lambda>f. unat (mf_attempts f) \<le> length sent) (bo_failures self)"
    "list_all (\<lambda>(current, request). current \<noteq> [] \<and> mr_entries request = map pe_proto current
       \<and> list_all (queued_in es) current) sent"
    "list_all (\<lambda>(current, request). list_all pe_retry_safe current) (tl sent)"
    using inv by (simp_all add: batch_inv_def)
  have tl: "tl (sent @ [(current, request)]) = (if sent = [] then [] else tl sent @ [(current, request)])"
    by (cases sent) auto
  show ?thesis
    unfolding batch_inv_def
  proof (intro conjI)
    show "list_all (\<lambda>e. queued_in es e \<and> unat (pe_attempts e) = length (sent @ [(current, request)])
        \<and> pe_attempts e < limit \<and> (sent @ [(current, request)] \<noteq> [] \<longrightarrow> pe_retry_safe e))
        (bo_pending self')"
      using counted retry_in ends by (auto simp: self' list_all_iff ends_ok_def)
    show "list_all (\<lambda>f. unat (mf_attempts f) \<le> length (sent @ [(current, request)])) (bo_failures self')"
      using old(3) fails by (auto simp: self' list_all_iff)
    show "list_all (\<lambda>(current, request). current \<noteq> [] \<and> mr_entries request = map pe_proto current
        \<and> list_all (queued_in es) current) (sent @ [(current, request)])"
      using old(4) counted req pending by (simp add: list_all_iff cur)
    show "list_all (\<lambda>(current, request). list_all pe_retry_safe current) (tl (sent @ [(current, request)]))"
      using old(5) counted by (simp add: tl list_all_iff)
  qed (use old att below sub count in \<open>simp_all add: self'\<close>)
qed

lemma batch_inv_start:
  assumes "bo_pending self = es" "bo_successful self = 0" "bo_failures self = []"
    "bo_rpc_attempts self = 0" "list_all (\<lambda>e. pe_attempts e = 0) es" "0 < bo_limit self"
  shows "batch_inv es (bo_limit self) self []"
proof -
  have "queued_in es e" if "e \<in> set es" for e
    using that by (intro bexI [of _ e] queued_in_def [THEN iffD2]) simp_all
  then show ?thesis using assms by (auto simp: batch_inv_def list_all_iff)
qed

lemma run_loop_batch_inv:
  assumes "run_loop x svc self w [] = Some (self', w', sent)" and "batch_inv es limit self []"
  shows "batch_inv es limit self' sent \<and> bo_pending self' = []"
proof (rule run_loop_invariant [where P = "batch_inv es limit", OF assms _ batch_inv_give_up])
  fix self w sent current request attempt self' w'
  assume "batch_inv es limit self sent" "bo_pending self \<noteq> []"
    and "run_attempt x svc self w = ((current, request, attempt), self', w')"
  then show "batch_inv es limit self' (sent @ [(current, request)])"
    using batch_inv_round run_attempt_ok [of self x svc w] by simp
qed

text \<open>The loop returns unless a backoff panics.\<close>

lemma run_loop_returns:
  assumes "\<And>k n. backoff (x_powi x) (x_rand x k) (wo_retry (bo_options self)) n \<noteq> None"
  shows "run_loop x svc self w sent \<noteq> None"
  using assms
proof (induction x svc self w sent rule: run_loop.induct)
  case (1 x svc self w sent)
  obtain t w1 where now: "now_instant (x_clock x) w = (t, w1)" by fastforce
  obtain current request attempt self1 w2 where
    run: "run_attempt x svc self w1 = ((current, request, attempt), self1, w2)"
    by (metis prod.exhaust)
  have opts: "bo_options self1 = bo_options self"
    using run_attempt_ok [of self x svc w1] run by (auto simp: round_ok_def)
  let ?sent = "sent @ [(current, request)]"
  show ?case
  proof (cases "bo_pending self = [] \<or> t \<ge> bo_deadline self \<or> bo_pending self1 = []")
    case True
    then show ?thesis using now run by (subst run_loop.simps) (auto simp: Let_def)
  next
    case False
    obtain continue self2 w3 where
      pause: "run_pause x svc attempt self1 w2 = Some (continue, self2, w3)"
      using 1(2) [of "w_ticks w2" "failed_attempt (bo_pending self1)"]
      by (cases "run_pause x svc attempt self1 w2")
        (auto simp: run_pause_def Let_def opts split: option.splits prod.splits if_splits)
    have "continue \<Longrightarrow> run_loop x svc self2 w3 ?sent \<noteq> None"
      using 1(1) [OF _ now [symmetric] refl _ run [symmetric] refl refl refl refl _ pause refl refl]
        False 1(2) run_pause_fields [OF pause] opts by simp
    then show ?thesis
      using False now run pause by (subst run_loop.simps) (simp add: Let_def)
  qed
qed

end
