(* ===== verification/BulkWrite.thy ===== *)
theory BulkWrite
  imports Write
begin

text \<open>
  \<open>write.rs\<close>: the concurrent run of all batches and the bulk mutation operation as a whole.
  Batches that run concurrently share only counters and the event log; a \<open>Schedule\<close> gives the
  clock and the random numbers each of them sees, the order in which they complete and how
  their events interleave when so many of them may run at a time (\<open>buffer\_unordered\<close>).
\<close>

section \<open>All batches\<close>

record Schedule =
  sc_clock :: "nat \<Rightarrow> nat \<Rightarrow> instant"
  sc_rand :: "nat \<Rightarrow> nat \<Rightarrow> nat \<Rightarrow> nat"
  sc_order :: "nat list"
  sc_log :: "nat \<Rightarrow> DiagnosticEvent list list \<Rightarrow> DiagnosticEvent list"

record BatchRunContext =
  ctx_app_profile_id :: string
  ctx_table_name :: string
  ctx_routing :: string
  ctx_options :: BulkMutationOptions
  ctx_deadline :: instant

definition batch_operation :: "BatchRunContext \<Rightarrow> nat \<Rightarrow> PendingEntry list \<Rightarrow> BatchOperation" where
  "batch_operation ctx batch entries =
     \<lparr>bo_table_name = ctx_table_name ctx, bo_app_profile_id = ctx_app_profile_id ctx,
      bo_routing = ctx_routing ctx, bo_options = ctx_options ctx,
      bo_deadline = ctx_deadline ctx, bo_pending = entries, bo_successful = 0,
      bo_failures = [], bo_rpc_attempts = 0, bo_batch = batch\<rparr>"

text \<open>The last loop of \<open>run\_batches\<close>: the totals over the outcomes as they complete.\<close>

definition add_outcome ::
    "nat \<times> u32 \<times> MutationFailure list \<Rightarrow> BatchOutcome \<Rightarrow> nat \<times> u32 \<times> MutationFailure list" where
  "add_outcome = (\<lambda>(successful_entries, rpc_attempts, failures) outcome.
     (successful_entries + out_successful outcome,
      sat_add rpc_attempts (out_rpc_attempts outcome),
      failures @ out_failures outcome))"

text \<open>
  A batch that runs concurrently adds its events and its counts to those of the operation;
  \<open>join_worlds\<close> puts them together when all batches are done.
\<close>

definition join_worlds :: "Schedule \<Rightarrow> nat \<Rightarrow> World \<Rightarrow> World list \<Rightarrow> World" where
  "join_worlds sch max_in_flight w ws =
     w\<lparr>w_events := w_events w @ sc_log sch max_in_flight (map w_events ws),
       w_measurements := w_measurements w @ concat (map w_measurements ws),
       w_attempts := w_attempts w + sum_list (map w_attempts ws),
       w_retries := w_retries w + sum_list (map w_retries ws)\<rparr>"

definition run_batches ::
    "Env \<Rightarrow> Service \<Rightarrow> Schedule \<Rightarrow> BatchRunContext \<Rightarrow> PendingEntry list list \<Rightarrow> World
     \<Rightarrow> ((nat \<times> u32 \<times> MutationFailure list) \<times> World \<times> sent list) option" where
  "run_batches x svc sch ctx batches w =
     (if length batches = 1 then
        (case batch_run x svc (batch_operation ctx 0 (hd batches)) w of
           None \<Rightarrow> None
         | Some (outcome, w, sent) \<Rightarrow>
             Some ((out_successful outcome, out_rpc_attempts outcome, out_failures outcome), w, [sent]))
      else
        let max_in_flight = max_in_flight_requests (wo_batch (ctx_options ctx));
            start = w\<lparr>w_events := [], w_measurements := [], w_attempts := 0, w_retries := 0\<rparr>
        in case those (map (\<lambda>i. batch_run (x\<lparr>x_clock := sc_clock sch i, x_rand := sc_rand sch i\<rparr>) svc
                   (batch_operation ctx i (batches ! i)) start) (sc_order sch)) of
             None \<Rightarrow> None
           | Some outcomes \<Rightarrow>
               Some (foldl add_outcome (0, 0, []) (map fst outcomes),
                     join_worlds sch max_in_flight w (map (fst \<circ> snd) outcomes), map (snd \<circ> snd) outcomes))"

section \<open>The operation\<close>

definition mutation_failures_code :: "MutationFailure list \<Rightarrow> Code" where
  "mutation_failures_code failures =
     (case failures of [] \<Rightarrow> Unknown
      | failure # _ \<Rightarrow> (case mf_cause failure of
          EntryStatus status _ \<Rightarrow> st_code status
        | RpcStatus status _ \<Rightarrow> st_code status
        | MutationFailureCause.DeadlineExceeded _ \<Rightarrow> Code.DeadlineExceeded
        | InvalidResponse _ \<Rightarrow> Unknown))"

text \<open>The encoded lengths of the generated messages, as \<open>split\_batches\<close> uses them.\<close>

record Lengths =
  len_request :: "string \<Rightarrow> string \<Rightarrow> nat"
  len_entry :: "Entry \<Rightarrow> nat"

definition execute ::
    "Env \<Rightarrow> Lengths \<Rightarrow> Service \<Rightarrow> Schedule \<Rightarrow> ClientConfig \<Rightarrow> BulkMutation \<Rightarrow> BulkMutationOptions \<Rightarrow> World
     \<Rightarrow> ((Error, BulkMutationResult) result \<times> World \<times> sent list) option" where
  "execute x len svc sch config mutation options w =
     (case validate_options options of
        Inl error \<Rightarrow> Some (Err error, w, [])
      | Inr _ \<Rightarrow>
          let total_entries = length (bm_entries mutation)
          in if total_entries = 0 then Some (Ok bulk_mutation_result_default, w, [])
          else
            let (t, w) = now_instant (x_clock x) w
            in case checked_add x t (operation_timeout (wo_deadlines options)) of
                 None \<Rightarrow> Some (Err (invalid_bulk_mutation_policy BulkMutationPolicyIssue.DeadlineTooLarge), w, [])
               | Some deadline \<Rightarrow>
                   let (table_id, entries) = into_parts mutation;
                       table = table_name config table_id
                   in case routing_header x table of
                        Inl error \<Rightarrow> Some (Err error, w, [])
                      | Inr routing \<Rightarrow>
                          let batches = split_batches (len_request len) (len_entry len) entries table
                                (app_profile_id config) (wo_batch options);
                              request_batches = length batches;
                              (operation, w) = telemetry_operation (x_clock x) config MutateRows table_id
                                total_entries w
                          in case run_batches x svc sch
                                 \<lparr>ctx_app_profile_id = app_profile_id config, ctx_table_name = table,
                                  ctx_routing = routing, ctx_options = options, ctx_deadline = deadline\<rparr>
                                 batches w of
                               None \<Rightarrow> None
                             | Some ((successful_entries, rpc_attempts, failures), w, sent) \<Rightarrow>
                                 let failures = sort_key mf_index failures
                                 in if failures = [] then
                                      let (operation, w) = operation_finish (x_clock x) OkCode
                                            (summary_default\<lparr>sum_successful_entries := successful_entries\<rparr>)
                                            (operation, w)
                                      in Some (Ok \<lparr>br_entries = successful_entries,
                                                  br_rpc_attempts = rpc_attempts,
                                                  br_request_batches = request_batches\<rparr>, w, sent)
                                    else
                                      let (operation, w) = operation_finish (x_clock x)
                                            (mutation_failures_code failures)
                                            (summary_default\<lparr>sum_successful_entries := successful_entries,
                                               sum_failed_entries := length failures\<rparr>) (operation, w)
                                      in Some (Err (BulkMutation
                                            \<lparr>bme_total_entries = total_entries,
                                             bme_successful_entries = successful_entries,
                                             bme_rpc_attempts = rpc_attempts,
                                             bme_failures = failures\<rparr>), w, sent))"

section \<open>What the batches add up to\<close>

text \<open>
  What is known of a finished batch: how its entries ended, and what it sent. The first
  request may carry any entry, all later ones only retry-safe entries.
\<close>

definition sent_ok :: "u32 \<Rightarrow> PendingEntry list \<Rightarrow> sent \<Rightarrow> bool" where
  "sent_ok limit es sent \<longleftrightarrow> length sent \<le> unat limit
   \<and> list_all (\<lambda>(current, request). current \<noteq> [] \<and> mr_entries request = map pe_proto current
       \<and> list_all (queued_in es) current) sent
   \<and> list_all (\<lambda>(current, request). list_all pe_retry_safe current) (tl sent)"

definition batch_result_ok :: "u32 \<Rightarrow> PendingEntry list \<Rightarrow> BatchOutcome \<times> World \<times> sent \<Rightarrow> bool" where
  "batch_result_ok limit es = (\<lambda>(outcome, w, sent).
     out_successful outcome + length (out_failures outcome) = length es
   \<and> mset (map mf_index (out_failures outcome)) \<subseteq># mset (map pe_original_index es)
   \<and> unat (out_rpc_attempts outcome) = length sent
   \<and> list_all (\<lambda>f. unat (mf_attempts f) \<le> unat limit) (out_failures outcome)
   \<and> sent_ok limit es sent)"

abbreviation ctx_limit :: "BatchRunContext \<Rightarrow> u32" where
  "ctx_limit ctx \<equiv> max_attempts (wo_retry (ctx_options ctx))"

lemma batch_run_ok:
  assumes "batch_run x svc (batch_operation ctx i es) w = Some r"
    and "list_all (\<lambda>e. pe_attempts e = 0) es" and "0 < ctx_limit ctx"
  shows "batch_result_ok (ctx_limit ctx) es r"
proof -
  obtain self w' sent where
    run: "run_loop x svc (batch_operation ctx i es) w [] = Some (self, w', sent)"
    and r: "r = (\<lparr>out_successful = bo_successful self, out_failures = bo_failures self,
        out_rpc_attempts = bo_rpc_attempts self\<rparr>, w', sent)"
    using assms(1) by (auto simp: batch_run_def)
  have "batch_inv es (ctx_limit ctx) (batch_operation ctx i es) []"
    using batch_inv_start [of "batch_operation ctx i es" es] assms(2,3)
    by (simp add: batch_operation_def)
  from run_loop_batch_inv [OF run this] show ?thesis
    by (auto simp: batch_inv_def batch_result_ok_def sent_ok_def r list_all_iff)
qed

lemma those_Some: "those xs = Some ys \<longleftrightarrow> xs = map Some ys"
proof (induction xs arbitrary: ys)
  case (Cons x xs)
  then show ?case by (cases x; cases ys) auto
qed auto

lemma foldl_add_outcome:
  "foldl add_outcome (n, r, fs) outs =
     (n + sum_list (map out_successful outs), foldl sat_add r (map out_rpc_attempts outs),
      fs @ concat (map out_failures outs))"
  by (induction outs arbitrary: n r fs) (simp_all add: add_outcome_def)

lemma outcomes_add_up:
  "list_all2 (\<lambda>i r. batch_result_ok limit (batches ! i) r) order outcomes \<Longrightarrow>
     sum_list (map (out_successful \<circ> fst) outcomes)
       + length (concat (map (out_failures \<circ> fst) outcomes))
     = sum_list (map (\<lambda>i. length (batches ! i)) order)
   \<and> mset (map mf_index (concat (map (out_failures \<circ> fst) outcomes)))
     \<subseteq># sum_list (map (\<lambda>i. mset (map pe_original_index (batches ! i))) order)"
proof (induction rule: list_all2_induct)
  case (Cons i js r rs)
  have "mset (map mf_index (out_failures (fst r))) \<subseteq># mset (map pe_original_index (batches ! i))"
    using Cons by (simp add: batch_result_ok_def split_beta)
  then show ?case
    using Cons by (auto simp: batch_result_ok_def split_beta intro: subset_mset.add_mono)
qed simp

lemma sum_list_map_perm:
  "mset js = mset ks \<Longrightarrow> sum_list (map f js) = (sum_list (map f ks) :: 'a :: comm_monoid_add)"
  by (metis mset_map sum_mset_sum_list)

lemma sum_list_perm:
  "mset js = mset [0..<n] \<Longrightarrow> sum_list (map f js) = (sum_list (map f [0..<n]) :: 'a :: comm_monoid_add)"
  by (rule sum_list_map_perm)

lemma sum_list_nth_mset:
  "sum_list (map (\<lambda>i. mset (map f (bs ! i))) [0..<length bs]) = mset (map f (concat bs))"
  by (induction bs) (simp_all add: map_upt_Suc del: upt_Suc)

lemma sum_list_nth_length: "sum_list (map (\<lambda>i. length (bs ! i)) [0..<length bs]) = length (concat bs)"
  by (induction bs) (simp_all add: map_upt_Suc del: upt_Suc)

definition schedule_ok :: "Schedule \<Rightarrow> nat \<Rightarrow> bool" where
  "schedule_ok sch n \<longleftrightarrow> mset (sc_order sch) = mset [0..<n]"

lemma schedule_order:
  assumes "schedule_ok sch n"
  shows "set (sc_order sch) = {..<n}" and "distinct (sc_order sch)"
  using mset_eq_setD [OF assms [unfolded schedule_ok_def]]
    mset_eq_imp_distinct_iff [OF assms [unfolded schedule_ok_def]]
  by (simp_all add: atLeast0LessThan)

text \<open>What batches give that all ran: the outcome of each, with a clock and random numbers of its own.\<close>

lemma run_batches_each:
  assumes run: "run_batches x svc sch ctx batches w = Some ((n, r, fs), w', sents)"
    and sch: "schedule_ok sch (length batches)"
  obtains outs :: "(BatchOutcome \<times> World \<times> sent) list" where
    "length outs = length (sc_order sch)" and "sents = map (snd \<circ> snd) outs"
    and "n = sum_list (map (out_successful \<circ> fst) outs)" and "fs = concat (map (out_failures \<circ> fst) outs)"
    and "\<forall>m < length outs. \<exists>c q v. batch_run (x\<lparr>x_clock := c, x_rand := q\<rparr>) svc
        (batch_operation ctx (sc_order sch ! m) (batches ! (sc_order sch ! m))) v = Some (outs ! m)"
proof (cases "length batches = 1")
  case True
  then obtain es where batches: "batches = [es]" by (cases batches) auto
  obtain outcome w1 sent where one:
    "batch_run x svc (batch_operation ctx 0 es) w = Some (outcome, w1, sent)"
    and out: "n = out_successful outcome" "fs = out_failures outcome" "sents = [sent]"
    using run by (auto simp: run_batches_def batches split: option.splits)
  have order: "sc_order sch = [0]" using sch True by (simp add: schedule_ok_def)
  have "x\<lparr>x_clock := x_clock x, x_rand := x_rand x\<rparr> = x" by simp
  with one have "\<exists>c q v. batch_run (x\<lparr>x_clock := c, x_rand := q\<rparr>) svc (batch_operation ctx 0 es) v
      = Some (outcome, w1, sent)" by metis
  then show thesis
    using that [of "[(outcome, w1, sent)]"] out order batches by simp
next
  case False
  let ?run = "\<lambda>i. batch_run (x\<lparr>x_clock := sc_clock sch i, x_rand := sc_rand sch i\<rparr>) svc
      (batch_operation ctx i (batches ! i)) (w\<lparr>w_events := [], w_measurements := [], w_attempts := 0, w_retries := 0\<rparr>)"
  obtain outcomes where outs: "map ?run (sc_order sch) = map Some outcomes"
    and "n = sum_list (map (out_successful \<circ> fst) outcomes)"
      "fs = concat (map (out_failures \<circ> fst) outcomes)" "sents = map (snd \<circ> snd) outcomes"
    using run False by (auto simp: run_batches_def Let_def foldl_add_outcome those_Some comp_def
        split: option.splits)
  moreover have len: "length outcomes = length (sc_order sch)" using arg_cong [OF outs, of length] by simp
  moreover have "?run (sc_order sch ! m) = Some (outcomes ! m)" if "m < length outcomes" for m
    using arg_cong [OF outs, of "\<lambda>l. l ! m"] that len by simp
  ultimately show thesis by (intro that) blast+
qed

lemma run_batches_ok:
  assumes run: "run_batches x svc sch ctx batches w = Some ((n, r, fs), w', sents)"
    and sch: "schedule_ok sch (length batches)"
    and fresh: "list_all (list_all (\<lambda>e. pe_attempts e = 0)) batches" and "0 < ctx_limit ctx"
  shows "n + length fs = length (concat batches)
    \<and> mset (map mf_index fs) \<subseteq># mset (map pe_original_index (concat batches))
    \<and> list_all (\<lambda>sent. \<exists>es \<in> set batches. sent_ok (ctx_limit ctx) es sent) sents"
proof -
  obtain outs where len: "length outs = length (sc_order sch)" and sents: "sents = map (snd \<circ> snd) outs"
    and n: "n = sum_list (map (out_successful \<circ> fst) outs)"
    and fs: "fs = concat (map (out_failures \<circ> fst) outs)"
    and each: "\<forall>m < length outs. \<exists>c q v. batch_run (x\<lparr>x_clock := c, x_rand := q\<rparr>) svc
        (batch_operation ctx (sc_order sch ! m) (batches ! (sc_order sch ! m))) v = Some (outs ! m)"
    by (rule run_batches_each [OF run sch])
  have range: "sc_order sch ! m < length batches" if "m < length outs" for m
    using schedule_order(1) [OF sch] that len nth_mem [of m "sc_order sch"] by auto
  have ok: "batch_result_ok (ctx_limit ctx) (batches ! (sc_order sch ! m)) (outs ! m)"
    if "m < length outs" for m
  proof -
    have "list_all (\<lambda>e. pe_attempts e = 0) (batches ! (sc_order sch ! m))"
      using fresh range [OF that] by (simp add: list_all_length)
    with each that show ?thesis using batch_run_ok [OF _ _ assms(4)] by blast
  qed
  have "\<exists>es \<in> set batches. sent_ok (ctx_limit ctx) es sent" if sent: "sent \<in> set sents" for sent
  proof -
    obtain m where m: "m < length outs" "sent = snd (snd (outs ! m))"
      using sent by (auto simp: sents in_set_conv_nth)
    then have "sent_ok (ctx_limit ctx) (batches ! (sc_order sch ! m)) sent"
      using ok [OF m(1)] by (simp add: batch_result_ok_def split_beta)
    then show ?thesis using range [OF m(1)] nth_mem by blast
  qed
  then have "list_all (\<lambda>sent. \<exists>es \<in> set batches. sent_ok (ctx_limit ctx) es sent) sents"
    by (simp only: list_all_iff ball_simps) blast
  moreover have all: "list_all2 (\<lambda>i r. batch_result_ok (ctx_limit ctx) (batches ! i) r) (sc_order sch) outs"
    using ok len by (simp add: list_all2_conv_all_nth)
  ultimately show ?thesis
    using outcomes_add_up [OF all, unfolded sum_list_perm [OF sch [unfolded schedule_ok_def]]
        sum_list_nth_mset sum_list_nth_length]
    unfolding n fs by blast
qed

section \<open>What the operation guarantees\<close>

abbreviation operation_batches ::
    "Lengths \<Rightarrow> ClientConfig \<Rightarrow> BulkMutation \<Rightarrow> BulkMutationOptions \<Rightarrow> PendingEntry list list" where
  "operation_batches len config mutation options \<equiv>
     split_batches (len_request len) (len_entry len) (bm_entries mutation)
       (table_name config (bm_table_id mutation)) (app_profile_id config) (wo_batch options)"

lemma operation_batches_entries:
  "concat (operation_batches len config mutation options) = map pending_of (enumerate 0 (bm_entries mutation))"
  by (simp add: split_batches_pack batch.concat_pack)

lemma map_pending_index:
  "map pe_original_index (map pending_of (enumerate n rows)) = [n..<n + length rows]"
  by (induction rows arbitrary: n) (simp_all add: pending_of_def upt_conv_Cons del: upt_Suc)

lemma operation_batches_fresh:
  "list_all (list_all (\<lambda>e. pe_attempts e = 0)) (operation_batches len config mutation options)"
proof -
  have "list_all (\<lambda>e. pe_attempts e = 0) (concat (operation_batches len config mutation options))"
    unfolding operation_batches_entries by (auto simp: list_all_iff pending_of_def)
  then show ?thesis by (auto simp: list_all_iff)
qed

text \<open>What an operation whose batches ran returns.\<close>

definition finished_result ::
    "Lengths \<Rightarrow> ClientConfig \<Rightarrow> BulkMutation \<Rightarrow> BulkMutationOptions \<Rightarrow> nat \<Rightarrow> u32
     \<Rightarrow> MutationFailure list \<Rightarrow> (Error, BulkMutationResult) result" where
  "finished_result len config mutation options n r fs =
     (if sort_key mf_index fs = []
      then Ok \<lparr>br_entries = n, br_rpc_attempts = r,
               br_request_batches = length (operation_batches len config mutation options)\<rparr>
      else Err (BulkMutation \<lparr>bme_total_entries = length (bm_entries mutation),
               bme_successful_entries = n, bme_rpc_attempts = r,
               bme_failures = sort_key mf_index fs\<rparr>))"

text \<open>
  An operation either returns before anything is sent, whatever the schedule, or runs its
  batches in a context that does not depend on the schedule.
\<close>

lemma execute_shape:
  obtains (early) res w' where
      "\<And>sch. execute x len svc sch config mutation options w = Some (res, w', [])"
      and "res = Ok bulk_mutation_result_default \<and> bm_entries mutation = []
         \<or> (\<exists>error. res = Err error \<and> (\<forall>e. error \<noteq> BulkMutation e))"
  | (ran) ctx wa where
      "validate_options options = Ok ()" and "ctx_options ctx = options"
      and "\<And>sch. map_option (\<lambda>(res, w', sents). (res, sents))
            (execute x len svc sch config mutation options w)
         = map_option (\<lambda>((n, r, fs), wb, sents). (finished_result len config mutation options n r fs, sents))
             (run_batches x svc sch ctx (operation_batches len config mutation options) wa)"
proof (cases "validate_options options")
  case (Inl error)
  then have "\<And>e. error \<noteq> BulkMutation e"
    by (auto simp: validate_options_def and_then_Inl_iff map_err_Inl_iff split: if_splits)
  with Inl show thesis by (intro early [of "Err error" w]) (auto simp: execute_def)
next
  case valid: (Inr u)
  show thesis
  proof (cases "bm_entries mutation = []")
    case True
    with valid show thesis
      by (intro early [of "Ok bulk_mutation_result_default" w]) (auto simp: execute_def)
  next
    case False
    obtain t w1 where now: "now_instant (x_clock x) w = (t, w1)" by fastforce
    show thesis
    proof (cases "checked_add x t (operation_timeout (wo_deadlines options))")
      case None
      with valid False now show thesis by (intro early) (auto simp: execute_def)
    next
      case deadline: (Some d)
      show thesis
      proof (cases "routing_header x (table_name config (bm_table_id mutation))")
        case (Inl error)
        then have "\<And>e. error \<noteq> BulkMutation e" by (auto simp: routing_header_def map_err_Inl_iff)
        with Inl valid False now deadline show thesis
          by (intro early [of "Err error" w1]) (auto simp: execute_def into_parts_def)
      next
        case routing: (Inr routing)
        obtain op w2 where op: "telemetry_operation (x_clock x) config MutateRows (bm_table_id mutation)
            (length (bm_entries mutation)) w1 = (op, w2)" by fastforce
        let ?ctx = "\<lparr>ctx_app_profile_id = app_profile_id config,
            ctx_table_name = table_name config (bm_table_id mutation), ctx_routing = routing,
            ctx_options = options, ctx_deadline = d\<rparr>"
        note facts = valid False now deadline routing op
        show thesis
        proof (rule ran [of ?ctx w2])
          fix sch
          show "map_option (\<lambda>(res, w', sents). (res, sents))
              (execute x len svc sch config mutation options w)
            = map_option (\<lambda>((n, r, fs), wb, sents).
                (finished_result len config mutation options n r fs, sents))
              (run_batches x svc sch ?ctx (operation_batches len config mutation options) w2)"
            using facts
            by (cases "run_batches x svc sch ?ctx (operation_batches len config mutation options) w2")
              (auto simp: execute_def into_parts_def finished_result_def Let_def split_beta)
        qed (use valid in simp_all)
      qed
    qed
  qed
qed

lemma execute_cases:
  assumes "execute x len svc sch config mutation options w = Some (res, w', sents)"
  obtains (refused) error where "res = Err error" and "sents = []" and "\<And>e. error \<noteq> BulkMutation e"
  | (empty) "bm_entries mutation = []" and "res = Ok bulk_mutation_result_default" and "sents = []"
  | (ran) ctx wa wb n r fs where
      "validate_options options = Ok ()" and "ctx_options ctx = options"
      and "run_batches x svc sch ctx (operation_batches len config mutation options) wa
         = Some ((n, r, fs), wb, sents)"
      and "res = finished_result len config mutation options n r fs"
proof (cases rule: execute_shape [of x len svc config mutation options w])
  case (early res' w1)
  then show thesis using assms early(1) [of sch] refused empty by auto
next
  case shape: (ran ctx wa)
  then show thesis
    using assms shape(3) [of sch]
    by (cases "run_batches x svc sch ctx (operation_batches len config mutation options) wa")
      (auto intro: ran [of ctx wa])
qed

lemma validate_options_limit: "validate_options options = Ok () \<Longrightarrow> 0 < max_attempts (wo_retry options)"
  by (auto simp: validate_options_def and_then_Inr_iff map_err_Inr_iff validate_policies_Ok
      word_neq_0_conv)

text \<open>How a result accounts for the entries.\<close>

definition result_accounts :: "nat \<Rightarrow> (Error, BulkMutationResult) result \<Rightarrow> sent list \<Rightarrow> bool" where
  "result_accounts n_entries res sents \<longleftrightarrow> (case res of
      Inr r \<Rightarrow> br_entries r = n_entries
    | Inl (BulkMutation e) \<Rightarrow> bme_total_entries e = n_entries
        \<and> bme_successful_entries e + length (bme_failures e) = n_entries \<and> bme_failures e \<noteq> []
        \<and> sorted_wrt (<) (map mf_index (bme_failures e))
        \<and> list_all (\<lambda>f. mf_index f < n_entries) (bme_failures e)
    | Inl _ \<Rightarrow> sents = [])"

lemma strict_sort_key:
  assumes "mset (map f xs) \<subseteq># mset [0..<n]"
  shows "sorted_wrt (<) (map f (sort_key f xs)) \<and> list_all (\<lambda>x. f x < n) (sort_key f xs)
    \<and> inj_on f (set xs)"
proof -
  obtain C where "mset [0..<n] = mset (map f xs) + C"
    using assms by (auto simp: subset_mset.le_iff_add)
  moreover obtain cs where "mset cs = C" using ex_mset by blast
  ultimately have "mset [0..<n] = mset (map f xs @ cs)" by simp
  then have "distinct (map f xs @ cs)" using mset_eq_imp_distinct_iff distinct_upt by blast
  then have "distinct (map f xs)" by simp
  moreover have "set (map f xs) \<subseteq> {0..<n}" using set_mset_mono [OF assms] by auto
  ultimately show ?thesis
    using sorted_sort_key [of f xs] distinct_map [of f "sort_key f xs"]
    by (auto simp: strict_sorted_iff list_all_iff distinct_map)
qed

lemma batches_index_mset:
  "mset (map pe_original_index (concat (operation_batches len config mutation options)))
     = mset [0..<length (bm_entries mutation)]"
  unfolding operation_batches_entries map_pending_index by simp

lemma execute_accounts:
  assumes "execute x len svc sch config mutation options w = Some (res, w', sents)"
    and "schedule_ok sch (length (operation_batches len config mutation options))"
  shows "result_accounts (length (bm_entries mutation)) res sents"
  using assms(1)
proof (cases rule: execute_cases)
  case (refused error)
  then show ?thesis by (auto simp: result_accounts_def split: Error.splits)
next
  case empty
  then show ?thesis by (simp add: result_accounts_def bulk_mutation_result_default_def)
next
  case (ran ctx wa wb n r fs)
  have "0 < ctx_limit ctx" using validate_options_limit [OF ran(1)] ran(2) by simp
  from run_batches_ok [OF ran(3) assms(2) operation_batches_fresh this]
  have sum: "n + length fs = length (concat (operation_batches len config mutation options))"
    and sub: "mset (map mf_index fs) \<subseteq># mset [0..<length (bm_entries mutation)]"
    unfolding batches_index_mset by blast+
  have "length (concat (operation_batches len config mutation options)) = length (bm_entries mutation)"
    unfolding operation_batches_entries by simp
  moreover have "sort_key mf_index fs = [] \<longleftrightarrow> fs = []" by (metis length_0_conv length_sort)
  ultimately show ?thesis
    using sum strict_sort_key [OF sub] ran(4) by (auto simp: result_accounts_def finished_result_def)
qed

lemma execute_sent_ok:
  assumes "execute x len svc sch config mutation options w = Some (res, w', sents)"
    and "schedule_ok sch (length (operation_batches len config mutation options))"
  shows "list_all (\<lambda>sent. \<exists>es \<in> set (operation_batches len config mutation options).
    sent_ok (max_attempts (wo_retry options)) es sent) sents"
  using assms(1)
proof (cases rule: execute_cases)
  case (ran ctx wa wb n r fs)
  have "0 < ctx_limit ctx" using validate_options_limit [OF ran(1)] ran(2) by simp
  from run_batches_ok [OF ran(3) assms(2) operation_batches_fresh this]
  show ?thesis by (simp add: ran(2))
qed simp_all

lemma queued_entry_row:
  assumes "es \<in> set (operation_batches len config mutation options)" and "queued_in es e"
  shows "\<exists>row \<in> set (bm_entries mutation). pe_proto e = into_proto row \<and> pe_retry_safe e = is_retry_safe row"
proof -
  obtain e0 where "e0 \<in> set es" and e: "e = e0\<lparr>pe_attempts := pe_attempts e\<rparr>"
    using assms(2) by (auto simp: queued_in_def)
  have same: "pe_proto e = pe_proto e0" "pe_retry_safe e = pe_retry_safe e0"
    using arg_cong [OF e, of pe_proto] arg_cong [OF e, of pe_retry_safe] by simp_all
  have "e0 \<in> set (concat (operation_batches len config mutation options))"
    using assms(1) \<open>e0 \<in> set es\<close> by auto
  then obtain i row where "e0 = pending_of (i, row)" "(i, row) \<in> set (enumerate 0 (bm_entries mutation))"
    unfolding operation_batches_entries by auto
  moreover have "row \<in> set (bm_entries mutation)"
    using calculation(2) nth_mem [of i "bm_entries mutation"] by (auto simp: in_set_enumerate_eq)
  ultimately show ?thesis using same by (auto simp: pending_of_def)
qed

text \<open>Entries of requests after the first of their batch are retry-safe rows.\<close>

lemma resent_rows:
  assumes "execute x len svc sch config mutation options w = Some (res, w', sents)"
    and "schedule_ok sch (length (operation_batches len config mutation options))"
    and "sent \<in> set sents" "(current, request) \<in> set (tl sent)" "p \<in> set (mr_entries request)"
  shows "\<exists>row \<in> set (bm_entries mutation). p = into_proto row \<and> is_retry_safe row"
proof -
  obtain es where es: "es \<in> set (operation_batches len config mutation options)"
    "sent_ok (max_attempts (wo_retry options)) es sent"
    using execute_sent_ok [OF assms(1,2)] assms(3) by (auto simp: list_all_iff)
  have "(current, request) \<in> set sent" using assms(4) by (cases sent) auto
  then have "p \<in> pe_proto ` set current" "list_all (queued_in es) current" "list_all pe_retry_safe current"
    using es(2) assms(4,5) by (auto simp: sent_ok_def list_all_iff)
  then show ?thesis using queued_entry_row [OF es(1)] by (fastforce simp: list_all_iff)
qed

text \<open>Completion order: the totals and the sorted failures do not depend on it.\<close>

lemma unat_foldl_sat_add: "unat (foldl sat_add r rs) = min (unat r + sum_list (map unat rs)) u32_max"
proof (induction rs arbitrary: r)
  case Nil
  then show ?case using unat_u32_le [of r] by simp
next
  case (Cons a rs)
  then show ?case by (simp add: unat_sat_add)
qed

lemma foldl_sat_add_perm:
  assumes "mset rs = mset rs'" shows "foldl sat_add r rs = foldl sat_add r rs'"
proof -
  have "sum_list (map unat rs) = sum_list (map unat rs')"
    using assms by (metis mset_map sum_mset_sum_list)
  then show ?thesis by (metis unat_foldl_sat_add word_unat_eq_iff)
qed

lemma concat_map_perm: "mset rs = mset rs' \<Longrightarrow> mset (concat (map f rs)) = mset (concat (map f rs'))"
  by (metis mset_concat mset_map sum_mset_sum_list map_map)

lemma map_the_those: "map f js = map Some ys \<Longrightarrow> ys = map (the \<circ> f) js"
  by (induction js arbitrary: ys) (auto simp: Cons_eq_map_conv)

lemma run_batches_order:
  assumes run: "run_batches x svc sch ctx batches w = Some ((n, r, fs), w', sents)"
    and orders: "schedule_ok sch (length batches)" "schedule_ok sch' (length batches)"
    and clocks: "sc_clock sch' = sc_clock sch" "sc_rand sch' = sc_rand sch"
  shows "\<exists>fs' w'' sents'. run_batches x svc sch' ctx batches w = Some ((n, r, fs'), w'', sents')
    \<and> mset fs' = mset fs"
proof (cases "length batches = 1")
  case True
  with run show ?thesis by (auto simp: run_batches_def split: option.splits)
next
  case False
  let ?run = "\<lambda>i. batch_run (x\<lparr>x_clock := sc_clock sch i, x_rand := sc_rand sch i\<rparr>) svc
      (batch_operation ctx i (batches ! i)) (w\<lparr>w_events := [], w_measurements := [], w_attempts := 0, w_retries := 0\<rparr>)"
  obtain outcomes where outs: "map ?run (sc_order sch) = map Some outcomes"
    and n: "n = sum_list (map (out_successful \<circ> fst) outcomes)"
    and r: "r = foldl sat_add 0 (map (out_rpc_attempts \<circ> fst) outcomes)"
    and fs: "fs = concat (map (out_failures \<circ> fst) outcomes)"
    using run False by (auto simp: run_batches_def Let_def foldl_add_outcome those_Some comp_def
        split: option.splits)
  have perm: "mset (sc_order sch') = mset (sc_order sch)" using orders by (simp add: schedule_ok_def)
  have "\<forall>i \<in> set (sc_order sch). \<exists>y. ?run i = Some y"
    using outs by (metis (no_types, lifting) in_set_conv_nth length_map nth_map)
  then have defined: "\<forall>i \<in> set (sc_order sch'). ?run i = Some (the (?run i))"
    using mset_eq_setD [OF perm] by force
  let ?outs = "map (the \<circ> ?run) (sc_order sch')"
  have "map ?run (sc_order sch') = map Some ?outs" using defined by simp
  then have these: "those (map ?run (sc_order sch')) = Some ?outs" by (simp only: those_Some)
  have run': "run_batches x svc sch' ctx batches w
      = Some (foldl add_outcome (0, 0, []) (map fst ?outs),
          join_worlds sch' (max_in_flight_requests (wo_batch (ctx_options ctx))) w (map (fst \<circ> snd) ?outs), map (snd \<circ> snd) ?outs)"
    unfolding run_batches_def Let_def clocks if_not_P [OF False] these option.case by (rule refl)
  have same: "mset ?outs = mset outcomes"
    unfolding map_the_those [OF outs] mset_map perm by (rule refl)
  have "sum_list (map (out_successful \<circ> fst) ?outs) = n"
    unfolding n by (rule sum_list_map_perm [OF same])
  moreover have "foldl sat_add 0 (map (out_rpc_attempts \<circ> fst) ?outs) = r"
    unfolding r
    by (intro foldl_sat_add_perm) (simp only: mset_map [of "out_rpc_attempts \<circ> fst"] same)
  moreover have "mset (concat (map (out_failures \<circ> fst) ?outs)) = mset fs"
    unfolding fs by (rule concat_map_perm [OF same])
  ultimately show ?thesis unfolding run' foldl_add_outcome by (simp add: comp_def)
qed

text \<open>An operation returns unless a backoff panics.\<close>

lemma batch_run_returns:
  assumes "\<And>k n. backoff (x_powi x) (x_rand x k) (wo_retry (ctx_options ctx)) n \<noteq> None"
  shows "batch_run x svc (batch_operation ctx i es) w \<noteq> None"
  using run_loop_returns [of x "batch_operation ctx i es" svc w "[]"] assms
  by (auto simp: batch_run_def batch_operation_def split: option.splits)

lemma run_batches_returns:
  assumes "\<And>rand n. backoff (x_powi x) rand (wo_retry (ctx_options ctx)) n \<noteq> None"
  shows "run_batches x svc sch ctx batches w \<noteq> None"
proof (cases "length batches = 1")
  case True
  then show ?thesis
    using batch_run_returns [of x ctx svc 0 "hd batches" w] assms
    by (auto simp: run_batches_def)
next
  case False
  let ?run = "\<lambda>i. batch_run (x\<lparr>x_clock := sc_clock sch i, x_rand := sc_rand sch i\<rparr>) svc
      (batch_operation ctx i (batches ! i)) (w\<lparr>w_events := [], w_measurements := [], w_attempts := 0, w_retries := 0\<rparr>)"
  have "?run i = Some (the (?run i))" for i
    using batch_run_returns [of "x\<lparr>x_clock := sc_clock sch i, x_rand := sc_rand sch i\<rparr>" ctx svc i
        "batches ! i" "w\<lparr>w_events := [], w_measurements := [], w_attempts := 0, w_retries := 0\<rparr>"] assms
    by (intro option.collapse [symmetric]) simp
  then have "map ?run (sc_order sch) = map Some (map (the \<circ> ?run) (sc_order sch))" by simp
  then have "those (map ?run (sc_order sch)) = Some (map (the \<circ> ?run) (sc_order sch))"
    by (simp only: those_Some)
  then show ?thesis using False by (simp add: run_batches_def Let_def)
qed

lemma execute_returns:
  assumes "max_backoff (wo_retry options) < 2 ^ 63 * nanos_per_sec" and "powi64_nonneg (x_powi x)"
  shows "execute x len svc sch config mutation options w \<noteq> None"
proof (cases rule: execute_shape [of x len svc config mutation options w])
  case (early res w')
  then show ?thesis using early(1) [of sch] by simp
next
  case (ran ctx wa)
  have "validate_policies (wo_retry options) (wo_deadlines options) = Ok ()"
    using ran(1) by (auto simp: validate_options_def and_then_Inr_iff map_err_Inr_iff)
  then have "backoff (x_powi x) rand (wo_retry (ctx_options ctx)) n \<noteq> None" for rand n
    unfolding ran(2) using assms by (rule backoff_returns)
  then have "run_batches x svc sch ctx (operation_batches len config mutation options) wa \<noteq> None"
    by (rule run_batches_returns)
  then show ?thesis using ran(3) [of sch] by (cases "execute x len svc sch config mutation options w") auto
qed

section \<open>Properties\<close>

text \<open>
  C18. A bulk write accounts for every entry. If it succeeds, all entries were confirmed. If
  it fails with a list of failures, confirmed and failed entries add up to all entries, the
  failures are listed in increasing order of their index, none twice and none out of range.
  Any other error means that nothing was sent. This holds for every behaviour of the service,
  every timing and every order in which concurrent batches complete.
\<close>

theorem bulk_write_accounts_for_every_entry:
  assumes "execute x len svc sch config mutation options w = Some (res, w', sents)"
    and "schedule_ok sch (length (operation_batches len config mutation options))"
  shows "result_accounts (length (bm_entries mutation)) res sents"
  using assms by (rule execute_accounts)

text \<open>
  C21. Within a batch the number of requests never exceeds \<open>max_attempts\<close>, every request but
  the first carries only entries of retry-safe rows, and each request carries the encoded rows
  of the operation unchanged.
\<close>

theorem only_retry_safe_entries_are_resent:
  assumes "execute x len svc sch config mutation options w = Some (res, w', sents)"
    and "schedule_ok sch (length (operation_batches len config mutation options))"
  shows "list_all (\<lambda>sent. length sent \<le> unat (max_attempts (wo_retry options))
    \<and> list_all (\<lambda>(_, request). list_all (\<lambda>p. \<exists>row \<in> set (bm_entries mutation).
        p = into_proto row \<and> is_retry_safe row) (mr_entries request)) (tl sent)) sents"
  using execute_sent_ok [OF assms] resent_rows [OF assms]
  by (fastforce simp: list_all_iff sent_ok_def)

text \<open>
  C23. The result of a bulk write does not depend on the order in which its concurrent batches
  complete: with the same service and the same clocks, another order gives the same successes,
  the same attempts and the same list of failures.
\<close>

theorem completion_order_is_irrelevant:
  assumes "execute x len svc sch config mutation options w = Some (res, w', sents)"
    and "schedule_ok sch (length (operation_batches len config mutation options))"
    and "schedule_ok sch' (length (operation_batches len config mutation options))"
    and "sc_clock sch' = sc_clock sch" "sc_rand sch' = sc_rand sch"
  shows "map_option fst (execute x len svc sch' config mutation options w) = Some res"
proof (cases rule: execute_shape [of x len svc config mutation options w])
  case (early res' w1)
  then show ?thesis using early(1) [of sch] early(1) [of sch'] assms(1) by simp
next
  case (ran ctx wa)
  obtain n r fs wb where
    run: "run_batches x svc sch ctx (operation_batches len config mutation options) wa
      = Some ((n, r, fs), wb, sents)"
    and res: "res = finished_result len config mutation options n r fs"
    using ran(3) [of sch] assms(1)
    by (cases "run_batches x svc sch ctx (operation_batches len config mutation options) wa") auto
  obtain fs' wb' sents' where
    run': "run_batches x svc sch' ctx (operation_batches len config mutation options) wa
      = Some ((n, r, fs'), wb', sents')" and perm: "mset fs' = mset fs"
    using run_batches_order [OF run assms(2-5)] by blast
  have "0 < ctx_limit ctx" using validate_options_limit [OF ran(1)] ran(2) by simp
  from run_batches_ok [OF run assms(2) operation_batches_fresh this]
  have "inj_on mf_index (set fs)" using strict_sort_key unfolding batches_index_mset by blast
  then have "sort_key mf_index fs' = sort_key mf_index fs"
    using perm mset_eq_setD [OF perm] by (intro sort_key_inj_key_eq) simp_all
  then have "finished_result len config mutation options n r fs'
      = finished_result len config mutation options n r fs"
    by (simp add: finished_result_def)
  then show ?thesis using ran(3) [of sch'] run' res by (auto simp: option.map_comp)
qed

section \<open>A bulk write that retries\<close>

text \<open>
  One row, a service that is unavailable at first and then confirms it: two requests, one
  pause between them.
\<close>

definition sample_lengths :: Lengths where
  "sample_lengths = \<lparr>len_request = (\<lambda>_ _. 0), len_entry = (\<lambda>_. 0)\<rparr>"

definition sample_service :: Service where
  "sample_service = \<lparr>sv_mutate_rows = (\<lambda>batch attempt request.
       if attempt = 1 then Refused \<lparr>st_code = Unavailable, st_message = [], st_details = []\<rparr>
       else Connected [Response [\<lparr>re_index = 0, re_status = None\<rparr>]]),
     sv_sleep_expires = (\<lambda>_ _. False)\<rparr>"

definition sample_schedule :: "nat list \<Rightarrow> Schedule" where
  "sample_schedule order = \<lparr>sc_clock = (\<lambda>_ _. 0), sc_rand = (\<lambda>_ _ _. 0), sc_order = order,
     sc_log = (\<lambda>_. concat)\<rparr>"

definition sample_pair :: BulkMutation where
  "sample_pair = sample_bulk\<lparr>bm_entries := [sample_row_mutation, sample_row_mutation]\<rparr>"

definition one_entry_options :: BulkMutationOptions where
  "one_entry_options = bulk_mutation_options_default
     \<lparr>wo_batch := batch_policy_default\<lparr>max_entries_per_request := 1\<rparr>\<rparr>"

abbreviation sample_execute where
  "sample_execute order \<equiv> execute sample_env sample_lengths sample_service (sample_schedule order)
     sample_config sample_pair one_entry_options"

lemma sample_batches:
  "operation_batches sample_lengths sample_config sample_pair one_entry_options
     = [[pending_of (0, sample_row_mutation)], [pending_of (1, sample_row_mutation)]]"
  by (simp add: split_batches_pack sample_pair_def entry_fits_def one_entry_options_def)

lemma sample_schedules:
  "schedule_ok (sample_schedule [0, 1]) 2" "schedule_ok (sample_schedule [1, 0]) 2"
  by (simp_all add: schedule_ok_def sample_schedule_def upt_rec add_mset_commute)

lemma sample_returns:
  obtains res w' sents where "sample_execute order w = Some (res, w', sents)"
proof -
  have "sample_execute order w \<noteq> None"
    by (rule execute_returns)
      (simp_all add: sample_env_def sample_powi_nonneg one_entry_options_def
        bulk_mutation_options_default_def retry_policy_default_def secs_def nanos_per_sec_def)
  then show ?thesis using that by (cases "sample_execute order w") auto
qed

theorem bulk_write_accounts_for_every_entry_witness:
  "\<exists>res w sents. sample_execute [1, 0] sample_world = Some (res, w, sents)
     \<and> result_accounts 2 res sents"
proof -
  obtain res w sents where run: "sample_execute [1, 0] sample_world = Some (res, w, sents)"
    by (rule sample_returns)
  from bulk_write_accounts_for_every_entry [OF run] sample_batches sample_schedules(2) run
  show ?thesis by (auto simp: sample_pair_def numeral_2_eq_2)
qed

theorem only_retry_safe_entries_are_resent_witness:
  "\<exists>res w sents. sample_execute [0, 1] sample_world = Some (res, w, sents)
     \<and> list_all (\<lambda>sent. length sent \<le> unat (max_attempts (wo_retry one_entry_options))
        \<and> list_all (\<lambda>(_, request). list_all (\<lambda>p. \<exists>row \<in> set (bm_entries sample_pair).
            p = into_proto row \<and> is_retry_safe row) (mr_entries request)) (tl sent)) sents"
proof -
  obtain res w sents where run: "sample_execute [0, 1] sample_world = Some (res, w, sents)"
    by (rule sample_returns)
  have "schedule_ok (sample_schedule [0, 1])
      (length (operation_batches sample_lengths sample_config sample_pair one_entry_options))"
    using sample_schedules(1) by (simp add: sample_batches numeral_2_eq_2)
  from only_retry_safe_entries_are_resent [OF run this] run show ?thesis by blast
qed

theorem completion_order_is_irrelevant_witness:
  "\<exists>res. map_option fst (sample_execute [0, 1] sample_world) = Some res
     \<and> map_option fst (sample_execute [1, 0] sample_world) = Some res"
proof -
  obtain res w sents where run: "sample_execute [0, 1] sample_world = Some (res, w, sents)"
    by (rule sample_returns)
  have "map_option fst (sample_execute [1, 0] sample_world) = Some res"
    by (rule completion_order_is_irrelevant [OF run])
      (use sample_schedules in \<open>simp_all add: sample_batches sample_schedule_def numeral_2_eq_2\<close>)
  then show ?thesis using run by auto
qed



end
