(* ===== verification/WriteAnswers.thy ===== *)
theory WriteAnswers
  imports BulkWrite
begin

text \<open>
  What the result of a bulk mutation says of the service: an entry is missing from the failures
  exactly when the service confirmed it, and every failure repeats what the service answered
  to the last request that carried its entry.
\<close>

section \<open>One attempt\<close>

text \<open>
  What an answer says of the entry at a place of its request: nothing, unless the results it
  brings are in range and without repetition.
\<close>

definition verdict :: "Env \<Rightarrow> nat \<Rightarrow> MutateReply \<Rightarrow> nat \<Rightarrow> (status, unit) result option" where
  "verdict x n reply i = (case reply of
      Connected items \<Rightarrow>
        if valid_results n (fst (stream_results items))
        then result_of x (fst (stream_results items)) i else None
    | _ \<Rightarrow> None)"

text \<open>
  The causes an answer gives for the failure of an entry: its own status, the status that ended
  the stream before its result, a stream that ended by itself without its result; anything that
  breaks the protocol fails all entries, and so does a call that is refused or times out.
\<close>

definition cause_fits ::
    "(nat \<Rightarrow> (status, unit) result option) \<Rightarrow> status option \<Rightarrow> nat \<Rightarrow> bool \<Rightarrow> MutationFailureCause \<Rightarrow> bool" where
  "cause_fits lookup failure i safe cause = (case lookup i of
      Some (Inr _) \<Rightarrow> False
    | Some (Inl status) \<Rightarrow> cause = EntryStatus status safe
    | None \<Rightarrow> (case failure of
        Some status \<Rightarrow> cause = RpcStatus status safe
      | None \<Rightarrow> cause = InvalidResponse (MissingIndex i)))"

definition explains :: "Env \<Rightarrow> nat \<Rightarrow> MutateReply \<Rightarrow> nat \<Rightarrow> bool \<Rightarrow> MutationFailureCause \<Rightarrow> bool" where
  "explains x n reply i safe cause = (case reply of
      Connected items \<Rightarrow>
        if valid_results n (fst (stream_results items))
        then cause_fits (result_of x (fst (stream_results items))) (snd (stream_results items)) i safe cause
        else (\<exists>issue. cause = InvalidResponse issue)
    | Refused status \<Rightarrow> cause = RpcStatus status safe
    | CallTimeout \<Rightarrow> cause = RpcStatus attempt_timeout_status safe)"

definition attempt_outcome :: "Env \<Rightarrow> u32 \<Rightarrow> PendingEntry list \<Rightarrow> MutateReply \<Rightarrow> AttemptOutcome \<Rightarrow> bool" where
  "attempt_outcome x limit current reply out \<longleftrightarrow> (case reply of
      Connected items \<Rightarrow> \<exists>tw. out = fst (consume_stream x limit current items tw)
    | Refused status \<Rightarrow> out = rpc_failure x limit current status
    | CallTimeout \<Rightarrow> out = rpc_failure x limit current attempt_timeout_status)"

lemma run_attempt_outcome:
  "attempt_outcome x (bo_limit self) (fst (fst (run_attempt x svc self w)))
    (sv_mutate_rows svc (bo_batch self) (sat_inc (bo_rpc_attempts self)) (fst (snd (fst (run_attempt x svc self w)))))
    (snd (snd (fst (run_attempt x svc self w))))"
  by (simp add: run_attempt_def attempt_outcome_def Let_def split_beta del: split_paired_Ex
      split: MutateReply.split) blast

text \<open>The entries an outcome does not count as successful, and the failures it may add.\<close>

definition unsuccessful :: "AttemptOutcome \<Rightarrow> nat set" where
  "unsuccessful out = mf_index ` set (ao_failures out) \<union> pe_original_index ` set (ao_retry out)"

definition failed_as :: "(nat \<Rightarrow> bool \<Rightarrow> MutationFailureCause \<Rightarrow> bool) \<Rightarrow> PendingEntry list \<Rightarrow> MutationFailure \<Rightarrow> bool" where
  "failed_as fits current f \<longleftrightarrow> (\<exists>i < length current. mf_index f = pe_original_index (current ! i)
     \<and> mf_attempts f = pe_attempts (current ! i) \<and> fits i (pe_retry_safe (current ! i)) (mf_cause f))"

lemma unsuccessful_classify:
  "unsuccessful (classify_status x limit e status origin out) = insert (pe_original_index e) (unsuccessful out)"
  by (auto simp: unsuccessful_def classify_status_def Let_def)

lemma failures_classify:
  "f \<in> set (ao_failures (classify_status x limit e status origin out)) \<Longrightarrow> f \<in> set (ao_failures out)
     \<or> f = \<lparr>mf_index = pe_original_index e, mf_attempts = pe_attempts e, mf_cause = (case origin of
        EntryOrigin \<Rightarrow> EntryStatus status (pe_retry_safe e) | RpcOrigin \<Rightarrow> RpcStatus status (pe_retry_safe e))\<rparr>"
  by (auto simp: classify_status_def Let_def split: FailureOrigin.split if_splits)

lemma file_entry_unsuccessful:
  "unsuccessful (file_entry x limit lookup sf out (i, e))
     = unsuccessful out \<union> (if lookup i = Some (Ok ()) then {} else {pe_original_index e})"
  by (cases "lookup i"; cases sf; cases "the (lookup i)")
    (auto simp: file_entry_apply unsuccessful_classify, auto simp: unsuccessful_def)

text \<open>What the reference does with one entry explains the failure it adds, if it adds one.\<close>

lemma file_entry_failures:
  assumes "f \<in> set (ao_failures (file_entry x limit lookup sf out (i, e)))"
  shows "f \<in> set (ao_failures out) \<or> (mf_index f = pe_original_index e \<and> mf_attempts f = pe_attempts e
    \<and> cause_fits lookup sf i (pe_retry_safe e) (mf_cause f))"
  using assms
  by (cases "lookup i"; cases sf; cases "the (lookup i)")
    (auto simp: file_entry_apply cause_fits_def dest!: failures_classify)

lemma foldl_file:
  assumes "\<And>k. k < length es \<Longrightarrow> n + k < length current \<and> current ! (n + k) = es ! k"
  shows "unsuccessful (foldl (file_entry x limit lookup sf) out (enumerate n es)) = unsuccessful out
      \<union> {pe_original_index (current ! i) | i. n \<le> i \<and> i < n + length es \<and> lookup i \<noteq> Some (Ok ())}
    \<and> (\<forall>f \<in> set (ao_failures (foldl (file_entry x limit lookup sf) out (enumerate n es))).
        f \<in> set (ao_failures out) \<or> failed_as (cause_fits lookup sf) current f)"
  using assms
proof (induction es arbitrary: n out)
  case (Cons e es)
  have here: "n < length current" "current ! n = e" using Cons.prems [of 0] by simp_all
  have rest: "Suc n + k < length current \<and> current ! (Suc n + k) = es ! k" if "k < length es" for k
    using Cons.prems [of "Suc k"] that by simp
  have "{pe_original_index (current ! i) | i. n \<le> i \<and> i < n + length (e # es) \<and> lookup i \<noteq> Some (Ok ())}
    = (if lookup n = Some (Ok ()) then {} else {pe_original_index e})
      \<union> {pe_original_index (current ! i) | i. Suc n \<le> i \<and> i < Suc n + length es \<and> lookup i \<noteq> Some (Ok ())}"
    using here(2) by (auto simp: le_less Suc_le_eq)
  moreover note Cons.IH [OF rest, of "file_entry x limit lookup sf out (n, e)"]
  moreover have "f \<in> set (ao_failures out) \<or> failed_as (cause_fits lookup sf) current f"
    if "f \<in> set (ao_failures (file_entry x limit lookup sf out (n, e)))" for f
    using file_entry_failures [OF that] here by (auto simp: failed_as_def)
  ultimately show ?case
    by (simp only: enumerate_simps foldl_Cons file_entry_unsuccessful Un_assoc) blast
qed auto

lemma rpc_failure_file:
  "rpc_failure x limit current status = foldl (file_entry x limit (\<lambda>_. None) (Some status))
     (outcome_default\<lparr>ao_code := st_code status\<rparr>) (enumerate 0 current)"
proof -
  have "foldl (\<lambda>out e. classify_status x limit e status RpcOrigin out) out es
      = foldl (file_entry x limit (\<lambda>_. None) (Some status)) out (enumerate n es)" for out es n
    by (induction es arbitrary: out n) (simp_all add: file_entry_apply)
  then show ?thesis by (simp only: rpc_failure_def)
qed

text \<open>The outcome of an attempt: unsuccessful is what was not confirmed, and failures are explained.\<close>

lemma attempt_answers:
  assumes "attempt_outcome x limit current reply out"
  shows "unsuccessful out = {pe_original_index (current ! i) | i.
      i < length current \<and> verdict x (length current) reply i \<noteq> Some (Ok ())}"
    and "f \<in> set (ao_failures out) \<Longrightarrow> failed_as (explains x (length current) reply) current f"
proof -
  have all: "{pe_original_index (current ! i) | i. i < length current} = pe_original_index ` set current"
    by (auto simp: set_conv_nth)
  have filed: "unsuccessful (foldl (file_entry x limit lookup sf) o0 (enumerate 0 current))
      = {pe_original_index (current ! i) | i. i < length current \<and> lookup i \<noteq> Some (Ok ())}
    \<and> (\<forall>f \<in> set (ao_failures (foldl (file_entry x limit lookup sf) o0 (enumerate 0 current))).
        failed_as (cause_fits lookup sf) current f)"
    if "ao_failures o0 = []" "ao_retry o0 = []" for lookup sf o0
    using foldl_file [of current 0 current x limit lookup sf o0] that by (auto simp: unsuccessful_def)
  have rpc: "unsuccessful (rpc_failure x limit current status)
        = {pe_original_index (current ! i) | i. i < length current}
      \<and> (\<forall>f \<in> set (ao_failures (rpc_failure x limit current status)).
          failed_as (\<lambda>_ safe cause. cause = RpcStatus status safe) current f)" for status
    using filed [of "outcome_default\<lparr>ao_code := st_code status\<rparr>" "\<lambda>_. None" "Some status"]
    unfolding rpc_failure_file by (simp add: outcome_default_def cause_fits_def failed_as_def)
  have invalid: "unsuccessful (invalid_response_outcome current issue)
        = {pe_original_index (current ! i) | i. i < length current}
      \<and> (\<forall>f \<in> set (ao_failures (invalid_response_outcome current issue)).
          failed_as (\<lambda>_ _ cause. \<exists>issue. cause = InvalidResponse issue) current f)" for issue
    unfolding all by (auto simp: unsuccessful_def invalid_response_outcome_def failed_as_def in_set_conv_nth image_image)
  have "unsuccessful out = {pe_original_index (current ! i) | i.
      i < length current \<and> verdict x (length current) reply i \<noteq> Some (Ok ())}
    \<and> (\<forall>f \<in> set (ao_failures out). failed_as (explains x (length current) reply) current f)"
  proof (cases reply)
    case (Connected items)
    obtain rs failure where rs: "stream_results items = (rs, failure)" by fastforce
    obtain tw where out: "out = fst (consume_stream x limit current items tw)"
      using assms Connected by (auto simp: attempt_outcome_def)
    show ?thesis
    proof (cases "valid_results (length current) rs")
      case True
      then have "out = reference_outcome x limit current rs failure"
        using consume_stream_reference [OF rs, of current x limit tw] out by simp
      then show ?thesis
        using filed [of outcome_default "result_of x rs" failure] True rs Connected
        by (simp add: reference_outcome_def outcome_default_def verdict_def explains_def failed_as_def)
    next
      case False
      then obtain issue where "out = invalid_response_outcome current issue"
        using consume_stream_reference [OF rs, of current x limit tw] out by auto
      then show ?thesis
        using invalid [of issue] False rs Connected by (simp add: verdict_def explains_def failed_as_def)
    qed
  qed (use assms rpc in \<open>simp_all add: attempt_outcome_def verdict_def explains_def failed_as_def\<close>)
  then show "unsuccessful out = {pe_original_index (current ! i) | i.
      i < length current \<and> verdict x (length current) reply i \<noteq> Some (Ok ())}"
    and "f \<in> set (ao_failures out) \<Longrightarrow> failed_as (explains x (length current) reply) current f" by blast+
qed

section \<open>One batch\<close>

text \<open>
  The \<open>a\<close>-th request of a batch carries the entry with index \<open>i\<close> at place \<open>k\<close>; the answer to that
  request; an entry confirmed by an answer; and a failure that is explained, by the answer to the
  last request its entry went into or by the deadline.
\<close>

definition carries :: "sent \<Rightarrow> nat \<Rightarrow> nat \<Rightarrow> nat \<Rightarrow> bool" where
  "carries sent i a k \<longleftrightarrow> a < length sent \<and> k < length (fst (sent ! a))
     \<and> pe_original_index (fst (sent ! a) ! k) = i"

definition answer :: "Service \<Rightarrow> nat \<Rightarrow> sent \<Rightarrow> nat \<Rightarrow> MutateReply" where
  "answer svc b sent a = sv_mutate_rows svc b (of_nat (Suc a)) (snd (sent ! a))"

definition confirmed :: "Env \<Rightarrow> Service \<Rightarrow> nat \<Rightarrow> sent \<Rightarrow> nat \<Rightarrow> bool" where
  "confirmed x svc b sent i \<longleftrightarrow> (\<exists>a k. carries sent i a k
     \<and> verdict x (length (fst (sent ! a))) (answer svc b sent a) k = Some (Ok ()))"

definition explained :: "Env \<Rightarrow> Service \<Rightarrow> nat \<Rightarrow> duration \<Rightarrow> sent \<Rightarrow> MutationFailure \<Rightarrow> bool" where
  "explained x svc b timeout sent f \<longleftrightarrow> mf_cause f = MutationFailureCause.DeadlineExceeded timeout
     \<or> (\<exists>a k. carries sent (mf_index f) a k \<and> unat (mf_attempts f) = Suc a
         \<and> explains x (length (fst (sent ! a))) (answer svc b sent a) k
             (pe_retry_safe (fst (sent ! a) ! k)) (mf_cause f))"

lemma carries_snoc:
  "carries (sent @ [(current, request)]) i a k \<longleftrightarrow> carries sent i a k
     \<or> (a = length sent \<and> k < length current \<and> pe_original_index (current ! k) = i)"
  by (auto simp: carries_def nth_append)

lemma carries_old:
  "carries sent i a k \<Longrightarrow> (sent @ later) ! a = sent ! a \<and> answer svc b (sent @ later) a = answer svc b sent a"
  by (auto simp: carries_def nth_append answer_def)

lemma confirmed_snoc:
  "confirmed x svc b (sent @ [(current, request)]) i \<longleftrightarrow> confirmed x svc b sent i
     \<or> (\<exists>k < length current. pe_original_index (current ! k) = i \<and> verdict x (length current)
         (sv_mutate_rows svc b (of_nat (Suc (length sent))) request) k = Some (Ok ()))"
proof -
  let ?sent = "sent @ [(current, request)]"
  let ?ok = "\<lambda>sent a k. verdict x (length (fst (sent ! a))) (answer svc b sent a) k = Some (Ok ())"
  have "confirmed x svc b ?sent i \<longleftrightarrow> (\<exists>a k. carries sent i a k \<and> ?ok ?sent a k)
      \<or> (\<exists>k < length current. pe_original_index (current ! k) = i \<and> ?ok ?sent (length sent) k)"
    unfolding confirmed_def carries_snoc by blast
  moreover have "carries sent i a k \<and> ?ok ?sent a k \<longleftrightarrow> carries sent i a k \<and> ?ok sent a k" for a k
    using carries_old [of sent i a k "[(current, request)]" svc b] by auto
  moreover have "answer svc b ?sent (length sent) = sv_mutate_rows svc b (of_nat (Suc (length sent))) request"
    "fst (?sent ! length sent) = current" by (simp_all add: answer_def)
  ultimately show ?thesis by (simp only: confirmed_def)
qed

lemma explained_snoc:
  "explained x svc b timeout sent f \<Longrightarrow> explained x svc b timeout (sent @ [(current, request)]) f"
  unfolding explained_def carries_snoc using carries_old [of sent "mf_index f" _ _ "[(current, request)]" svc b]
  by metis

lemma failed_as_explained:
  assumes "failed_as (explains x (length current) (sv_mutate_rows svc b (of_nat (Suc (length sent))) request)) current f"
    and "\<forall>e \<in> set current. unat (pe_attempts e) = Suc (length sent)"
  shows "explained x svc b timeout (sent @ [(current, request)]) f"
proof -
  obtain k where "k < length current" "mf_index f = pe_original_index (current ! k)"
    "mf_attempts f = pe_attempts (current ! k)"
    "explains x (length current) (sv_mutate_rows svc b (of_nat (Suc (length sent))) request) k
       (pe_retry_safe (current ! k)) (mf_cause f)"
    using assms(1) by (auto simp: failed_as_def)
  then show ?thesis
    using assms(2) unfolding explained_def
    by (intro disjI2 exI [of _ "length sent"] exI [of _ k]) (simp add: carries_snoc answer_def)
qed

text \<open>What holds of a batch at every round of its loop, and at its end.\<close>

definition unsettled :: "BatchOperation \<Rightarrow> nat set" where
  "unsettled self = mf_index ` set (bo_failures self) \<union> pe_original_index ` set (bo_pending self)"

definition answered_inv ::
    "Env \<Rightarrow> Service \<Rightarrow> PendingEntry list \<Rightarrow> nat \<Rightarrow> BulkMutationOptions \<Rightarrow> BatchOperation \<Rightarrow> sent \<Rightarrow> bool" where
  "answered_inv x svc es b options self sent \<longleftrightarrow>
     batch_inv es (max_attempts (wo_retry options)) self sent \<and> bo_batch self = b \<and> bo_options self = options
   \<and> (\<forall>i \<in> pe_original_index ` set es. i \<in> unsettled self \<longleftrightarrow> \<not> confirmed x svc b sent i)
   \<and> list_all (explained x svc b (operation_timeout (wo_deadlines options)) sent) (bo_failures self)"

lemma distinct_sub_mset: "\<lbrakk>mset xs \<subseteq># mset ys; distinct ys\<rbrakk> \<Longrightarrow> distinct xs"
proof -
  assume sub: "mset xs \<subseteq># mset ys" and dist: "distinct ys"
  obtain C where "mset ys = mset xs + C" using sub by (auto simp: subset_mset.le_iff_add)
  moreover obtain cs where "mset cs = C" using ex_mset by blast
  ultimately have "mset ys = mset (xs @ cs)" by simp
  with dist have "distinct (xs @ cs)" using mset_eq_imp_distinct_iff by blast
  then show "distinct xs" by simp
qed

lemma answered_give_up:
  assumes inv: "answered_inv x svc es b options self sent"
  shows "answered_inv x svc es b options (fail_pending_deadline self) sent"
proof -
  have "unsettled (fail_pending_deadline self) = unsettled self"
    by (simp add: unsettled_def fail_pending_deadline_def image_Un image_image)
  moreover have "bo_batch (fail_pending_deadline self) = bo_batch self"
    "bo_options (fail_pending_deadline self) = bo_options self"
    by (simp_all add: fail_pending_deadline_def)
  moreover have "list_all (explained x svc b (operation_timeout (wo_deadlines options)) sent)
      (bo_failures (fail_pending_deadline self))"
    using inv by (auto simp: answered_inv_def fail_pending_deadline_def list_all_iff explained_def)
  ultimately show ?thesis using inv batch_inv_give_up by (simp add: answered_inv_def)
qed

lemma answered_round:
  assumes inv: "answered_inv x svc es b options self sent" and pending: "bo_pending self \<noteq> []"
    and run: "run_attempt x svc self w = ((current, request, attempt), self', w')"
    and dist: "distinct (map pe_original_index es)"
  shows "answered_inv x svc es b options self' (sent @ [(current, request)])"
proof -
  let ?limit = "max_attempts (wo_retry options)" and ?sent = "sent @ [(current, request)]"
  have round: "round_ok self (current, request, attempt) self'"
    using run_attempt_ok [of self x svc w] run by simp
  have binv: "batch_inv es ?limit self sent" and kept: "bo_batch self = b" "bo_options self = options"
    using inv by (simp_all add: answered_inv_def)
  have binv': "batch_inv es ?limit self' ?sent" by (rule batch_inv_round [OF binv pending round])
  have current: "current = map count_attempt (bo_pending self)"
    and self': "self' = self\<lparr>bo_rpc_attempts := sat_inc (bo_rpc_attempts self),
       bo_successful := bo_successful self + ao_successful attempt,
       bo_failures := bo_failures self @ ao_failures attempt, bo_pending := ao_retry attempt\<rparr>"
    using round by (auto simp: round_ok_def)
  obtain e0 where "e0 \<in> set (bo_pending self)" using pending by (cases "bo_pending self") auto
  then have "length sent < unat ?limit" using binv by (auto simp: batch_inv_def list_all_iff word_less_nat_alt)
  then have small: "length sent < u32_max" using unat_u32_le [of ?limit] by linarith
  have number: "sat_inc (bo_rpc_attempts self) = of_nat (Suc (length sent))"
  proof -
    have count: "length sent = unat (bo_rpc_attempts self)" using binv by (simp add: batch_inv_def)
    then have "bo_rpc_attempts self = of_nat (length sent)" by simp
    then show ?thesis using small count by (simp add: sat_inc_def)
  qed
  let ?reply = "sv_mutate_rows svc b (of_nat (Suc (length sent))) request"
  have out: "attempt_outcome x ?limit current ?reply attempt"
    using run_attempt_outcome [of x self svc w] run kept number by simp
  note answers = attempt_answers [OF out]
  have counted: "\<forall>e \<in> set current. unat (pe_attempts e) = Suc (length sent)"
    using binv small by (auto simp: current batch_inv_def list_all_iff unat_sat_inc)
  have fails: "list_all (explained x svc b (operation_timeout (wo_deadlines options)) ?sent) (bo_failures self')"
    using inv answers(2) failed_as_explained [OF _ counted]
    by (auto simp: self' answered_inv_def list_all_iff intro: explained_snoc)
  have idx: "map pe_original_index current = map pe_original_index (bo_pending self)"
    by (simp add: current comp_def)
  have "distinct (map mf_index (bo_failures self) @ map pe_original_index (bo_pending self))"
    by (rule distinct_sub_mset [OF _ dist]) (use binv in \<open>simp only: batch_inv_def mset_append\<close>)
  then have apart: "distinct (map pe_original_index current)"
    "mf_index ` set (bo_failures self) \<inter> set (map pe_original_index current) = {}"
    unfolding idx by auto
  have split: "unsettled self = mf_index ` set (bo_failures self) \<union> set (map pe_original_index current)"
    by (simp only: idx unsettled_def set_map)
  have split': "unsettled self' = mf_index ` set (bo_failures self) \<union> unsuccessful attempt"
    by (auto simp: unsettled_def unsuccessful_def self')
  have "i \<in> unsettled self' \<longleftrightarrow> \<not> confirmed x svc b ?sent i" if i: "i \<in> pe_original_index ` set es" for i
  proof -
    have old: "i \<in> unsettled self \<longleftrightarrow> \<not> confirmed x svc b sent i"
      using inv i unfolding answered_inv_def by blast
    show ?thesis
    proof (cases "i \<in> set (map pe_original_index current)")
      case True
      then obtain k where k: "k < length current" "pe_original_index (current ! k) = i"
        by (auto simp: in_set_conv_nth)
      have uniq: "j = k" if "j < length current" "pe_original_index (current ! j) = i" for j
        using apart(1) that k by (metis length_map nth_eq_iff_index_eq nth_map)
      have "i \<in> unsettled self' \<longleftrightarrow> verdict x (length current) ?reply k \<noteq> Some (Ok ())"
        using True apart(2) k uniq unfolding split' answers(1) by blast
      moreover have "confirmed x svc b ?sent i \<longleftrightarrow> verdict x (length current) ?reply k = Some (Ok ())"
        using True old k uniq unfolding confirmed_snoc split by blast
      ultimately show ?thesis by simp
    next
      case False
      then have none: "\<nexists>k. k < length current \<and> pe_original_index (current ! k) = i" by force
      then have "i \<in> unsettled self' \<longleftrightarrow> i \<in> unsettled self"
        using False unfolding split split' answers(1) by blast
      moreover have "confirmed x svc b ?sent i \<longleftrightarrow> confirmed x svc b sent i"
        using none unfolding confirmed_snoc by blast
      ultimately show ?thesis using old by simp
    qed
  qed
  then show ?thesis
    using binv' kept fails by (simp add: answered_inv_def self')
qed

lemma answered_run_loop:
  assumes "run_loop x svc self w [] = Some (self', w', sent)" and "answered_inv x svc es b options self []"
    and dist: "distinct (map pe_original_index es)"
  shows "answered_inv x svc es b options self' sent \<and> bo_pending self' = []"
  using assms(1,2) answered_round [OF _ _ _ dist] answered_give_up
  by (rule run_loop_invariant [where P = "answered_inv x svc es b options"])

lemma queued_fields:
  assumes "queued_in es e"
  obtains e0 where "e0 \<in> set es" "pe_original_index e0 = pe_original_index e" "pe_proto e = pe_proto e0"
    "pe_retry_safe e = pe_retry_safe e0"
proof -
  obtain e0 where "e0 \<in> set es" and e: "e = e0\<lparr>pe_attempts := pe_attempts e\<rparr>"
    using assms by (auto simp: queued_in_def)
  then show thesis
    using that [of e0] arg_cong [OF e, of pe_original_index] arg_cong [OF e, of pe_proto]
      arg_cong [OF e, of pe_retry_safe] by simp
qed

text \<open>What the outcome of a batch says of its entries.\<close>

definition batch_answered :: "Env \<Rightarrow> Service \<Rightarrow> BulkMutationOptions \<Rightarrow> nat \<Rightarrow> PendingEntry list \<Rightarrow> BatchOutcome \<Rightarrow> sent \<Rightarrow> bool" where
  "batch_answered x svc options b es outcome sent \<longleftrightarrow>
     (\<forall>i \<in> pe_original_index ` set es. i \<in> mf_index ` set (out_failures outcome) \<longleftrightarrow> \<not> confirmed x svc b sent i)
   \<and> mf_index ` set (out_failures outcome) \<subseteq> pe_original_index ` set es
   \<and> (\<forall>i. confirmed x svc b sent i \<longrightarrow> i \<in> pe_original_index ` set es)
   \<and> list_all (explained x svc b (operation_timeout (wo_deadlines options)) sent) (out_failures outcome)"

lemma batch_run_answered:
  assumes "batch_run x svc (batch_operation ctx b es) w = Some (outcome, w', sent)"
    and "list_all (\<lambda>e. pe_attempts e = 0) es" and "0 < ctx_limit ctx"
    and dist: "distinct (map pe_original_index es)"
  shows "batch_answered x svc (ctx_options ctx) b es outcome sent"
proof -
  obtain self where run: "run_loop x svc (batch_operation ctx b es) w [] = Some (self, w', sent)"
    and outcome: "out_failures outcome = bo_failures self"
    using assms(1) by (auto simp: batch_run_def)
  have "batch_inv es (ctx_limit ctx) (batch_operation ctx b es) []"
    using batch_inv_start [of "batch_operation ctx b es" es] assms(2,3) by (simp add: batch_operation_def)
  then have "answered_inv x svc es b (ctx_options ctx) (batch_operation ctx b es) []"
    by (simp add: answered_inv_def batch_operation_def unsettled_def confirmed_def carries_def)
  from answered_run_loop [OF run this dist]
  have inv: "answered_inv x svc es b (ctx_options ctx) self sent" and over: "bo_pending self = []" by blast+
  have ok: "batch_result_ok (ctx_limit ctx) es (outcome, w', sent)"
    by (rule batch_run_ok [OF assms(1-3)])
  have "mf_index ` set (out_failures outcome) \<subseteq> pe_original_index ` set es"
    using ok set_mset_mono [of "mset (map mf_index (out_failures outcome))" "mset (map pe_original_index es)"]
    by (simp add: batch_result_ok_def)
  moreover have "i \<in> pe_original_index ` set es" if h: "confirmed x svc b sent i" for i
  proof -
    obtain a k where c: "a < length sent" "k < length (fst (sent ! a))" "pe_original_index (fst (sent ! a) ! k) = i"
      using h by (auto simp: confirmed_def carries_def)
    have "list_all (queued_in es) (fst (sent ! a))"
      using ok nth_mem [OF c(1)] by (auto simp: batch_result_ok_def sent_ok_def list_all_iff split_beta)
    then have "queued_in es (fst (sent ! a) ! k)" using nth_mem [OF c(2)] by (simp add: list_all_iff)
    then show ?thesis using c(3) by (elim queued_fields) (metis imageI)
  qed
  ultimately show ?thesis
    using inv over by (simp add: batch_answered_def answered_inv_def unsettled_def outcome)
qed

text \<open>An answer means the same whatever the clock and the random numbers of a batch.\<close>

lemma same_answers:
  "confirmed (x\<lparr>x_clock := c, x_rand := r\<rparr>) svc b sent = confirmed x svc b sent"
  "explained (x\<lparr>x_clock := c, x_rand := r\<rparr>) svc b timeout sent = explained x svc b timeout sent"
proof -
  have "status_result (x\<lparr>x_clock := c, x_rand := r\<rparr>) = status_result x"
    by (intro ext) (simp add: status_result_def Let_def split: option.split)
  then have res: "result_of (x\<lparr>x_clock := c, x_rand := r\<rparr>) = result_of x"
    by (simp add: result_of_def fun_eq_iff)
  show "confirmed (x\<lparr>x_clock := c, x_rand := r\<rparr>) svc b sent = confirmed x svc b sent"
    unfolding confirmed_def verdict_def res fun_eq_iff by (rule allI) (rule refl)
  show "explained (x\<lparr>x_clock := c, x_rand := r\<rparr>) svc b timeout sent = explained x svc b timeout sent"
    unfolding explained_def explains_def res fun_eq_iff by (rule allI) (rule refl)
qed

section \<open>All batches\<close>

lemma distinct_concat_index:
  "\<lbrakk>distinct (map f (concat bs)); i < length bs; j < length bs; y \<in> f ` set (bs ! i); y \<in> f ` set (bs ! j)\<rbrakk>
   \<Longrightarrow> i = j"
proof (induction bs arbitrary: i j)
  case (Cons b bs)
  have apart: "f ` set b \<inter> f ` set (bs ! k) = {}" if "k < length bs" for k
    using Cons.prems(1) that nth_mem [OF that] by (fastforce simp: distinct_map)
  show ?case
    using Cons.IH [of "i - 1" "j - 1"] Cons.prems apart [of "i - 1"] apart [of "j - 1"]
    by (cases i; cases j) auto
qed simp

text \<open>An entry confirmed in one of the batches; the \<open>m\<close>-th to complete is \<open>sc_order sch ! m\<close>.\<close>

definition entry_confirmed :: "Env \<Rightarrow> Service \<Rightarrow> Schedule \<Rightarrow> sent list \<Rightarrow> nat \<Rightarrow> bool" where
  "entry_confirmed x svc sch sents i \<longleftrightarrow>
     (\<exists>m < length sents. confirmed x svc (sc_order sch ! m) (sents ! m) i)"

definition failure_explained :: "Env \<Rightarrow> Service \<Rightarrow> Schedule \<Rightarrow> duration \<Rightarrow> sent list \<Rightarrow> MutationFailure \<Rightarrow> bool" where
  "failure_explained x svc sch timeout sents f \<longleftrightarrow>
     (\<exists>m < length sents. explained x svc (sc_order sch ! m) timeout (sents ! m) f)"

lemma run_batches_answered:
  assumes run: "run_batches x svc sch ctx batches w = Some ((n, r, fs), w', sents)"
    and sch: "schedule_ok sch (length batches)"
    and fresh: "list_all (list_all (\<lambda>e. pe_attempts e = 0)) batches" "0 < ctx_limit ctx"
    and dist: "distinct (map pe_original_index (concat batches))"
  shows "\<forall>i \<in> pe_original_index ` set (concat batches).
      i \<in> mf_index ` set fs \<longleftrightarrow> \<not> entry_confirmed x svc sch sents i"
    and "list_all (failure_explained x svc sch (operation_timeout (wo_deadlines (ctx_options ctx))) sents) fs"
proof -
  obtain outs where len: "length outs = length (sc_order sch)" and sents: "sents = map (snd \<circ> snd) outs"
    and n: "n = sum_list (map (out_successful \<circ> fst) outs)"
    and fs: "fs = concat (map (out_failures \<circ> fst) outs)"
    and each: "\<forall>m < length outs. \<exists>c q v. batch_run (x\<lparr>x_clock := c, x_rand := q\<rparr>) svc
        (batch_operation ctx (sc_order sch ! m) (batches ! (sc_order sch ! m))) v = Some (outs ! m)"
    by (rule run_batches_each [OF run sch])
  let ?b = "\<lambda>m. sc_order sch ! m"
  note order = schedule_order [OF sch]
  have range: "?b m < length batches" if "m < length outs" for m
    using order(1) that len nth_mem [of m "sc_order sch"] by auto
  have answered: "batch_answered x svc (ctx_options ctx) (?b m) (batches ! ?b m) (fst (outs ! m)) (sents ! m)"
    if m: "m < length outs" for m
  proof -
    obtain c q v where one: "batch_run (x\<lparr>x_clock := c, x_rand := q\<rparr>) svc
        (batch_operation ctx (?b m) (batches ! ?b m)) v = Some (fst (outs ! m), fst (snd (outs ! m)), snd (snd (outs ! m)))"
      using each m by (metis prod.collapse)
    have "list_all (\<lambda>e. pe_attempts e = 0) (batches ! ?b m)"
      using fresh(1) range [OF m] by (simp add: list_all_length)
    moreover have "distinct (map pe_original_index (batches ! ?b m))"
      using dist nth_mem [OF range [OF m]] unfolding map_concat distinct_concat_iff by simp
    ultimately show ?thesis
      using batch_run_answered [OF one _ fresh(2)] m by (simp add: sents batch_answered_def same_answers)
  qed
  have only: "m' = m" if "m < length outs" "m' < length outs" "i \<in> pe_original_index ` set (batches ! ?b m)"
    "i \<in> pe_original_index ` set (batches ! ?b m')" for i m m'
    using distinct_concat_index [OF dist range [OF that(1)] range [OF that(2)] that(3,4)] order(2) that(1,2) len
    by (simp add: nth_eq_iff_index_eq)
  show "\<forall>i \<in> pe_original_index ` set (concat batches).
      i \<in> mf_index ` set fs \<longleftrightarrow> \<not> entry_confirmed x svc sch sents i"
  proof
    fix i assume "i \<in> pe_original_index ` set (concat batches)"
    then obtain es where es: "es \<in> set batches" "i \<in> pe_original_index ` set es" by auto
    then obtain j where j: "j < length batches" "i \<in> pe_original_index ` set (batches ! j)"
      by (metis in_set_conv_nth)
    then have "j \<in> set (sc_order sch)" using order(1) by simp
    then obtain m where m: "m < length outs" "?b m = j" using len by (auto simp: in_set_conv_nth)
    have here: "i \<in> pe_original_index ` set (batches ! ?b m)" using j(2) m(2) by simp
    have failed: "i \<in> mf_index ` set fs \<longleftrightarrow> i \<in> mf_index ` set (out_failures (fst (outs ! m)))"
    proof
      assume "i \<in> mf_index ` set fs"
      then obtain r where "r \<in> set outs" "i \<in> mf_index ` set (out_failures (fst r))" by (auto simp: fs)
      then obtain m' where m': "m' < length outs" "i \<in> mf_index ` set (out_failures (fst (outs ! m')))"
        by (metis in_set_conv_nth)
      then have "m' = m"
        using only [OF m(1) m'(1) here] answered [OF m'(1)] by (auto simp: batch_answered_def)
      with m' show "i \<in> mf_index ` set (out_failures (fst (outs ! m)))" by simp
    qed (use nth_mem [OF m(1)] in \<open>auto simp: fs\<close>)
    have "entry_confirmed x svc sch sents i \<longleftrightarrow> confirmed x svc (?b m) (sents ! m) i"
    proof
      assume "entry_confirmed x svc sch sents i"
      then obtain m' where m': "m' < length outs" "confirmed x svc (?b m') (sents ! m') i"
        by (auto simp: entry_confirmed_def sents)
      then have "m' = m"
        using only [OF m(1) m'(1) here] answered [OF m'(1)] by (auto simp: batch_answered_def)
      with m' show "confirmed x svc (?b m) (sents ! m) i" by simp
    qed (use m(1) sents in \<open>auto simp: entry_confirmed_def\<close>)
    then show "i \<in> mf_index ` set fs \<longleftrightarrow> \<not> entry_confirmed x svc sch sents i"
      using answered [OF m(1)] here unfolding failed batch_answered_def by blast
  qed
  show "list_all (failure_explained x svc sch (operation_timeout (wo_deadlines (ctx_options ctx))) sents) fs"
    unfolding list_all_iff
  proof
    fix f assume "f \<in> set fs"
    then obtain r where "r \<in> set outs" "f \<in> set (out_failures (fst r))" by (auto simp: fs)
    then obtain m where m: "m < length outs" "f \<in> set (out_failures (fst (outs ! m)))"
      by (metis in_set_conv_nth)
    then have "explained x svc (?b m) (operation_timeout (wo_deadlines (ctx_options ctx))) (sents ! m) f"
      using answered [OF m(1)] by (simp add: batch_answered_def list_all_iff)
    with m(1) show "failure_explained x svc sch (operation_timeout (wo_deadlines (ctx_options ctx))) sents f"
      unfolding failure_explained_def by (auto simp: sents)
  qed
qed

section \<open>The operation\<close>

definition listed_failures :: "(Error, BulkMutationResult) result \<Rightarrow> MutationFailure list" where
  "listed_failures res = (case res of Inl (BulkMutation e) \<Rightarrow> bme_failures e | _ \<Rightarrow> [])"

definition ran_batches :: "(Error, BulkMutationResult) result \<Rightarrow> bool" where
  "ran_batches res \<longleftrightarrow> (case res of Inl (BulkMutation e) \<Rightarrow> True | Inl _ \<Rightarrow> False | Inr _ \<Rightarrow> True)"

lemma execute_answered:
  assumes "execute x len svc sch config mutation options w = Some (res, w', sents)"
    and "schedule_ok sch (length (operation_batches len config mutation options))"
    and "ran_batches res"
  shows "(\<forall>i < length (bm_entries mutation).
      i \<in> mf_index ` set (listed_failures res) \<longleftrightarrow> \<not> entry_confirmed x svc sch sents i)
    \<and> list_all (failure_explained x svc sch (operation_timeout (wo_deadlines options)) sents) (listed_failures res)"
  using assms(1)
proof (cases rule: execute_cases)
  case (refused error)
  then show ?thesis using assms(3) by (auto simp: ran_batches_def split: Error.splits)
next
  case empty
  then show ?thesis by (simp add: listed_failures_def)
next
  case (ran ctx wa wb n r fs)
  have limit: "0 < ctx_limit ctx" using validate_options_limit [OF ran(1)] ran(2) by simp
  have dist: "distinct (map pe_original_index (concat (operation_batches len config mutation options)))"
    unfolding operation_batches_entries map_pending_index by simp
  have all: "pe_original_index ` set (concat (operation_batches len config mutation options))
      = {..<length (bm_entries mutation)}"
    unfolding operation_batches_entries set_map [symmetric] map_pending_index by (simp add: lessThan_atLeast0)
  have listed: "set (listed_failures res) = set fs"
    using ran(4) by (auto simp: finished_result_def listed_failures_def dest: arg_cong [of _ _ length])
  from run_batches_answered [OF ran(3) assms(2) operation_batches_fresh limit dist] show ?thesis
    unfolding all ran(2) by (simp add: listed list_all_iff)
qed

text \<open>What a request carries at the place of an entry is the encoded row of that entry.\<close>

lemma sent_lengths:
  assumes "execute x len svc sch config mutation options w = Some (res, w', sents)"
    and "schedule_ok sch (length (operation_batches len config mutation options))"
    and "sent \<in> set sents" "a < length sent"
  shows "length (mr_entries (snd (sent ! a))) = length (fst (sent ! a))"
proof -
  obtain es where "sent_ok (max_attempts (wo_retry options)) es sent"
    using execute_sent_ok [OF assms(1,2)] assms(3) by (auto simp: list_all_iff)
  then show ?thesis using nth_mem [OF assms(4)] by (auto simp: sent_ok_def list_all_iff split_beta)
qed

lemma carried_rows:
  assumes "execute x len svc sch config mutation options w = Some (res, w', sents)"
    and "schedule_ok sch (length (operation_batches len config mutation options))"
    and "sent \<in> set sents" and carries: "carries sent i a k"
  shows "i < length (bm_entries mutation) \<and> k < length (mr_entries (snd (sent ! a)))
    \<and> mr_entries (snd (sent ! a)) ! k = into_proto (bm_entries mutation ! i)
    \<and> pe_retry_safe (fst (sent ! a) ! k) = is_retry_safe (bm_entries mutation ! i)"
proof -
  obtain es where es: "es \<in> set (operation_batches len config mutation options)"
    "sent_ok (max_attempts (wo_retry options)) es sent"
    using execute_sent_ok [OF assms(1,2)] assms(3) by (auto simp: list_all_iff)
  have at: "a < length sent" "k < length (fst (sent ! a))" "pe_original_index (fst (sent ! a) ! k) = i"
    using carries by (auto simp: carries_def)
  have "mr_entries (snd (sent ! a)) = map pe_proto (fst (sent ! a))" "list_all (queued_in es) (fst (sent ! a))"
    using es(2) nth_mem [OF at(1)] by (auto simp: sent_ok_def list_all_iff split_beta)
  moreover from this(2) have "queued_in es (fst (sent ! a) ! k)" using nth_mem [OF at(2)] by (simp add: list_all_iff)
  then obtain e0 where e0: "e0 \<in> set es" "pe_original_index e0 = i"
    "pe_proto (fst (sent ! a) ! k) = pe_proto e0" "pe_retry_safe (fst (sent ! a) ! k) = pe_retry_safe e0"
    using at(3) by (elim queued_fields) metis
  have "e0 \<in> set (concat (operation_batches len config mutation options))" using es(1) e0(1) by auto
  then obtain j row where "e0 = pending_of (j, row)" "(j, row) \<in> set (enumerate 0 (bm_entries mutation))"
    unfolding operation_batches_entries by auto
  then have "i < length (bm_entries mutation)" "e0 = pending_of (i, bm_entries mutation ! i)"
    using e0(2) by (auto simp: in_set_enumerate_eq pending_of_def)
  ultimately show ?thesis using at(2) e0(3,4) by (simp add: pending_of_def)
qed

section \<open>Properties\<close>

text \<open>
  C19. A bulk write says exactly what the service confirmed. When its batches ran, an entry is
  missing from the failures, all entries if it succeeds, exactly if a request that carried the
  encoded row of the entry was answered with a success for the place of the row, in results that
  keep the protocol. So no entry is reported as written without a confirmation, and no confirmed
  entry is reported as failed, whatever other entries, retries and batches do.
\<close>

theorem success_is_confirmed:
  assumes "execute x len svc sch config mutation options w = Some (res, w', sents)"
    and "schedule_ok sch (length (operation_batches len config mutation options))"
    and "ran_batches res" and "i < length (bm_entries mutation)"
  shows "i \<notin> mf_index ` set (listed_failures res) \<longleftrightarrow>
    (\<exists>m a k. m < length sents \<and> carries (sents ! m) i a k
      \<and> mr_entries (snd (sents ! m ! a)) ! k = into_proto (bm_entries mutation ! i)
      \<and> verdict x (length (mr_entries (snd (sents ! m ! a))))
          (sv_mutate_rows svc (sc_order sch ! m) (of_nat (Suc a)) (snd (sents ! m ! a))) k = Some (Ok ()))"
proof -
  have same: "mr_entries (snd (sents ! m ! a)) ! k = into_proto (bm_entries mutation ! i)
      \<and> length (mr_entries (snd (sents ! m ! a))) = length (fst (sents ! m ! a))"
    if "m < length sents" "carries (sents ! m) i a k" for m a k
    using carried_rows [OF assms(1,2) nth_mem [OF that(1)] that(2)]
      sent_lengths [OF assms(1,2) nth_mem [OF that(1)], of a] that(2) by (simp add: carries_def)
  have "i \<notin> mf_index ` set (listed_failures res) \<longleftrightarrow> entry_confirmed x svc sch sents i"
    using execute_answered [OF assms(1-3)] assms(4) by blast
  also have "\<dots> \<longleftrightarrow> (\<exists>m a k. m < length sents \<and> carries (sents ! m) i a k
      \<and> verdict x (length (fst (sents ! m ! a)))
          (sv_mutate_rows svc (sc_order sch ! m) (of_nat (Suc a)) (snd (sents ! m ! a))) k = Some (Ok ()))"
    unfolding entry_confirmed_def confirmed_def answer_def by blast
  also have "\<dots> \<longleftrightarrow> (\<exists>m a k. m < length sents \<and> carries (sents ! m) i a k
      \<and> mr_entries (snd (sents ! m ! a)) ! k = into_proto (bm_entries mutation ! i)
      \<and> verdict x (length (mr_entries (snd (sents ! m ! a))))
          (sv_mutate_rows svc (sc_order sch ! m) (of_nat (Suc a)) (snd (sents ! m ! a))) k = Some (Ok ()))"
    by (intro ex_cong1 conj_cong refl) (simp add: same)
  finally show ?thesis .
qed


section \<open>A row confirmed, a row refused\<close>

text \<open>Two batches of one row each; a service that confirms them at once, one that refuses them.\<close>

definition refusing_service :: Service where
  "refusing_service = \<lparr>sv_mutate_rows = (\<lambda>_ _ _. Refused \<lparr>st_code = PermissionDenied, st_message = [],
     st_details = []\<rparr>), sv_sleep_expires = (\<lambda>_ _. False)\<rparr>"

abbreviation sample_answers where
  "sample_answers svc \<equiv> execute sample_env sample_lengths svc (sample_schedule [1, 0])
     sample_config sample_pair one_entry_options"

lemma sample_schedule_first:
  "schedule_ok (sample_schedule [1, 0])
     (length (operation_batches sample_lengths sample_config sample_pair one_entry_options))"
  using sample_schedules(2) by (simp add: sample_batches numeral_2_eq_2)

lemma sample_options_ok: "validate_options one_entry_options = Ok ()"
  by (simp add: validate_options_def and_then_Inr_iff map_err_Inr_iff validate_policies_Ok
      one_entry_options_def bulk_mutation_options_default_def retry_policy_default_def batch_policy_default_def
      secs_def nanos_per_sec_def millis_def is_finite_def less_f64_def)

lemma one_entry_ran:
  assumes "bm_entries mutation \<noteq> []"
  obtains res w sents where "execute sample_env sample_lengths svc (sample_schedule order) sample_config
    mutation one_entry_options sample_world = Some (res, w, sents)" "ran_batches res"
proof -
  let ?run = "execute sample_env sample_lengths svc (sample_schedule order) sample_config
    mutation one_entry_options sample_world"
  have "?run \<noteq> None"
    by (rule execute_returns)
      (simp_all add: sample_env_def sample_powi_nonneg one_entry_options_def
        bulk_mutation_options_default_def retry_policy_default_def secs_def nanos_per_sec_def)
  then obtain res w sents where run: "?run = Some (res, w, sents)" by (cases ?run) auto
  have deadline: "checked_add sample_env (x_clock sample_env (w_ticks sample_world))
      (operation_timeout (wo_deadlines one_entry_options)) \<noteq> None"
    by (simp add: checked_add_def sample_env_def one_entry_options_def bulk_mutation_options_default_def
        secs_def nanos_per_sec_def)
  have routing: "\<exists>r. routing_header sample_env t = Ok r" for t
    by (simp add: routing_header_def sample_env_def)
  have "ran_batches res"
    using run sample_options_ok deadline routing [of "table_name sample_config (bm_table_id mutation)"] assms
    by (auto simp: execute_def into_parts_def now_instant_def ran_batches_def Let_def
        split: option.splits prod.splits if_splits)
  with run show thesis by (rule that)
qed

lemma sample_ran:
  obtains res w sents where "sample_answers svc sample_world = Some (res, w, sents)" "ran_batches res"
  by (rule one_entry_ran [of sample_pair svc "[1, 0]"]) (simp_all add: sample_pair_def)

theorem success_is_confirmed_witness:
  "\<exists>res w sents. sample_answers sample_service sample_world = Some (res, w, sents)
     \<and> (1 \<notin> mf_index ` set (listed_failures res) \<longleftrightarrow>
        (\<exists>m a k. m < length sents \<and> carries (sents ! m) 1 a k
          \<and> mr_entries (snd (sents ! m ! a)) ! k = into_proto sample_row_mutation
          \<and> verdict sample_env (length (mr_entries (snd (sents ! m ! a))))
              (sv_mutate_rows sample_service ([1, 0] ! m) (of_nat (Suc a)) (snd (sents ! m ! a))) k
              = Some (Ok ())))"
proof -
  obtain res w sents where run: "sample_answers sample_service sample_world = Some (res, w, sents)"
    and ran: "ran_batches res" by (rule sample_ran)
  have two: "1 < length (bm_entries sample_pair)" "bm_entries sample_pair ! 1 = sample_row_mutation"
    "sc_order (sample_schedule [1, 0]) = [1, 0]"
    by (simp_all add: sample_pair_def sample_schedule_def)
  from success_is_confirmed [OF run sample_schedule_first ran two(1)] run show ?thesis
    unfolding two(2,3) by blast
qed


end
