(* ===== verification/WriteEffects.thy ===== *)
theory WriteEffects
  imports WriteAnswers
begin

text \<open>
  What a bulk write does to the table. The service keeps a log of the entries it applied, each
  with the place of its request and the time; an entry may be applied again when it is sent again,
  it may be applied though the answer got lost, and requests of different batches overlap. With
  what the service documents of its answers and its idempotency tokens, the rows end as if each
  entry had been applied once.
\<close>

section \<open>The log of the service\<close>

text \<open>
  A place is the number of a batch, of a request of this batch and of an entry of this request,
  each from zero; the batches are numbered as they complete.
\<close>

type_synonym place = "nat \<times> nat \<times> nat"

type_synonym table = "bytes \<Rightarrow> contents"

definition sent_at :: "sent list \<Rightarrow> place \<Rightarrow> bool" where
  "sent_at sents = (\<lambda>(m, a, k). m < length sents \<and> a < length (sents ! m)
     \<and> k < length (mr_entries (snd (sents ! m ! a))))"

definition entry_at :: "sent list \<Rightarrow> place \<Rightarrow> Entry" where
  "entry_at sents = (\<lambda>(m, a, k). mr_entries (snd (sents ! m ! a)) ! k)"

definition confirmed_at :: "Env \<Rightarrow> Service \<Rightarrow> Schedule \<Rightarrow> sent list \<Rightarrow> place \<Rightarrow> bool" where
  "confirmed_at x svc sch sents = (\<lambda>(m, a, k). verdict x (length (mr_entries (snd (sents ! m ! a))))
     (sv_mutate_rows svc (sc_order sch ! m) (of_nat (Suc a)) (snd (sents ! m ! a))) k = Some (Ok ()))"

text \<open>The table after the service applied a log to it, and the first application to a row.\<close>

definition apply_at ::
    "(bytes \<Rightarrow> contents \<Rightarrow> contents) \<Rightarrow> sent list \<Rightarrow> table \<Rightarrow> place \<times> i64 \<Rightarrow> table" where
  "apply_at aggregate sents T = (\<lambda>(p, t). T(entry_row_key (entry_at sents p) :=
     apply_entry aggregate t (entry_at sents p) (T (entry_row_key (entry_at sents p)))))"

definition row_log :: "sent list \<Rightarrow> (place \<times> i64) list \<Rightarrow> bytes \<Rightarrow> (place \<times> i64) list" where
  "row_log sents served key = filter (\<lambda>(p, _). entry_row_key (entry_at sents p) = key) served"

definition applied_at :: "sent list \<Rightarrow> (place \<times> i64) list \<Rightarrow> bytes \<Rightarrow> i64 option" where
  "applied_at sents served key = (case row_log sents served key of [] \<Rightarrow> None | (_, t) # _ \<Rightarrow> Some t)"

lemma apply_row_log:
  "foldl (apply_at aggregate sents) T served key
     = foldl (\<lambda>s (p, t). apply_entry aggregate t (entry_at sents p) s) (T key) (row_log sents served key)"
  by (induction served arbitrary: T) (auto simp: row_log_def apply_at_def)

text \<open>
  What the data API documents: the service applies what it was sent, an entry of a request at
  most once; it confirms an entry only if it applied it, then or, for an entry with an idempotency
  token, under another request; and it applies an entry with an idempotency token only once.
\<close>

definition same_token :: "sent list \<Rightarrow> place \<Rightarrow> place \<Rightarrow> bool" where
  "same_token sents p q \<longleftrightarrow> entry_at sents p = entry_at sents q \<and> entry_idempotency (entry_at sents p) \<noteq> None"

definition log_documented :: "Env \<Rightarrow> Service \<Rightarrow> Schedule \<Rightarrow> sent list \<Rightarrow> (place \<times> i64) list \<Rightarrow> bool" where
  "log_documented x svc sch sents served \<longleftrightarrow> distinct (map fst served)
     \<and> (\<forall>p \<in> fst ` set served. sent_at sents p)
     \<and> (\<forall>p. sent_at sents p \<and> confirmed_at x svc sch sents p
          \<longrightarrow> (\<exists>q \<in> fst ` set served. q = p \<or> same_token sents p q))
     \<and> (\<forall>p \<in> fst ` set served. \<forall>q \<in> fst ` set served. same_token sents p q \<longrightarrow> p = q)"

section \<open>An entry has one place in the first requests\<close>

text \<open>The entries of one request are entries of its batch, none of them twice.\<close>

definition places_inv :: "PendingEntry list \<Rightarrow> u32 \<Rightarrow> BatchOperation \<Rightarrow> sent \<Rightarrow> bool" where
  "places_inv es limit self sent \<longleftrightarrow> batch_inv es limit self sent
     \<and> list_all (\<lambda>(current, _). distinct (map pe_original_index current)) sent"

lemma places_round:
  assumes inv: "places_inv es limit self sent" and "bo_pending self \<noteq> []"
    and run: "run_attempt x svc self w = ((current, request, attempt), self', w')"
    and dist: "distinct (map pe_original_index es)"
  shows "places_inv es limit self' (sent @ [(current, request)])"
proof -
  have round: "round_ok self (current, request, attempt) self'"
    using run_attempt_ok [of self x svc w] run by simp
  have binv: "batch_inv es limit self sent" using inv by (simp add: places_inv_def)
  have "distinct (map mf_index (bo_failures self) @ map pe_original_index (bo_pending self))"
    by (rule distinct_sub_mset [OF _ dist]) (use binv in \<open>simp only: batch_inv_def mset_append\<close>)
  moreover have "map pe_original_index current = map pe_original_index (bo_pending self)"
    using round by (auto simp: round_ok_def comp_def)
  ultimately show ?thesis
    using inv batch_inv_round [OF binv assms(2) round] by (simp add: places_inv_def)
qed

lemma batch_run_places:
  assumes "batch_run x svc (batch_operation ctx b es) w = Some (outcome, w', sent)"
    and "list_all (\<lambda>e. pe_attempts e = 0) es" and "0 < ctx_limit ctx"
    and dist: "distinct (map pe_original_index es)"
  shows "list_all (\<lambda>(current, _). distinct (map pe_original_index current)
    \<and> pe_original_index ` set current \<subseteq> pe_original_index ` set es) sent"
proof -
  obtain self where run: "run_loop x svc (batch_operation ctx b es) w [] = Some (self, w', sent)"
    using assms(1) by (auto simp: batch_run_def)
  have start: "places_inv es (ctx_limit ctx) (batch_operation ctx b es) []"
    using batch_inv_start [of "batch_operation ctx b es" es] assms(2,3)
    by (simp add: places_inv_def batch_operation_def)
  have "places_inv es (ctx_limit ctx) self sent \<and> bo_pending self = []"
    by (rule run_loop_invariant [where P = "places_inv es (ctx_limit ctx)", OF run start])
      (auto intro: places_round [OF _ _ _ dist], simp add: places_inv_def batch_inv_give_up)
  moreover have "pe_original_index e \<in> pe_original_index ` set es" if "queued_in es e" for e
    using that by (elim queued_fields) (metis imageI)
  ultimately show ?thesis by (auto simp: places_inv_def batch_inv_def list_all_iff)
qed

lemma distinct_map_nth:
  "\<lbrakk>distinct (map f xs); i < length xs; j < length xs; f (xs ! i) = f (xs ! j)\<rbrakk> \<Longrightarrow> i = j"
  by (metis length_map nth_eq_iff_index_eq nth_map)

text \<open>The batches that carry an entry are one batch, and in one request it has one place.\<close>

lemma one_place:
  assumes "execute x len svc sch config mutation options w = Some (res, w', sents)"
    and sch: "schedule_ok sch (length (operation_batches len config mutation options))"
    and "m < length sents" "carries (sents ! m) i a k" "m' < length sents" "carries (sents ! m') i a' k'"
  shows "m = m' \<and> (a = a' \<longrightarrow> k = k')"
  using assms(1)
proof (cases rule: execute_cases)
  case (ran ctx wa wb n r fs)
  let ?batches = "operation_batches len config mutation options" and ?b = "\<lambda>m. sc_order sch ! m"
  have limit: "0 < ctx_limit ctx" using validate_options_limit [OF ran(1)] ran(2) by simp
  have dist: "distinct (map pe_original_index (concat ?batches))"
    unfolding operation_batches_entries map_pending_index by simp
  obtain outs where len: "length outs = length (sc_order sch)" and sents: "sents = map (snd \<circ> snd) outs"
    and "n = sum_list (map (out_successful \<circ> fst) outs)" and "fs = concat (map (out_failures \<circ> fst) outs)"
    and each: "\<forall>m < length outs. \<exists>c q v. batch_run (x\<lparr>x_clock := c, x_rand := q\<rparr>) svc
        (batch_operation ctx (?b m) (?batches ! ?b m)) v = Some (outs ! m)"
    by (rule run_batches_each [OF ran(3) sch])
  note order = schedule_order [OF sch]
  have range: "?b m < length ?batches" if "m < length outs" for m
    using order(1) that len nth_mem [of m "sc_order sch"] by auto
  have places: "list_all (\<lambda>(current, _). distinct (map pe_original_index current)
      \<and> pe_original_index ` set current \<subseteq> pe_original_index ` set (?batches ! ?b m)) (sents ! m)"
    if m: "m < length outs" for m
  proof -
    obtain c q v where one: "batch_run (x\<lparr>x_clock := c, x_rand := q\<rparr>) svc
        (batch_operation ctx (?b m) (?batches ! ?b m)) v = Some (fst (outs ! m), fst (snd (outs ! m)), snd (snd (outs ! m)))"
      using each m by (metis prod.collapse)
    have "list_all (\<lambda>e. pe_attempts e = 0) (?batches ! ?b m)"
      using operation_batches_fresh range [OF m] by (simp add: list_all_length)
    moreover have "distinct (map pe_original_index (?batches ! ?b m))"
      using dist nth_mem [OF range [OF m]] unfolding map_concat distinct_concat_iff by simp
    ultimately show ?thesis using batch_run_places [OF one _ limit] m by (simp add: sents)
  qed
  have here: "i \<in> pe_original_index ` set (?batches ! ?b m) \<and> distinct (map pe_original_index (fst (sents ! m ! a)))"
    if "m < length sents" "carries (sents ! m) i a k" for m a k
  proof -
    have "a < length (sents ! m)" "k < length (fst (sents ! m ! a))" "pe_original_index (fst (sents ! m ! a) ! k) = i"
      using that(2) by (simp_all add: carries_def)
    moreover have "m < length outs" using that(1) by (simp add: sents)
    ultimately have "distinct (map pe_original_index (fst (sents ! m ! a)))"
      "pe_original_index ` set (fst (sents ! m ! a)) \<subseteq> pe_original_index ` set (?batches ! ?b m)"
      "i \<in> pe_original_index ` set (fst (sents ! m ! a))"
      using places [of m] by (auto simp: list_all_length split_beta)
    then show ?thesis by blast
  qed
  have both: "m < length outs" "m' < length outs" using assms(3,5) by (simp_all add: sents)
  have "?b m = ?b m'"
    by (rule distinct_concat_index [OF dist range [OF both(1)] range [OF both(2)]])
      (use here assms(3-6) in blast)+
  then have "m = m'" using order(2) both len by (simp add: nth_eq_iff_index_eq)
  moreover from this have "k = k'" if "a = a'"
    using distinct_map_nth [OF conjunct2 [OF here [OF assms(3,4)]], of k k'] assms(4,6) that
    by (simp add: carries_def)
  ultimately show ?thesis by blast
qed (use assms(3) in simp_all)

section \<open>The rows after a bulk write\<close>

lemma foldl_one_entry:
  "\<forall>q \<in> set ps. entry_at sents (fst q) = e
   \<Longrightarrow> foldl (\<lambda>s (p, t). apply_entry aggregate t (entry_at sents p) s) s ps
     = foldl (\<lambda>s t. apply_entry aggregate t e s) s (map snd ps)"
  by (induction ps arbitrary: s) (simp_all add: split_beta)

lemma distinct_collapse: "\<lbrakk>distinct xs; \<forall>x \<in> set xs. \<forall>y \<in> set xs. x = y\<rbrakk> \<Longrightarrow> length xs \<le> 1"
  using distinct_card [of xs] card_le_Suc0_iff_eq [of "set xs"] by simp

lemma repeated_replay:
  assumes "is_retry_safe r" and "rm_idempotency r = None"
  shows "foldl (\<lambda>s t. apply_entry aggregate t (into_proto r) s) (apply_entry aggregate t0 (into_proto r) s) ts
    = apply_entry aggregate t0 (into_proto r) s"
  by (induction ts) (simp_all add: replay_changes_nothing [OF assms])

text \<open>A place carries the row of one entry.\<close>

lemma place_carries:
  assumes "execute x len svc sch config mutation options w = Some (res, w', sents)"
    and "schedule_ok sch (length (operation_batches len config mutation options))"
    and "sent_at sents (m, a, k)"
  obtains i where "i < length (bm_entries mutation)" "carries (sents ! m) i a k"
    "entry_at sents (m, a, k) = into_proto (bm_entries mutation ! i)"
proof -
  have at: "m < length sents" "a < length (sents ! m)" "k < length (mr_entries (snd (sents ! m ! a)))"
    using assms(3) by (simp_all add: sent_at_def)
  then have "carries (sents ! m) (pe_original_index (fst (sents ! m ! a) ! k)) a k"
    using sent_lengths [OF assms(1,2) nth_mem [OF at(1)] at(2)] by (simp add: carries_def)
  then show thesis
    using carried_rows [OF assms(1,2) nth_mem [OF at(1)]] that by (simp add: entry_at_def)
qed

lemma place_row:
  assumes "execute x len svc sch config mutation options w = Some (res, w', sents)"
    and "schedule_ok sch (length (operation_batches len config mutation options))"
    and "sent_at sents p"
  shows "\<exists>i < length (bm_entries mutation). entry_at sents p = into_proto (bm_entries mutation ! i)"
proof -
  obtain m a k where p: "p = (m, a, k)" by (cases p)
  show ?thesis using place_carries [OF assms(1,2), of m a k] assms(3) unfolding p by blast
qed

text \<open>
  The places at which the service applied an entry that must not be repeated are one place: with
  a token by what it documents, without one since only retry-safe rows are sent again.
\<close>

lemma unsafe_once:
  assumes run: "execute x len svc sch config mutation options w = Some (res, w', sents)"
    and sch: "schedule_ok sch (length (operation_batches len config mutation options))"
    and "\<not> is_retry_safe (bm_entries mutation ! i)"
    and "sent_at sents (m, a, k)" "carries (sents ! m) i a k"
    and "sent_at sents (m', a', k')" "carries (sents ! m') i a' k'"
  shows "(m, a, k) = (m', a', k')"
proof -
  have first: "a = 0" if "sent_at sents (m, a, k)" "carries (sents ! m) i a k" for m a k
  proof (rule ccontr)
    assume "a \<noteq> 0"
    have at: "m < length sents" "a < length (sents ! m)" using that(1) by (simp_all add: sent_at_def)
    obtain es where "sent_ok (max_attempts (wo_retry options)) es (sents ! m)"
      using execute_sent_ok [OF run sch] nth_mem [OF at(1)] by (auto simp: list_all_iff)
    moreover have "sents ! m ! a \<in> set (tl (sents ! m))"
      using \<open>a \<noteq> 0\<close> at(2) nth_mem [of "a - 1" "tl (sents ! m)"] by (simp add: nth_tl)
    ultimately have "list_all pe_retry_safe (fst (sents ! m ! a))"
      by (auto simp: sent_ok_def list_all_iff split_beta)
    moreover have "k < length (fst (sents ! m ! a))" using that(2) by (simp add: carries_def)
    ultimately show False
      using carried_rows [OF run sch nth_mem [OF at(1)] that(2)] assms(3) by (simp add: list_all_length)
  qed
  have "a = 0" "a' = 0" using first assms(4-7) by blast+
  moreover have "m < length sents" "m' < length sents" using assms(4,6) by (simp_all add: sent_at_def)
  ultimately show ?thesis using one_place [OF run sch _ assms(5) _ assms(7)] by simp
qed

text \<open>What the service did to one row: a sequence of applications of the same entry, or of none.\<close>

lemma applied_rows:
  assumes run: "execute x len svc sch config mutation options w = Some (res, w', sents)"
    and sch: "schedule_ok sch (length (operation_batches len config mutation options))"
    and rows: "distinct (map rm_row_key (bm_entries mutation))"
    and doc: "log_documented x svc sch sents served"
    and i: "i < length (bm_entries mutation)"
    and q: "q \<in> set (row_log sents served (rm_row_key (bm_entries mutation ! i)))"
  shows "sent_at sents (fst q) \<and> carries (sents ! fst (fst q)) i (fst (snd (fst q))) (snd (snd (fst q)))
    \<and> entry_at sents (fst q) = into_proto (bm_entries mutation ! i)"
proof -
  obtain m a k t where qt: "q = ((m, a, k), t)" by (metis prod.collapse)
  have here: "(m, a, k) \<in> fst ` set served" "entry_row_key (entry_at sents (m, a, k)) = rm_row_key (bm_entries mutation ! i)"
    using q by (force simp: row_log_def qt)+
  then have at: "sent_at sents (m, a, k)" using doc unfolding log_documented_def by blast
  obtain j where j: "j < length (bm_entries mutation)" "carries (sents ! m) j a k"
    "entry_at sents (m, a, k) = into_proto (bm_entries mutation ! j)"
    by (rule place_carries [OF run sch at])
  then have "j = i" using distinct_map_nth [OF rows j(1) i] here(2) by (simp add: into_proto_def)
  then show ?thesis using at j by (simp add: qt)
qed

lemma row_applied_once:
  assumes run: "execute x len svc sch config mutation options w = Some (res, w', sents)"
    and sch: "schedule_ok sch (length (operation_batches len config mutation options))"
    and rows: "distinct (map rm_row_key (bm_entries mutation))"
    and doc: "log_documented x svc sch sents served"
    and i: "i < length (bm_entries mutation)"
  defines "row \<equiv> bm_entries mutation ! i"
  shows "foldl (apply_at aggregate sents) T served (rm_row_key row) = (case applied_at sents served (rm_row_key row) of
      None \<Rightarrow> T (rm_row_key row)
    | Some t \<Rightarrow> apply_entry aggregate t (into_proto row) (T (rm_row_key row)))"
proof -
  let ?qs = "row_log sents served (rm_row_key row)"
  note at = applied_rows [OF run sch rows doc i, folded row_def]
  have fold: "foldl (apply_at aggregate sents) T served (rm_row_key row)
      = foldl (\<lambda>s t. apply_entry aggregate t (into_proto row) s) (T (rm_row_key row)) (map snd ?qs)"
    unfolding apply_row_log by (rule foldl_one_entry) (use at in blast)
  have once: "length ?qs \<le> 1" if same: "\<And>p q. \<lbrakk>p \<in> set ?qs; q \<in> set ?qs\<rbrakk> \<Longrightarrow> fst p = fst q"
  proof -
    have "distinct (map fst ?qs)" using doc by (simp add: log_documented_def row_log_def distinct_map_filter)
    then have "length (map fst ?qs) \<le> 1" by (rule distinct_collapse) (use same in force)
    then show ?thesis by simp
  qed
  consider (safe) "is_retry_safe row" "rm_idempotency row = None" | (token) "rm_idempotency row \<noteq> None"
    | (unsafe) "\<not> is_retry_safe row" by blast
  then show ?thesis
  proof cases
    case safe
    then show ?thesis
      by (cases ?qs) (auto simp: fold applied_at_def repeated_replay [OF safe])
  next
    case token
    have "fst p = fst q" if "p \<in> set ?qs" "q \<in> set ?qs" for p q
    proof -
      have "same_token sents (fst p) (fst q)"
        using at [OF that(1)] at [OF that(2)] token by (simp add: same_token_def into_proto_def)
      moreover have "p \<in> set served" "q \<in> set served" using that by (simp_all add: row_log_def)
      ultimately show ?thesis using doc unfolding log_documented_def by blast
    qed
    from once [OF this] show ?thesis by (cases ?qs) (auto simp: fold applied_at_def)
  next
    case unsafe
    have "fst p = fst q" if "p \<in> set ?qs" "q \<in> set ?qs" for p q
      using unsafe_once [OF run sch unsafe [unfolded row_def]] at [OF that(1)] at [OF that(2)]
      by (metis prod.collapse)
    from once [OF this] show ?thesis by (cases ?qs) (auto simp: fold applied_at_def)
  qed
qed

text \<open>The specification: each row with a time is written, once and at that time.\<close>

definition write_once ::
    "(bytes \<Rightarrow> contents \<Rightarrow> contents) \<Rightarrow> RowMutation list \<Rightarrow> (bytes \<Rightarrow> i64 option) \<Rightarrow> table \<Rightarrow> table" where
  "write_once aggregate rows stamp T = foldl (\<lambda>T row. case stamp (rm_row_key row) of
      None \<Rightarrow> T
    | Some t \<Rightarrow> T(rm_row_key row := apply_entry aggregate t (into_proto row) (T (rm_row_key row)))) T rows"

lemma write_once_other:
  "key \<notin> rm_row_key ` set rows \<Longrightarrow> write_once aggregate rows stamp T key = T key"
  unfolding write_once_def by (induction rows arbitrary: T) (auto split: option.split)

lemma write_once_row:
  "\<lbrakk>distinct (map rm_row_key rows); row \<in> set rows\<rbrakk> \<Longrightarrow> write_once aggregate rows stamp T (rm_row_key row)
     = (case stamp (rm_row_key row) of None \<Rightarrow> T (rm_row_key row)
        | Some t \<Rightarrow> apply_entry aggregate t (into_proto row) (T (rm_row_key row)))"
proof (induction rows arbitrary: T)
  case (Cons r rows)
  have step: "write_once aggregate (r # rows) stamp T = write_once aggregate rows stamp (case stamp (rm_row_key r) of
      None \<Rightarrow> T | Some t \<Rightarrow> T(rm_row_key r := apply_entry aggregate t (into_proto r) (T (rm_row_key r))))" for T
    by (simp add: write_once_def)
  show ?case
  proof (cases "row = r")
    case True
    then have "rm_row_key row \<notin> rm_row_key ` set rows" using Cons.prems(1) by simp
    from write_once_other [OF this] show ?thesis by (simp add: step True split: option.split)
  next
    case False
    then have "row \<in> set rows" using Cons.prems(2) by simp
    moreover from this have "rm_row_key row \<noteq> rm_row_key r"
      using Cons.prems(1) by (metis distinct.simps(2) imageI list.set_map list.simps(9))
    ultimately show ?thesis using Cons.IH Cons.prems(1) by (simp add: step split: option.split)
  qed
qed simp

lemma other_rows:
  assumes "execute x len svc sch config mutation options w = Some (res, w', sents)"
    and "schedule_ok sch (length (operation_batches len config mutation options))"
    and "log_documented x svc sch sents served" and "key \<notin> rm_row_key ` set (bm_entries mutation)"
  shows "foldl (apply_at aggregate sents) T served key = T key"
proof -
  have "entry_row_key (entry_at sents p) \<noteq> key" if "p \<in> fst ` set served" for p
  proof -
    have "sent_at sents p" using assms(3) that unfolding log_documented_def by blast
    then obtain i where "i < length (bm_entries mutation)" "entry_at sents p = into_proto (bm_entries mutation ! i)"
      using place_row [OF assms(1,2)] by blast
    then show ?thesis using assms(4) by (auto simp: into_proto_def)
  qed
  then have "row_log sents served key = []" by (force simp: row_log_def filter_empty_conv)
  then show ?thesis by (simp add: apply_row_log)
qed

lemma confirmed_applied:
  assumes "execute x len svc sch config mutation options w = Some (res, w', sents)"
    and "schedule_ok sch (length (operation_batches len config mutation options))"
    and "log_documented x svc sch sents served" and "entry_confirmed x svc sch sents i"
  shows "applied_at sents served (rm_row_key (bm_entries mutation ! i)) \<noteq> None"
proof -
  obtain m a k where m: "m < length sents" "carries (sents ! m) i a k"
    "verdict x (length (fst (sents ! m ! a))) (answer svc (sc_order sch ! m) (sents ! m) a) k = Some (Ok ())"
    using assms(4) unfolding entry_confirmed_def confirmed_def by blast
  have a: "a < length (sents ! m)" using m(2) by (simp add: carries_def)
  note entry = carried_rows [OF assms(1,2) nth_mem [OF m(1)] m(2)]
  have "sent_at sents (m, a, k)" using m(1) a entry by (simp add: sent_at_def)
  moreover have "confirmed_at x svc sch sents (m, a, k)"
    using m(3) sent_lengths [OF assms(1,2) nth_mem [OF m(1)] a] by (simp add: confirmed_at_def answer_def)
  ultimately obtain p where p: "p \<in> fst ` set served" "p = (m, a, k) \<or> same_token sents (m, a, k) p"
    using assms(3) unfolding log_documented_def by blast
  have "entry_at sents p = entry_at sents (m, a, k)" using p(2) by (auto simp: same_token_def)
  then have "entry_row_key (entry_at sents p) = rm_row_key (bm_entries mutation ! i)"
    using entry by (simp add: entry_at_def into_proto_def)
  then have "row_log sents served (rm_row_key (bm_entries mutation ! i)) \<noteq> []"
    using p(1) unfolding row_log_def filter_empty_conv by force
  then show ?thesis by (auto simp: applied_at_def neq_Nil_conv)
qed

text \<open>
  C2. A bulk write writes each row once. Let the service apply what it is sent in any order, under
  retries, lost answers and requests that overlap, but confirm only what it applied and recognise an
  idempotency token; and let the entries name different rows. Then the table ends as if each
  entry had been applied one time or not at all, and the entries that were not applied are among
  the failures the operation lists. No other row changes.
\<close>

theorem bulk_write_is_exactly_once:
  assumes "execute x len svc sch config mutation options w = Some (res, w', sents)"
    and "schedule_ok sch (length (operation_batches len config mutation options))"
    and "ran_batches res" and "distinct (map rm_row_key (bm_entries mutation))"
    and "log_documented x svc sch sents served"
  shows "foldl (apply_at aggregate sents) T served
      = write_once aggregate (bm_entries mutation) (applied_at sents served) T
    \<and> {i. i < length (bm_entries mutation) \<and> applied_at sents served (rm_row_key (bm_entries mutation ! i)) = None}
      \<subseteq> mf_index ` set (listed_failures res)"
proof (intro conjI)
  have "foldl (apply_at aggregate sents) T served key
      = write_once aggregate (bm_entries mutation) (applied_at sents served) T key" for key
  proof (cases "key \<in> rm_row_key ` set (bm_entries mutation)")
    case True
    then obtain i where i: "i < length (bm_entries mutation)" "key = rm_row_key (bm_entries mutation ! i)"
      by (auto simp: in_set_conv_nth)
    show ?thesis
      unfolding i(2) row_applied_once [OF assms(1,2,4,5) i(1)] write_once_row [OF assms(4) nth_mem [OF i(1)]]
      by (rule refl)
  next
    case False
    show ?thesis by (simp only: other_rows [OF assms(1,2,5) False] write_once_other [OF False])
  qed
  then show "foldl (apply_at aggregate sents) T served
      = write_once aggregate (bm_entries mutation) (applied_at sents served) T" by (rule ext)
  show "{i. i < length (bm_entries mutation) \<and> applied_at sents served (rm_row_key (bm_entries mutation ! i)) = None}
      \<subseteq> mf_index ` set (listed_failures res)"
    using execute_answered [OF assms(1-3)] confirmed_applied [OF assms(1,2,5)] by blast
qed

section \<open>Two rows, one of them written twice\<close>

text \<open>
  The service of the sample refuses the first request of each batch and confirms the second. That
  it applied the entries it was sent under both requests is possible.
\<close>

definition sample_two_rows :: BulkMutation where
  "sample_two_rows = sample_bulk\<lparr>bm_entries := [sample_row_mutation, sample_row_mutation\<lparr>rm_row_key := [2]\<rparr>]\<rparr>"

lemma sample_two_rows_batches:
  "length (operation_batches sample_lengths sample_config sample_two_rows one_entry_options) = 2"
  by (simp add: split_batches_pack sample_two_rows_def entry_fits_def one_entry_options_def)

lemma finite_places: "finite {p. sent_at sents p}"
proof (rule finite_subset)
  show "{p. sent_at sents p} \<subseteq> (\<Union>m < length sents. \<Union>a < length (sents ! m).
      (\<lambda>k. (m, a, k)) ` {..<length (mr_entries (snd (sents ! m ! a)))})"
    by (auto simp: sent_at_def)
qed simp

lemma all_applied_documented:
  assumes "\<And>p. sent_at sents p \<Longrightarrow> entry_idempotency (entry_at sents p) = None"
  obtains served where "log_documented x svc sch sents served"
    "\<And>p. sent_at sents p \<Longrightarrow> p \<in> fst ` set served"
proof -
  obtain ps where ps: "set ps = {p. sent_at sents p}" "distinct ps"
    using finite_distinct_list [OF finite_places] by blast
  have "log_documented x svc sch sents (map (\<lambda>p. (p, 5000)) ps)"
    using ps assms by (auto simp: log_documented_def same_token_def comp_def image_image)
  then show thesis using ps(1) by (intro that [of "map (\<lambda>p. (p, 5000)) ps"]) (auto simp: image_image)
qed

theorem bulk_write_is_exactly_once_witness:
  "\<exists>res w sents served. execute sample_env sample_lengths sample_service (sample_schedule [1, 0])
      sample_config sample_two_rows one_entry_options sample_world = Some (res, w, sents)
    \<and> {p. sent_at sents p} \<subseteq> fst ` set served
    \<and> foldl (apply_at (\<lambda>_ s. s) sents) (\<lambda>_ _. None) served
      = write_once (\<lambda>_ s. s) (bm_entries sample_two_rows) (applied_at sents served) (\<lambda>_ _. None)
    \<and> {i. i < length (bm_entries sample_two_rows)
         \<and> applied_at sents served (rm_row_key (bm_entries sample_two_rows ! i)) = None}
      \<subseteq> mf_index ` set (listed_failures res)"
proof -
  have some: "bm_entries sample_two_rows \<noteq> []" by (simp add: sample_two_rows_def)
  obtain res w sents where run: "execute sample_env sample_lengths sample_service (sample_schedule [1, 0])
      sample_config sample_two_rows one_entry_options sample_world = Some (res, w, sents)"
    and ran: "ran_batches res" by (rule one_entry_ran [OF some])
  have sch: "schedule_ok (sample_schedule [1, 0])
      (length (operation_batches sample_lengths sample_config sample_two_rows one_entry_options))"
    using sample_schedules(2) by (simp add: sample_two_rows_batches)
  have "entry_idempotency (entry_at sents p) = None" if "sent_at sents p" for p
  proof -
    obtain i where "i < length (bm_entries sample_two_rows)" "entry_at sents p = into_proto (bm_entries sample_two_rows ! i)"
      using place_row [OF run sch \<open>sent_at sents p\<close>] by blast
    then show ?thesis by (auto simp: sample_two_rows_def sample_row_mutation_def into_proto_def less_Suc_eq)
  qed
  from all_applied_documented [OF this] obtain served
    where doc: "log_documented sample_env sample_service (sample_schedule [1, 0]) sents served"
      and all: "\<And>p. sent_at sents p \<Longrightarrow> p \<in> fst ` set served" by blast
  have rows: "distinct (map rm_row_key (bm_entries sample_two_rows))"
    by (simp add: sample_two_rows_def sample_row_mutation_def)
  from bulk_write_is_exactly_once [OF run sch ran rows doc, of "\<lambda>_ s. s" "\<lambda>_ _. None"] run all show ?thesis
    by blast
qed

end
