(* ===== verification/WriteTrace.thy ===== *)
theory WriteTrace
  imports BulkWrite Trace
begin

text \<open>
  What a bulk mutation reports: the events of each of its batches follow the protocol of
  \<open>Trace\<close>, however the batches interleave, and its one finish event adds them up.
\<close>

section \<open>One batch\<close>

abbreviation batch_leads :: "nat \<Rightarrow> World \<Rightarrow> trace_state \<Rightarrow> World \<Rightarrow> bool" where
  "batch_leads b w0 s w \<equiv> leads MutateRows (Some b) fresh w0 s w"

lemma leads_consume_items:
  assumes "consume_items x k st items (t, w) = (res, t', w')"
    and "leads op b s w0 (InFlight seen entries, n, r) w" "tracks b (InFlight seen entries, n, r) t"
  shows "\<exists>seen'. leads op b s w0 (InFlight seen' entries, n, r) w' \<and> tracks b (InFlight seen' entries, n, r) t'"
  using assms
proof (induction x k st items "(t, w)" arbitrary: t w seen rule: consume_items.induct)
  case (4 x k st rs items)
  obtain t1 w1 where first: "first_response (x_clock x) (t, w) = (t1, w1)" by fastforce
  note step = leads_first_response [OF 4(3,4) first]
  obtain st1 issue where entries: "consume_entries x k st rs = (st1, issue)" by fastforce
  show ?case
  proof (cases issue)
    case None
    have "consume_items x k st1 items (t1, w1) = (res, t', w')" using 4(2) first entries None by simp
    then show ?thesis
      using 4(1) [OF first [symmetric] entries [symmetric] None] step by blast
  next
    case (Some i)
    then show ?thesis using 4(2) first entries step by auto
  qed
qed auto

lemma leads_consume_stream:
  assumes "consume_stream x limit current items (t, w) = (attempt, t', w')"
    and "leads op b s w0 (InFlight False entries, n, r) w" "tracks b (InFlight False entries, n, r) t"
  shows "\<exists>seen. leads op b s w0 (InFlight seen entries, n, r) w' \<and> tracks b (InFlight seen entries, n, r) t'"
  using assms leads_consume_items [of x _ _ items t w _ t' w' op b s w0 False entries n r]
  by (auto simp: consume_stream_def Let_def split: prod.splits if_splits)

text \<open>
  A request that keeps the deadlines of its batch: its timeout, if it has one, is not longer than
  that of an attempt, and ends by the deadline of the operation if the request is sent when the
  clock was read for it.
\<close>

definition batch_timely ::
    "Env \<Rightarrow> World \<Rightarrow> duration \<Rightarrow> instant \<Rightarrow> PendingEntry list \<times> MutateRowsRequest \<Rightarrow> bool" where
  "batch_timely x w0 att_timeout deadline = (\<lambda>(_, request). case mr_timeout request of None \<Rightarrow> True
     | Some d \<Rightarrow> d \<le> att_timeout \<and> (\<exists>k \<ge> w_ticks w0. x_clock x k + d \<le> deadline))"

lemma run_attempt_timely:
  assumes "run_attempt x svc self w = ((current, request, attempt), self', w')"
    and "w_ticks w0 \<le> w_ticks w" and "mono (x_clock x)" and "bo_deadline self \<le> x_instant_max x"
  shows "batch_timely x w0 (attempt_timeout (wo_deadlines (bo_options self))) (bo_deadline self) (current, request)"
proof -
  let ?t = "x_clock x (w_ticks w)" and ?t' = "x_clock x (w_ticks w + 2)"
  let ?timeout = "attempt_timeout (wo_deadlines (bo_options self))"
  define dl where "dl = (case checked_add x ?t ?timeout of
      None \<Rightarrow> bo_deadline self | Some d \<Rightarrow> min d (bo_deadline self))"
  have "mr_timeout request = (if ?t' \<le> dl then Some (dl - ?t') else None)"
    using assms(1)
    by (cases "checked_add x ?t ?timeout")
      (auto simp: run_attempt_def write_request_def now_instant_def Let_def dl_def numeral_2_eq_2
        split: prod.splits)
  moreover have "?t \<le> ?t'" using assms(3) by (simp add: monoD)
  moreover have "dl \<le> bo_deadline self" "dl \<le> ?t + ?timeout"
    using assms(4) by (auto simp: dl_def checked_add_def)
  ultimately show ?thesis
    using assms(2) by (auto simp: batch_timely_def intro!: exI [of _ "w_ticks w + 2"])
qed

text \<open>A round of the loop is one attempt, with the entries it carries.\<close>

lemma leads_run_attempt:
  assumes "run_attempt x svc self w = ((current, request, attempt), self', w')"
    and "leads MutateRows (Some b) s0 w0 (Ready, n, r) w" and "b = bo_batch self"
    and "bo_rpc_attempts self = n" "unat n < u32_max"
  shows "leads MutateRows (Some b) s0 w0 (Over (ao_code attempt) (length (ao_failures attempt) + length (ao_retry attempt)), n + 1, r) w'"
proof -
  have inc: "sat_inc n = n + 1" using assms(5) by (simp add: sat_inc_def)
  define self1 where "self1 = self\<lparr>bo_rpc_attempts := n + 1, bo_pending := []\<rparr>"
  define cur where "cur = map (\<lambda>entry. entry\<lparr>pe_attempts := sat_inc (pe_attempts entry)\<rparr>) (bo_pending self)"
  obtain t1 w1 where t1: "now_instant (x_clock x) w = (t1, w1)" by fastforce
  define dl where "dl = (case checked_add x t1 (attempt_timeout (wo_deadlines (bo_options self))) of
      None \<Rightarrow> bo_deadline self | Some d \<Rightarrow> min d (bo_deadline self))"
  obtain t2 w2 where t2: "now_instant (x_clock x) w1 = (t2, w2)" by fastforce
  obtain req w3 where req: "write_request x self1 cur dl w2 = (req, w3)" by fastforce
  have step3: "leads MutateRows (Some b) s0 w0 (Ready, n, r) w3"
    using leads_now [OF leads_now [OF assms(2) t1] t2] req
    by (auto simp: write_request_def split: prod.splits intro: leads_now)
  obtain tr w4 where tr: "handle_attempt (x_clock x) (Some b) (n + 1) (length cur) (dl - t2) w3 = (tr, w4)"
    by fastforce
  note flight = leads_attempt [OF step3 tr]
  define reply where "reply = (case sv_mutate_rows svc b (n + 1) req of
      Connected items \<Rightarrow> consume_stream x (bo_limit self) cur items (tr, w4)
    | Refused status \<Rightarrow> (rpc_failure x (bo_limit self) cur status, tr, w4)
    | CallTimeout \<Rightarrow> (rpc_failure x (bo_limit self) cur attempt_timeout_status, tr, w4))"
  obtain att tr1 w5 where reply_eq: "reply = (att, tr1, w5)" by (metis prod_cases3)
  obtain seen where seen: "leads MutateRows (Some b) s0 w0 (InFlight seen (length cur), n + 1, r) w5"
    "tracks (Some b) (InFlight seen (length cur), n + 1, r) tr1"
    using reply_eq flight
    unfolding reply_def by (auto split: MutateReply.splits dest: leads_consume_stream)
  have "outcome_ok (bo_limit self) cur att"
    using reply_eq rpc_failure_ok consume_stream_ok [of "bo_limit self" cur x _ "(tr, w4)"]
    unfolding reply_def by (auto split: MutateReply.splits; metis fst_conv)
  then have sum: "ao_successful att + (length (ao_failures att) + length (ao_retry att)) = length cur"
    by (simp add: outcome_ok_def ends_ok_def)
  let ?summary = "\<lparr>sum_rows = 0, sum_successful_entries = ao_successful att,
      sum_failed_entries = length (ao_failures att) + length (ao_retry att)\<rparr>"
  obtain tr2 w6 where fin: "attempt_finish (x_clock x) (ao_code att) ?summary (tr1, w5) = (tr2, w6)"
    by fastforce
  from leads_attempt_finish [OF seen fin] sum
  have "leads MutateRows (Some b) s0 w0 (Over (ao_code att) (length (ao_failures att) + length (ao_retry att)), n + 1, r) w6"
    by simp
  moreover have "attempt = att" "w' = w6"
    using assms(1) t1 t2 req tr reply_eq fin
    by (cases "checked_add x t1 (attempt_timeout (wo_deadlines (bo_options self)))";
        cases "sv_mutate_rows svc b (n + 1) req";
        simp add: Let_def run_attempt_def self1_def cur_def dl_def reply_def inc assms(3) [symmetric] assms(4))+
  ultimately show ?thesis by simp
qed

lemma leads_run_pause:
  assumes "run_pause x svc attempt self w = Some (continue, self', w')"
    and "leads MutateRows (Some b) s0 w0 (Over (ao_code attempt) failed, n, r) w" and "b = bo_batch self"
    and "failed_attempt (bo_pending self) = n" "length (bo_pending self) \<le> failed"
  shows "if continue then leads MutateRows (Some b) s0 w0 (Ready, n, r + 1) w'
    else \<exists>s. leads MutateRows (Some b) s0 w0 s w' \<and> settled s \<and> fst (snd s) = n"
proof -
  obtain d where d: "backoff (x_powi x) (x_rand x (w_ticks w)) (wo_retry (bo_options self)) n = Some d"
    using assms(1,4) by (auto simp: run_pause_def split: option.splits)
  let ?delay = "max d (ao_retry_delay attempt)"
  obtain t w1 where now: "now_instant (x_clock x) w = (t, w1)" by fastforce
  note step = leads_now [OF assms(2) now]
  note retry = leads_retry [OF step assms(5), of ?delay]
  have settled: "settled (Ready, n, r + 1)" "settled (Over (ao_code attempt) failed, n, r)" by simp_all
  show ?thesis
    using assms(1,3,4) d now step retry settled
    by (simp add: run_pause_def Let_def split: if_splits; metis fst_conv snd_conv)
qed

lemma failed_attempt_all:
  assumes "es \<noteq> []" and "\<forall>e \<in> set es. pe_attempts e = n"
  shows "failed_attempt es = n"
proof -
  have "fold (\<lambda>e m. max m (pe_attempts e)) ds n = n" if "\<forall>e \<in> set ds. pe_attempts e = n" for ds
    using that by (induction ds) auto
  then show ?thesis using assms by (cases es) (auto simp: failed_attempt_def)
qed

lemma leads_run_loop:
  assumes "run_loop x svc self w sent = Some (self', w', sent')"
    and "batch_leads b w0 (Ready, n, r) w" and "b = bo_batch self"
    and "batch_inv es limit self sent" and "n = bo_rpc_attempts self"
    and "timely = (\<lambda>r. mono (x_clock x) \<and> bo_deadline self \<le> x_instant_max x \<longrightarrow>
      batch_timely x w0 (attempt_timeout (wo_deadlines (bo_options self))) (bo_deadline self) r)"
    and "list_all timely sent"
  shows "(\<exists>s. batch_leads b w0 s w' \<and> settled s \<and> fst (snd s) = of_nat (length sent'))
    \<and> list_all timely sent'"
  using assms
proof (induction x svc self w sent arbitrary: n r rule: run_loop.induct)
  case (1 x svc self w sent)
  obtain t w1 where now: "now_instant (x_clock x) w = (t, w1)" by fastforce
  note step = leads_now [OF 1(3) now]
  have n: "n = of_nat (length sent)" using 1(5,6) by (simp add: batch_inv_def word_of_unat)
  obtain current request attempt self1 w2 where
    run: "run_attempt x svc self w1 = ((current, request, attempt), self1, w2)"
    by (metis prod.exhaust)
  have round: "round_ok self (current, request, attempt) self1"
    using run_attempt_ok [of self x svc w1] run by simp
  let ?sent = "sent @ [(current, request)]"
  let ?failed = "length (ao_failures attempt) + length (ao_retry attempt)"
  show ?case
  proof (cases "bo_pending self = [] \<or> t \<ge> bo_deadline self")
    case True
    then have "sent' = sent" "w' = w \<or> w' = w1"
      using 1(2) now by (subst (asm) run_loop.simps; auto split: if_splits)+
    then show ?thesis using 1(3,8) step n by (intro conjI exI [of _ "(Ready, n, r)"]) auto
  next
    case False
    have inv1: "batch_inv es limit self1 ?sent" using batch_inv_round [OF 1(5) _ round] False by simp
    obtain e0 where "e0 \<in> set (bo_pending self)" using False by (cases "bo_pending self") auto
    then have "unat (pe_attempts e0) = unat n" "pe_attempts e0 < limit"
      using 1(5,6) by (auto simp: batch_inv_def list_all_iff)
    then have small: "unat n < u32_max" using unat_u32_le [of limit] by (simp add: word_less_nat_alt)
    have over: "batch_leads b w0 (Over (ao_code attempt) ?failed, n + 1, r) w2"
      by (rule leads_run_attempt [OF run step 1(4) 1(6) [symmetric] small])
    have self1: "bo_batch self1 = bo_batch self" "bo_pending self1 = ao_retry attempt"
      "bo_rpc_attempts self1 = n + 1"
      using round 1(6) small by (auto simp: round_ok_def sat_inc_def)
    have kept: "bo_options self1 = bo_options self" "bo_deadline self1 = bo_deadline self"
      using round by (auto simp: round_ok_def)
    have timely1: "list_all timely ?sent"
      using run_attempt_timely [OF run leads_ticks [OF step]] 1(8) by (simp add: 1(7))
    have n1: "n + 1 = of_nat (length ?sent)" using n by (simp add: add.commute)
    show ?thesis
    proof (cases "bo_pending self1 = []")
      case True
      then have "sent' = ?sent" "w' = w2"
        using 1(2) False now run by (subst (asm) run_loop.simps; simp)+
      then show ?thesis
        using over timely1
        by (intro conjI exI [of _ "(Over (ao_code attempt) ?failed, n + 1, r)"])
          (simp_all only: n1 [symmetric] fst_conv snd_conv settled.simps simp_thms)
    next
      case pending: False
      obtain continue self2 w3 where
        pause: "run_pause x svc attempt self1 w2 = Some (continue, self2, w3)"
        using 1(2) False now run pending
        by (subst (asm) run_loop.simps) (auto simp: Let_def split: option.splits)
      have "\<forall>e \<in> set (bo_pending self1). pe_attempts e = n + 1"
      proof
        fix e assume "e \<in> set (bo_pending self1)"
        then have "unat (pe_attempts e) = unat (bo_rpc_attempts self1)"
          using inv1 by (auto simp: batch_inv_def list_all_iff)
        then show "pe_attempts e = n + 1" using self1(3) word_of_unat by metis
      qed
      then have "failed_attempt (bo_pending self1) = n + 1" by (rule failed_attempt_all [OF pending])
      from leads_run_pause [OF pause over _ this] 1(4) self1
      have after: "if continue then batch_leads b w0 (Ready, n + 1, r + 1) w3
        else \<exists>s. batch_leads b w0 s w3 \<and> settled s \<and> fst (snd s) = n + 1" by simp
      show ?thesis
      proof (cases continue)
        case True
        then have self2: "self2 = self1" using run_pause_fields [OF pause] by simp
        have "run_loop x svc self2 w3 ?sent = Some (self', w', sent')"
          using 1(2) False now run pause pending True by (subst (asm) run_loop.simps) simp
        then show ?thesis
          using 1(1) [OF _ now [symmetric] refl _ run [symmetric] refl refl refl refl _ pause refl refl True]
            False pending self2 after True inv1 1(4,7) self1 kept timely1 by simp
      next
        case stop: False
        then have "sent' = ?sent" "w' = w3"
          using 1(2) False now run pause pending by (subst (asm) run_loop.simps; simp)+
        then show ?thesis using after stop n1 timely1 by auto
      qed
    qed
  qed
qed

lemma leads_batch_run:
  assumes "batch_run x svc (batch_operation ctx b es) w = Some (outcome, w', sent)"
    and "w_operation w = MutateRows" "w_attempts w = 0" "w_retries w = 0"
    and "list_all (\<lambda>e. pe_attempts e = 0) es" "0 < ctx_limit ctx"
  shows "\<exists>es p. appends w w' es \<and> settled (p, w_attempts w', w_retries w')
    \<and> follow_all MutateRows (Some b) fresh es = Some (p, w_attempts w', w_retries w')
    \<and> w_attempts w' = of_nat (length sent)"
    and "mono (x_clock x) \<Longrightarrow> ctx_deadline ctx \<le> x_instant_max x \<Longrightarrow>
      list_all (batch_timely x w (attempt_timeout (wo_deadlines (ctx_options ctx))) (ctx_deadline ctx)) sent"
proof -
  obtain self where run: "run_loop x svc (batch_operation ctx b es) w [] = Some (self, w', sent)"
    using assms(1) by (auto simp: batch_run_def)
  have "batch_inv es (ctx_limit ctx) (batch_operation ctx b es) []"
    using batch_inv_start [of "batch_operation ctx b es" es] assms(5,6) by (simp add: batch_operation_def)
  from leads_run_loop [OF run leads_refl _ this _ refl] assms(2)
  have loop: "\<exists>s. batch_leads b w s w' \<and> settled s \<and> fst (snd s) = of_nat (length sent)"
    and timely: "list_all (\<lambda>r. mono (x_clock x) \<and> ctx_deadline ctx \<le> x_instant_max x \<longrightarrow>
      batch_timely x w (attempt_timeout (wo_deadlines (ctx_options ctx))) (ctx_deadline ctx) r) sent"
    by (auto simp: batch_operation_def)
  from loop obtain s where s: "batch_leads b w s w'" "settled s" "fst (snd s) = of_nat (length sent)"
    by blast
  from leads_fresh [OF s(1) assms(3,4)] s(2,3)
  show "\<exists>es p. appends w w' es \<and> settled (p, w_attempts w', w_retries w')
    \<and> follow_all MutateRows (Some b) fresh es = Some (p, w_attempts w', w_retries w')
    \<and> w_attempts w' = of_nat (length sent)" by auto
  show "mono (x_clock x) \<Longrightarrow> ctx_deadline ctx \<le> x_instant_max x \<Longrightarrow>
      list_all (batch_timely x w (attempt_timeout (wo_deadlines (ctx_options ctx))) (ctx_deadline ctx)) sent"
    using timely by (auto simp: list_all_iff)
qed

section \<open>All batches\<close>

text \<open>
  The log of batches that ran concurrently interleaves their logs: the events of a batch are
  those of its own log, in order. At no time are more batches under way than may be, a batch from
  its first event to its last. That is what is assumed of a schedule, for logs that share no
  batch.
\<close>

definition interleaves :: "DiagnosticEvent list list \<Rightarrow> DiagnosticEvent list \<Rightarrow> bool" where
  "interleaves logs l \<longleftrightarrow>
     (\<forall>b. filter (\<lambda>e. event_batch e = b) l = concat (map (filter (\<lambda>e. event_batch e = b)) logs))"

definition under_way :: "DiagnosticEvent list \<Rightarrow> DiagnosticEvent list \<Rightarrow> bool" where
  "under_way pre es \<longleftrightarrow> (let seen = length (filter (\<lambda>e. event_batch e = event_batch (hd es)) pre)
     in 0 < seen \<and> seen < length es)"

definition buffered :: "nat \<Rightarrow> DiagnosticEvent list list \<Rightarrow> DiagnosticEvent list \<Rightarrow> bool" where
  "buffered limit logs l \<longleftrightarrow> (\<forall>k. length (filter (under_way (take k l)) logs) \<le> limit)"

definition one_batch :: "DiagnosticEvent list \<Rightarrow> bool" where
  "one_batch es \<longleftrightarrow> list_all (\<lambda>e. event_batch e = event_batch (hd es)) es"

definition log_ok :: "Schedule \<Rightarrow> bool" where
  "log_ok sch \<longleftrightarrow> (\<forall>n logs. sorted_wrt (\<lambda>xs ys. \<forall>e \<in> set xs. \<forall>e' \<in> set ys. event_batch e \<noteq> event_batch e') logs
     \<and> list_all one_batch logs \<and> 0 < n
     \<longrightarrow> interleaves logs (sc_log sch n logs) \<and> buffered n logs (sc_log sch n logs))"

lemma interleaves_mset:
  assumes "interleaves logs l"
  shows "mset l = mset (concat logs)"
proof (rule multiset_eqI)
  fix e
  have in_batch: "count (mset xs) e = count (mset (filter (\<lambda>e'. event_batch e' = event_batch e) xs)) e"
    for xs :: "DiagnosticEvent list"
    by (simp add: mset_filter)
  have "count (mset l) e = count (mset (filter (\<lambda>e'. event_batch e' = event_batch e) l)) e"
    by (rule in_batch)
  also have "filter (\<lambda>e'. event_batch e' = event_batch e) l
      = filter (\<lambda>e'. event_batch e' = event_batch e) (concat logs)"
    using assms by (simp add: interleaves_def filter_concat)
  also have "count (mset \<dots>) e = count (mset (concat logs)) e" by (rule in_batch [symmetric])
  finally show "count (mset l) e = count (mset (concat logs)) e" .
qed

text \<open>Each batch \<open>b\<close> of the order has its log.\<close>

abbreviation own_log :: "nat \<Rightarrow> DiagnosticEvent list \<Rightarrow> bool" where
  "own_log b es \<equiv> \<forall>e \<in> set es. event_batch e = Some b"

lemma own_logs_other:
  "list_all2 own_log order logs \<Longrightarrow> b \<notin> set order
   \<Longrightarrow> concat (map (filter (\<lambda>e. event_batch e = Some b)) logs) = []"
proof (induction rule: list_all2_induct)
  case (Cons b' order es logs)
  then have "filter (\<lambda>e. event_batch e = Some b) es = []" by (auto simp: filter_empty_conv)
  then show ?case using Cons by simp
qed simp

lemma own_logs_filter:
  "list_all2 own_log order logs \<Longrightarrow> distinct order \<Longrightarrow>
   list_all2 (\<lambda>b es. concat (map (filter (\<lambda>e. event_batch e = Some b)) logs) = es) order logs"
proof (induction rule: list_all2_induct)
  case (Cons b order es logs)
  have "filter (\<lambda>e. event_batch e = Some b) es = es" using Cons by (simp add: filter_id_conv)
  moreover have "filter (\<lambda>e. event_batch e = Some b') es = []" if "b' \<in> set order" for b'
    using Cons that by (auto simp: filter_empty_conv)
  then have "list_all2 (\<lambda>b' es'. concat (map (filter (\<lambda>e. event_batch e = Some b')) (es # logs)) = es')
      order logs"
    using Cons by (auto simp: list_all2_conv_all_nth)
  ultimately show ?case using own_logs_other [of order logs b] Cons by simp
qed simp

lemma own_logs_apart:
  "list_all2 own_log order logs \<Longrightarrow> distinct order \<Longrightarrow>
   sorted_wrt (\<lambda>xs ys. \<forall>e \<in> set xs. \<forall>e' \<in> set ys. event_batch e \<noteq> event_batch e') logs"
proof (induction rule: list_all2_induct)
  case (Cons b order es logs)
  have "event_batch e \<noteq> Some b" if es': "es' \<in> set logs" and e: "e \<in> set es'" for es' e
  proof -
    obtain k where "k < length logs" "es' = logs ! k" using es' by (auto simp: in_set_conv_nth)
    then have "event_batch e = Some (order ! k)" "order ! k \<in> set order"
      using Cons(2) e by (auto simp: list_all2_conv_all_nth)
    then show ?thesis using Cons by auto
  qed
  then show ?case using Cons by fastforce
qed simp

text \<open>What the log of all batches shows.\<close>

definition batches_traced :: "nat \<Rightarrow> DiagnosticEvent list \<Rightarrow> bool" where
  "batches_traced k body \<longleftrightarrow> (\<forall>b < k. \<exists>p n r.
     follow_all MutateRows (Some b) fresh (filter (\<lambda>e. event_batch e = Some b) body) = Some (p, n, r)
     \<and> settled (p, n, r))"

lemma sum_list_of_nat_lengths:
  "sum_list (map (\<lambda>es. of_nat (length (f es))) logs) = (of_nat (length (concat (map f logs))) :: u32)"
  by (induction logs) simp_all

text \<open>The logs of batches that run concurrently, each as the protocol says.\<close>

definition batch_log :: "nat \<Rightarrow> World \<Rightarrow> sent \<Rightarrow> bool" where
  "batch_log b v sent \<longleftrightarrow> w_attempts v = of_nat (length sent)
     \<and> (\<exists>p. follow_all MutateRows (Some b) fresh (w_events v) = Some (p, w_attempts v, w_retries v)
          \<and> settled (p, w_attempts v, w_retries v))"

abbreviation ctx_in_flight :: "BatchRunContext \<Rightarrow> nat" where
  "ctx_in_flight ctx \<equiv> max_in_flight_requests (wo_batch (ctx_options ctx))"

lemma validate_options_in_flight:
  "validate_options options = Ok () \<Longrightarrow> 0 < max_in_flight_requests (wo_batch options)"
  by (auto simp: validate_options_def and_then_Inr_iff map_err_Inr_iff split: if_splits)

abbreviation batch_env :: "Env \<Rightarrow> Schedule \<Rightarrow> nat \<Rightarrow> Env" where
  "batch_env x sch i \<equiv> x\<lparr>x_clock := sc_clock sch i, x_rand := sc_rand sch i\<rparr>"

abbreviation batch_start :: "World \<Rightarrow> World" where
  "batch_start w \<equiv> w\<lparr>w_events := [], w_measurements := [], w_attempts := 0, w_retries := 0\<rparr>"

lemma run_batches_worlds:
  assumes run: "run_batches x svc sch ctx batches w = Some (totals, w', sents)"
    and many: "length batches \<noteq> 1" and sch: "schedule_ok sch (length batches)"
    and fresh: "list_all (list_all (\<lambda>e. pe_attempts e = 0)) batches"
  obtains ws where "w' = join_worlds sch (ctx_in_flight ctx) w ws" and "length ws = length sents"
    and "length sents = length (sc_order sch)"
    and "\<forall>k < length ws. \<exists>outcome es. list_all (\<lambda>e. pe_attempts e = 0) es
        \<and> batch_run (batch_env x sch (sc_order sch ! k)) svc (batch_operation ctx (sc_order sch ! k) es)
            (batch_start w) = Some (outcome, ws ! k, sents ! k)"
proof -
  let ?run = "\<lambda>i. batch_run (batch_env x sch i) svc (batch_operation ctx i (batches ! i)) (batch_start w)"
  obtain outcomes where outs: "map ?run (sc_order sch) = map Some outcomes"
    and w': "w' = join_worlds sch (ctx_in_flight ctx) w (map (fst \<circ> snd) outcomes)"
    and sents: "sents = map (snd \<circ> snd) outcomes"
    using run many by (auto simp: run_batches_def Let_def those_Some split: option.splits)
  have len: "length (sc_order sch) = length outcomes" using arg_cong [OF outs, of length] by simp
  define ws where "ws = map (fst \<circ> snd) outcomes"
  have "\<exists>outcome es. list_all (\<lambda>e. pe_attempts e = 0) es
      \<and> batch_run (batch_env x sch (sc_order sch ! k)) svc (batch_operation ctx (sc_order sch ! k) es)
          (batch_start w) = Some (outcome, ws ! k, sents ! k)" if k: "k < length ws" for k
  proof (intro exI conjI)
    have k': "k < length outcomes" using k by (simp add: ws_def)
    then have "sc_order sch ! k < length batches"
      using schedule_order(1) [OF sch] len nth_mem [of k "sc_order sch"] by auto
    then show "list_all (\<lambda>e. pe_attempts e = 0) (batches ! (sc_order sch ! k))"
      using fresh by (simp add: list_all_length)
    show "?run (sc_order sch ! k) = Some (fst (outcomes ! k), ws ! k, sents ! k)"
      using arg_cong [OF outs, of "\<lambda>l. l ! k"] k' len by (simp add: ws_def sents)
  qed
  moreover have "length ws = length sents" "length sents = length (sc_order sch)"
    using len by (simp_all add: ws_def sents)
  ultimately show thesis using w' by (intro that [of ws]) (simp_all only: ws_def simp_thms, blast)
qed

lemma run_batches_logs:
  assumes run: "run_batches x svc sch ctx batches w = Some (totals, w', sents)"
    and many: "length batches \<noteq> 1" and sch: "schedule_ok sch (length batches)"
    and fresh: "list_all (list_all (\<lambda>e. pe_attempts e = 0)) batches" "0 < ctx_limit ctx"
    and w: "w_operation w = MutateRows" "w_observer w"
  obtains ws where "w' = join_worlds sch (ctx_in_flight ctx) w ws" and "length ws = length sents"
    and "length sents = length (sc_order sch)"
    and "\<forall>k < length ws. batch_log (sc_order sch ! k) (ws ! k) (sents ! k)"
proof -
  obtain ws where ws: "w' = join_worlds sch (ctx_in_flight ctx) w ws" "length ws = length sents"
    "length sents = length (sc_order sch)"
    and each: "\<forall>k < length ws. \<exists>outcome es. list_all (\<lambda>e. pe_attempts e = 0) es
        \<and> batch_run (batch_env x sch (sc_order sch ! k)) svc (batch_operation ctx (sc_order sch ! k) es)
            (batch_start w) = Some (outcome, ws ! k, sents ! k)"
    by (rule run_batches_worlds [OF run many sch fresh(1)])
  have "batch_log (sc_order sch ! k) (ws ! k) (sents ! k)" if "k < length ws" for k
  proof -
    obtain outcome es where es: "list_all (\<lambda>e. pe_attempts e = 0) es"
      "batch_run (batch_env x sch (sc_order sch ! k)) svc (batch_operation ctx (sc_order sch ! k) es)
         (batch_start w) = Some (outcome, ws ! k, sents ! k)"
      using each \<open>k < length ws\<close> by blast
    from leads_batch_run(1) [OF es(2) _ _ _ es(1) fresh(2)] w show ?thesis
      by (auto simp: appends_def batch_log_def)
  qed
  with ws show thesis by (intro that) blast+
qed

lemma batch_log_own: "batch_log b v sent \<Longrightarrow> own_log b (w_events v)"
  using follow_all_event_batch by (fastforce simp: batch_log_def)

lemma batch_logs_own:
  "\<lbrakk>\<forall>k < length ws. batch_log (order ! k) (ws ! k) (sents ! k); length ws = length order\<rbrakk>
   \<Longrightarrow> list_all2 own_log order (map w_events ws)"
  by (intro list_all2_all_nthI) (auto dest: batch_log_own)

lemma merged_log:
  assumes "log_ok sch" and "list_all2 own_log order logs" "distinct order" and "0 < n"
  shows "interleaves logs (sc_log sch n logs) \<and> buffered n logs (sc_log sch n logs)"
proof -
  have "one_batch es" if "own_log b es" for b es
    using that by (cases es) (simp_all add: one_batch_def list_all_iff)
  then have "list_all one_batch logs"
    using assms(2) unfolding list_all_length list_all2_conv_all_nth by metis
  then show ?thesis using assms(1,4) own_logs_apart [OF assms(2,3)] by (simp add: log_ok_def)
qed

lemma run_batches_traced:
  assumes run: "run_batches x svc sch ctx batches w = Some ((n, r, fs), w', sents)"
    and sch: "schedule_ok sch (length batches)" "log_ok sch"
    and fresh: "list_all (list_all (\<lambda>e. pe_attempts e = 0)) batches" "0 < ctx_limit ctx"
    and w: "w_operation w = MutateRows" "w_attempts w = 0" "w_retries w = 0" "w_observer w"
    and limit: "0 < ctx_in_flight ctx"
  shows "w_observer w' \<and> w_context w' = w_context w
    \<and> w_attempts w' = of_nat (sum_list (map length sents))
    \<and> (\<exists>body. w_events w' = w_events w @ body \<and> batches_traced (length batches) body
       \<and> w_attempts w' = of_nat (length (filter is_attempt_start body))
       \<and> w_retries w' = of_nat (length (filter is_retry body)))"
proof (cases "length batches = 1")
  case True
  then obtain es where batches: "batches = [es]" by (cases batches) auto
  obtain outcome sent where one:
    "batch_run x svc (batch_operation ctx 0 es) w = Some (outcome, w', sent)" and sents: "sents = [sent]"
    using run by (auto simp: run_batches_def batches split: option.splits)
  obtain body p where body: "appends w w' body" "settled (p, w_attempts w', w_retries w')"
    "follow_all MutateRows (Some 0) fresh body = Some (p, w_attempts w', w_retries w')"
    "w_attempts w' = of_nat (length sent)"
    using leads_batch_run(1) [OF one w(1,2,3)] fresh batches by auto
  have "filter (\<lambda>e. event_batch e = Some 0) body = body"
    using follow_all_event_batch [OF body(3)] by (simp add: filter_id_conv)
  then have "batches_traced (length batches) body" using body(2,3) by (auto simp: batches_traced_def batches)
  then show ?thesis
    using body(1,4) w(4) sents follow_all_counts [OF body(3)] by (auto simp: appends_def)
next
  case False
  obtain ws where w': "w' = join_worlds sch (ctx_in_flight ctx) w ws"
    and len: "length ws = length sents" "length sents = length (sc_order sch)"
    and each: "\<forall>k < length ws. batch_log (sc_order sch ! k) (ws ! k) (sents ! k)"
    using run_batches_logs [OF run False sch(1) fresh w(1,4)] by metis
  define logs where "logs = map w_events ws"
  note order = schedule_order [OF sch(1)]
  have own: "list_all2 own_log (sc_order sch) logs"
    unfolding logs_def using batch_logs_own [OF each] len by simp
  define body where "body = sc_log sch (ctx_in_flight ctx) logs"
  have inter: "interleaves logs body"
    using merged_log [OF sch(2) own order(2) limit] by (simp add: body_def)
  have traced: "batches_traced (length batches) body"
    unfolding batches_traced_def
  proof (intro allI impI)
    fix b assume "b < length batches"
    then have "b \<in> set (sc_order sch)" using order(1) by simp
    then obtain k where k: "k < length ws" "b = sc_order sch ! k"
      using len by (auto simp: in_set_conv_nth)
    have "filter (\<lambda>e. event_batch e = Some b) body = logs ! k"
      using list_all2_nthD [OF own_logs_filter [OF own order(2)], of k] inter k len
      by (simp add: interleaves_def)
    then have log: "filter (\<lambda>e. event_batch e = Some b) body = w_events (ws ! k)" using k by (simp add: logs_def)
    show "\<exists>p n r. follow_all MutateRows (Some b) fresh
        (filter (\<lambda>e. event_batch e = Some b) body) = Some (p, n, r) \<and> settled (p, n, r)"
      using spec [OF each, of k] k unfolding log batch_log_def by auto
  qed
  have counts: "w_attempts (ws ! k) = of_nat (length (filter is_attempt_start (w_events (ws ! k))))
      \<and> w_retries (ws ! k) = of_nat (length (filter is_retry (w_events (ws ! k))))
      \<and> w_attempts (ws ! k) = of_nat (length (sents ! k))" if "k < length ws" for k
    using each that follow_all_counts by (fastforce simp: batch_log_def)
  have attempts: "map w_attempts ws = map (\<lambda>es. of_nat (length (filter is_attempt_start es))) logs"
    and retries: "map w_retries ws = map (\<lambda>es. of_nat (length (filter is_retry es))) logs"
    and sent: "map w_attempts ws = map (\<lambda>sent. of_nat (length sent)) sents"
    by (rule nth_equalityI; simp add: logs_def len conjunct1 [OF counts] conjunct1 [OF conjunct2 [OF counts]]
        conjunct2 [OF conjunct2 [OF counts], symmetric])+
  have filters: "length (filter P body) = length (concat (map (filter P) logs))" for P
    using arg_cong [OF interleaves_mset [OF inter], of "\<lambda>m. size (filter_mset P m)"]
    by (metis filter_concat mset_filter size_mset)
  have "sum_list (map (\<lambda>sent. of_nat (length sent)) sents) = (of_nat (sum_list (map length sents)) :: u32)"
    by (induction sents) simp_all
  moreover have "w_attempts w' = sum_list (map w_attempts ws)" "w_retries w' = sum_list (map w_retries ws)"
    using w' w by (simp_all add: join_worlds_def)
  ultimately have "w_attempts w' = of_nat (sum_list (map length sents))"
    "w_attempts w' = of_nat (length (filter is_attempt_start body))"
    "w_retries w' = of_nat (length (filter is_retry body))"
    by (metis sent, metis attempts filters sum_list_of_nat_lengths, metis retries filters sum_list_of_nat_lengths)
  with traced show ?thesis
    using w' w(4) by (auto simp: join_worlds_def body_def logs_def)
qed

text \<open>The requests of all batches keep the deadlines, on clocks that do not run backwards.\<close>

definition clocks_ok :: "Env \<Rightarrow> Schedule \<Rightarrow> instant \<Rightarrow> bool" where
  "clocks_ok x sch start \<longleftrightarrow> mono (x_clock x) \<and> (\<forall>i. mono (sc_clock sch i) \<and> (\<forall>k. start \<le> sc_clock sch i k))"

definition keeps_deadlines :: "duration \<Rightarrow> duration \<Rightarrow> PendingEntry list \<times> MutateRowsRequest \<Rightarrow> bool" where
  "keeps_deadlines att_timeout op_timeout = (\<lambda>(_, request). case mr_timeout request of None \<Rightarrow> True
     | Some d \<Rightarrow> d \<le> att_timeout \<and> d \<le> op_timeout)"

lemma timely_keeps:
  assumes "batch_timely x w0 att_timeout (start + op_timeout) r"
    and "\<And>k. w_ticks w0 \<le> k \<Longrightarrow> start \<le> x_clock x k"
  shows "keeps_deadlines att_timeout op_timeout r"
proof -
  have "d \<le> op_timeout" if "w_ticks w0 \<le> k" "x_clock x k + d \<le> start + op_timeout" for k d
    using assms(2) [OF that(1)] that(2) by linarith
  then show ?thesis
    using assms(1) by (auto simp: batch_timely_def keeps_deadlines_def split: option.splits prod.splits)
qed

lemma run_batches_keep_deadlines:
  assumes run: "run_batches x svc sch ctx batches w = Some (totals, w', sents)"
    and sch: "schedule_ok sch (length batches)"
    and fresh: "list_all (list_all (\<lambda>e. pe_attempts e = 0)) batches" "0 < ctx_limit ctx"
    and w: "w_operation w = MutateRows" "w_attempts w = 0" "w_retries w = 0"
    and clocks: "clocks_ok x sch start" "start \<le> x_clock x (w_ticks w)"
    and deadline: "ctx_deadline ctx = start + op_timeout" "ctx_deadline ctx \<le> x_instant_max x"
  shows "list_all (list_all (keeps_deadlines (attempt_timeout (wo_deadlines (ctx_options ctx))) op_timeout)) sents"
proof (cases "length batches = 1")
  case True
  then obtain es where batches: "batches = [es]" by (cases batches) auto
  obtain outcome sent where one:
    "batch_run x svc (batch_operation ctx 0 es) w = Some (outcome, w', sent)" and sents: "sents = [sent]"
    using run by (auto simp: run_batches_def batches split: option.splits)
  have after: "start \<le> x_clock x k" if "w_ticks w \<le> k" for k
    using clocks that monoD [of "x_clock x" "w_ticks w" k] by (auto simp: clocks_ok_def)
  have "list_all (batch_timely x w (attempt_timeout (wo_deadlines (ctx_options ctx))) (ctx_deadline ctx)) sent"
    using leads_batch_run(2) [OF one w] fresh batches clocks(1) deadline(2) by (simp add: clocks_ok_def)
  then show ?thesis
    using timely_keeps [OF _ after] by (auto simp: sents deadline(1) list_all_iff)
next
  case False
  obtain ws where len: "length ws = length sents"
    and each: "\<forall>k < length ws. \<exists>outcome es. list_all (\<lambda>e. pe_attempts e = 0) es
        \<and> batch_run (batch_env x sch (sc_order sch ! k)) svc (batch_operation ctx (sc_order sch ! k) es)
            (batch_start w) = Some (outcome, ws ! k, sents ! k)"
    by (rule run_batches_worlds [OF run False sch fresh(1)])
  have "list_all (keeps_deadlines (attempt_timeout (wo_deadlines (ctx_options ctx))) op_timeout) (sents ! k)"
    if k: "k < length sents" for k
  proof -
    let ?i = "sc_order sch ! k"
    obtain outcome es where es: "list_all (\<lambda>e. pe_attempts e = 0) es"
      "batch_run (batch_env x sch ?i) svc (batch_operation ctx ?i es) (batch_start w) = Some (outcome, ws ! k, sents ! k)"
      using each k len by auto
    have "list_all (batch_timely (batch_env x sch ?i) (batch_start w)
        (attempt_timeout (wo_deadlines (ctx_options ctx))) (start + op_timeout)) (sents ! k)"
      using leads_batch_run(2) [OF es(2) _ _ _ es(1) fresh(2)] w clocks(1) deadline by (simp add: clocks_ok_def)
    then show ?thesis
      using timely_keeps [of "batch_env x sch ?i" "batch_start w" _ start op_timeout] clocks(1)
      by (auto simp: list_all_iff clocks_ok_def)
  qed
  then show ?thesis by (simp add: list_all_length)
qed

section \<open>The operation\<close>

text \<open>A bulk mutation reports nothing, or runs its batches between its start and its finish.\<close>

lemma execute_world_cases:
  assumes "execute x len svc sch config mutation options w = Some (res, w', sents)"
  obtains (early) "w_events w' = w_events w" "sents = []"
  | (ran) ctx op t' wz wa wb n r fs code where
      "validate_options options = Ok ()" "ctx_options ctx = options"
      "telemetry_operation (x_clock x) config MutateRows (bm_table_id mutation)
         (length (bm_entries mutation)) wz = (op, wa)"
      "w_events wz = w_events w" "w_observer wz = w_observer w"
      "run_batches x svc sch ctx (operation_batches len config mutation options) wa
         = Some ((n, r, fs), wb, sents)"
      "operation_finish (x_clock x) code
         \<lparr>sum_rows = 0, sum_successful_entries = n, sum_failed_entries = length fs\<rparr> (op, wb) = (t', w')"
      "res = finished_result len config mutation options n r fs"
      "code = (if fs = [] then OkCode else mutation_failures_code (sort_key mf_index fs))"
      "ctx_deadline ctx = x_clock x (w_ticks w) + operation_timeout (wo_deadlines options)"
      "ctx_deadline ctx \<le> x_instant_max x" "w_ticks w \<le> w_ticks wa"
proof (cases "validate_options options")
  case (Inl error)
  with assms show thesis by (intro early) (auto simp: execute_def)
next
  case valid: (Inr u)
  show thesis
  proof (cases "bm_entries mutation = []")
    case True
    with assms valid show thesis by (intro early) (auto simp: execute_def)
  next
    case False
    obtain t w1 where now: "now_instant (x_clock x) w = (t, w1)" by fastforce
    have w1: "w_events w1 = w_events w" "w_observer w1 = w_observer w" using now by (auto simp: now_instant_def)
    show thesis
    proof (cases "checked_add x t (operation_timeout (wo_deadlines options))")
      case None
      with assms valid False now w1 show thesis by (intro early) (auto simp: execute_def)
    next
      case deadline: (Some d)
      show thesis
      proof (cases "routing_header x (table_name config (bm_table_id mutation))")
        case (Inl error)
        with assms valid False now w1 deadline show thesis
          by (intro early) (auto simp: execute_def into_parts_def)
      next
        case routing: (Inr routing)
        obtain op w2 where op: "telemetry_operation (x_clock x) config MutateRows (bm_table_id mutation)
            (length (bm_entries mutation)) w1 = (op, w2)" by fastforce
        let ?ctx = "\<lparr>ctx_app_profile_id = app_profile_id config,
            ctx_table_name = table_name config (bm_table_id mutation), ctx_routing = routing,
            ctx_options = options, ctx_deadline = d\<rparr>"
        note facts = valid False now deadline routing op
        obtain n r fs wb where batches: "run_batches x svc sch ?ctx (operation_batches len config mutation options) w2
            = Some ((n, r, fs), wb, sents)"
          using assms facts
          by (auto simp: execute_def into_parts_def Let_def split: option.splits prod.splits if_splits)
        have timing: "d = x_clock x (w_ticks w) + operation_timeout (wo_deadlines options)"
          "d \<le> x_instant_max x" "w_ticks w \<le> w_ticks w2"
          using now deadline op
          by (auto simp: now_instant_def checked_add_def telemetry_operation_def Let_def split: if_splits)
        have sort: "sort_key mf_index fs = [] \<longleftrightarrow> fs = []" by (metis length_0_conv length_sort)
        let ?code = "if fs = [] then OkCode else mutation_failures_code (sort_key mf_index fs)"
        let ?summary = "\<lparr>sum_rows = 0, sum_successful_entries = n, sum_failed_entries = length fs\<rparr>"
        obtain t' w'' where fin: "operation_finish (x_clock x) ?code ?summary (op, wb) = (t', w'')" by fastforce
        have "res = finished_result len config mutation options n r fs \<and> w' = w''"
          using assms facts batches fin sort
          by (auto simp: execute_def into_parts_def finished_result_def summary_default_def Let_def
              split: if_splits)
        then show thesis using ran [of ?ctx w1 op w2 n r fs wb ?code t'] valid op w1 batches fin timing by simp
      qed
    qed
  qed
qed

section \<open>Properties\<close>


text \<open>Two batches that are refused at first; the log is the one of the first, then the other.\<close>

lemma under_way_other:
  assumes "\<forall>e \<in> set pre. \<forall>e' \<in> set es. event_batch e \<noteq> event_batch e'" and "es \<noteq> []"
  shows "filter (\<lambda>e. event_batch e = event_batch (hd es)) pre = []"
  using assms by (auto simp: filter_empty_conv)

lemma concat_buffered:
  assumes "sorted_wrt (\<lambda>xs ys. \<forall>e \<in> set xs. \<forall>e' \<in> set ys. event_batch e \<noteq> event_batch e') logs"
    and "list_all one_batch logs"
  shows "length (filter (under_way (take k (concat logs))) logs) \<le> 1"
  using assms
proof (induction logs arbitrary: k)
  case (Cons es logs)
  have other: "filter (\<lambda>e. event_batch e = event_batch (hd ys)) (take k es) = []"
    if "ys \<in> set logs" "ys \<noteq> []" for ys k
    by (rule under_way_other) (use Cons.prems(1) that set_take_subset [of k es] in \<open>auto simp: Ball_def\<close>)
  show ?case
  proof (cases "k \<le> length es")
    case True
    have "\<not> under_way (take k es) ys" if "ys \<in> set logs" for ys
      using other [OF that, of k] by (cases "ys = []") (simp_all add: under_way_def Let_def)
    then have "filter (under_way (take k es)) logs = []" by (simp add: filter_empty_conv)
    then show ?thesis using True by simp
  next
    case False
    define m where "m = k - length es"
    have take: "take k (concat (es # logs)) = es @ take m (concat logs)" using False by (simp add: m_def)
    have "under_way (es @ take m (concat logs)) ys = under_way (take m (concat logs)) ys"
      if "ys \<in> set logs" for ys
      using other [OF that, of "length es"] by (cases "ys = []") (simp_all add: under_way_def Let_def)
    then have "filter (under_way (es @ take m (concat logs))) logs = filter (under_way (take m (concat logs))) logs"
      by (rule filter_cong [OF refl])
    moreover have "filter (\<lambda>e. event_batch e = event_batch (hd es)) es = es"
      using Cons.prems(2) by (simp add: one_batch_def filter_id_conv list_all_iff)
    then have "\<not> under_way (es @ take m (concat logs)) es"
      by (cases "es = []") (simp_all add: under_way_def Let_def)
    ultimately show ?thesis using Cons.IH [of m] Cons.prems unfolding take by simp
  qed
qed simp

lemma sample_log_ok: "log_ok (sample_schedule order)"
  using le_trans [OF concat_buffered]
  by (simp add: log_ok_def sample_schedule_def interleaves_def filter_concat buffered_def Suc_le_eq)


text \<open>
  C27. Every request of a bulk mutation that carries a timeout keeps the deadlines: the timeout is
  at most that of an attempt, and at most that of the whole operation, whichever batch sends it and
  however often it has been retried. The clocks of the batches must not run backwards.
\<close>

theorem write_requests_keep_deadlines:
  assumes "execute x len svc sch config mutation options w = Some (res, w', sents)"
    and "schedule_ok sch (length (operation_batches len config mutation options))"
    and "clocks_ok x sch (x_clock x (w_ticks w))"
  shows "list_all (list_all (keeps_deadlines (attempt_timeout (wo_deadlines options))
    (operation_timeout (wo_deadlines options)))) sents"
  using assms(1)
proof (cases rule: execute_world_cases)
  case early
  then show ?thesis by simp
next
  case (ran ctx op t' wz wa wb n r fs code)
  have "0 < ctx_limit ctx" using validate_options_limit [OF ran(1)] ran(2) by simp
  moreover have "x_clock x (w_ticks w) \<le> x_clock x (w_ticks wa)"
    using assms(3) ran(12) by (auto simp: clocks_ok_def intro: monoD)
  ultimately show ?thesis
    using run_batches_keep_deadlines [OF ran(6) assms(2) operation_batches_fresh _ _ _ _ assms(3) _ ran(10,11)]
      telemetry_operation_starts [OF ran(3)] ran(2) by simp
qed

theorem write_requests_keep_deadlines_witness:
  "\<exists>res w sents. sample_execute [1, 0] sample_world = Some (res, w, sents)
     \<and> list_all (list_all (keeps_deadlines (secs 60) (secs 600))) sents"
proof -
  obtain res w sents where run: "sample_execute [1, 0] sample_world = Some (res, w, sents)"
    by (rule sample_returns)
  have "schedule_ok (sample_schedule [1, 0])
      (length (operation_batches sample_lengths sample_config sample_pair one_entry_options))"
    using sample_schedules(2) by (simp add: sample_batches numeral_2_eq_2)
  moreover have "clocks_ok sample_env (sample_schedule [1, 0]) (x_clock sample_env (w_ticks sample_world))"
    by (simp add: clocks_ok_def sample_env_def sample_schedule_def mono_def)
  ultimately show ?thesis
    using write_requests_keep_deadlines [OF run] run
    by (auto simp: one_entry_options_def bulk_mutation_options_default_def)
qed

end
