(* ===== verification/Concurrency.thy ===== *)
theory Concurrency
  imports WriteTrace
begin

text \<open>
  How many attempts of a bulk mutation are in flight: at every moment at most as many as the
  batch policy allows, whatever the batches do. A batch has one attempt in flight at most, between
  its first event and its last, and no more batches than allowed are under way.
\<close>

section \<open>One batch\<close>

definition flying :: "trace_state \<Rightarrow> nat" where
  "flying s = (if settled s then 0 else 1)"

lemma follow_flying:
  "follow op b s e = Some s' \<Longrightarrow> flying s + (if is_attempt_start e then 1 else 0)
     = flying s' + (if is_attempt_finish e then 1 else 0)"
  by (cases "(op, b, s, e)" rule: follow.cases) (auto simp: flying_def split: if_splits)

lemma follow_all_flying:
  "follow_all op b s es = Some s' \<Longrightarrow> flying s + length (filter is_attempt_start es)
     = flying s' + length (filter is_attempt_finish es)"
proof (induction es arbitrary: s)
  case (Cons e es)
  then obtain s1 where s1: "follow op b s e = Some s1" "follow_all op b s1 es = Some s'"
    by (auto split: option.splits)
  show ?case using follow_flying [OF s1(1)] Cons.IH [OF s1(2)] by (auto split: if_splits)
qed simp

text \<open>An attempt is in flight only between the first and the last event.\<close>

lemma follow_all_prefix:
  "follow_all op b s (xs @ ys) = Some s' \<Longrightarrow> \<exists>s1. follow_all op b s xs = Some s1 \<and> follow_all op b s1 ys = Some s'"
  by (induction xs arbitrary: s) (auto split: option.splits)

lemma prefix_flying:
  assumes "follow_all op b fresh (pre @ later) = Some s" and "settled s"
  shows "length (filter is_attempt_start pre)
    \<le> length (filter is_attempt_finish pre) + (if pre \<noteq> [] \<and> later \<noteq> [] then 1 else 0)"
proof -
  obtain s1 where pre: "follow_all op b fresh pre = Some s1" "follow_all op b s1 later = Some s"
    using follow_all_prefix [OF assms(1)] by blast
  have "length (filter is_attempt_start pre) = flying s1 + length (filter is_attempt_finish pre)"
    using follow_all_flying [OF pre(1)] by (simp add: flying_def)
  moreover have "later = [] \<Longrightarrow> flying s1 = 0" using assms(2) pre(2) by (simp add: flying_def)
  moreover have "flying s1 \<le> 1" by (simp add: flying_def)
  ultimately show ?thesis by (cases "pre = []"; cases "later = []") auto
qed

section \<open>All batches\<close>

abbreviation of_batch :: "nat \<Rightarrow> DiagnosticEvent list \<Rightarrow> DiagnosticEvent list" where
  "of_batch b es \<equiv> filter (\<lambda>e. event_batch e = Some b) es"

lemma length_filter_by_batch:
  assumes "distinct order" and "\<forall>e \<in> set es. event_batch e \<in> Some ` set order"
  shows "length (filter P es) = sum_list (map (\<lambda>b. length (filter P (of_batch b es))) order)"
  using assms(2)
proof (induction es)
  case (Cons e es)
  obtain b where b: "b \<in> set order" "event_batch e = Some b" using Cons.prems by auto
  have one: "sum_list (map (\<lambda>c. if c = b \<and> P e then 1 else 0) order) = (if P e then 1 else 0 :: nat)"
    using assms(1) b(1) by (cases "P e") (simp_all add: sum_list_distinct_conv_sum_set)
  have "length (filter P (of_batch c (e # es)))
      = (if c = b \<and> P e then 1 else 0) + length (filter P (of_batch c es))" for c
    using b(2) by simp
  then show ?case using Cons by (simp add: sum_list_addf one)
qed simp

text \<open>A prefix of the merged log, split by batches, is a prefix of each log.\<close>

lemma prefix_of_log:
  assumes "interleaves logs body" and "list_all2 own_log order logs" "distinct order" and "j < length logs"
  obtains later where "logs ! j = of_batch (order ! j) (take k body) @ later"
proof -
  have "of_batch (order ! j) body = logs ! j"
    using list_all2_nthD2 [OF own_logs_filter [OF assms(2,3)] assms(4)] assms(1) by (simp add: interleaves_def)
  moreover have "of_batch (order ! j) body = of_batch (order ! j) (take k body) @ of_batch (order ! j) (drop k body)"
    by (metis append_take_drop_id filter_append)
  ultimately show thesis using that by metis
qed

lemma merged_events_batch:
  assumes "interleaves logs body" and "list_all2 own_log order logs" and "e \<in> set body"
  shows "event_batch e \<in> Some ` set order"
proof -
  have "e \<in> set (concat logs)" using interleaves_mset [OF assms(1)] assms(3) by (metis mset_eq_setD)
  then obtain es where "es \<in> set logs" "e \<in> set es" by auto
  then obtain j where "j < length logs" "e \<in> set (logs ! j)" by (metis in_set_conv_nth)
  then show ?thesis using list_all2_nthD2 [OF assms(2)] list_all2_lengthD [OF assms(2)] by auto
qed

definition in_flight_at_most :: "nat \<Rightarrow> DiagnosticEvent list \<Rightarrow> bool" where
  "in_flight_at_most limit es \<longleftrightarrow> (\<forall>k. length (filter is_attempt_start (take k es))
     \<le> length (filter is_attempt_finish (take k es)) + limit)"

lemma under_way_log:
  assumes "own_log b (xs @ later)"
  shows "under_way pre (xs @ later) \<longleftrightarrow> xs @ later \<noteq> [] \<and> 0 < length (of_batch b pre)
    \<and> length (of_batch b pre) < length (xs @ later)"
  using assms by (cases "xs @ later") (simp_all add: under_way_def Let_def)

lemma sum_list_split_le:
  "list_all2 (\<lambda>b es. f b \<le> g b + h es) order logs
   \<Longrightarrow> sum_list (map f order) \<le> sum_list (map g order) + (sum_list (map h logs) :: nat)"
  by (induction rule: list_all2_induct) auto

lemma merged_in_flight:
  assumes inter: "interleaves logs body" and own: "list_all2 own_log order logs" and dist: "distinct order"
    and logs: "\<forall>j < length logs. \<exists>s. follow_all MutateRows (Some (order ! j)) fresh (logs ! j) = Some s \<and> settled s"
  shows "length (filter is_attempt_start (take k body))
    \<le> length (filter is_attempt_finish (take k body)) + length (filter (under_way (take k body)) logs)"
proof -
  let ?pre = "take k body"
  have len: "length order = length logs" by (rule list_all2_lengthD [OF own])
  have events: "\<forall>e \<in> set ?pre. event_batch e \<in> Some ` set order"
    using merged_events_batch [OF inter own] set_take_subset by fastforce
  have each: "length (filter is_attempt_start (of_batch (order ! j) ?pre))
      \<le> length (filter is_attempt_finish (of_batch (order ! j) ?pre)) + (if under_way ?pre (logs ! j) then 1 else 0)"
    if j: "j < length logs" for j
  proof -
    define xs where "xs = of_batch (order ! j) ?pre"
    obtain later where later: "logs ! j = xs @ later"
      unfolding xs_def by (rule prefix_of_log [OF inter own dist j])
    obtain s where s: "follow_all MutateRows (Some (order ! j)) fresh (xs @ later) = Some s" "settled s"
      using logs j later by metis
    have "own_log (order ! j) (xs @ later)" using list_all2_nthD2 [OF own j] later by simp
    from under_way_log [OF this, of ?pre] have "under_way ?pre (xs @ later) \<longleftrightarrow> xs \<noteq> [] \<and> later \<noteq> []"
      unfolding xs_def [symmetric] by auto
    with prefix_flying [OF s] show ?thesis unfolding later xs_def [symmetric] by simp
  qed
  then have "list_all2 (\<lambda>b es. length (filter is_attempt_start (of_batch b ?pre))
      \<le> length (filter is_attempt_finish (of_batch b ?pre)) + (if under_way ?pre es then 1 else 0)) order logs"
    using len by (simp add: list_all2_conv_all_nth)
  from sum_list_split_le [OF this]
  have "sum_list (map (\<lambda>b. length (filter is_attempt_start (of_batch b ?pre))) order)
      \<le> sum_list (map (\<lambda>b. length (filter is_attempt_finish (of_batch b ?pre))) order)
        + sum_list (map (\<lambda>es. if under_way ?pre es then 1 else 0) logs)" .
  moreover have "sum_list (map (\<lambda>es. if under_way ?pre es then 1 else 0) logs) = length (filter (under_way ?pre) logs)"
    by (induction logs) simp_all
  ultimately show ?thesis
    using length_filter_by_batch [OF dist events, of is_attempt_start]
      length_filter_by_batch [OF dist events, of is_attempt_finish] by linarith
qed

text \<open>All batches of an operation, if one or if many.\<close>

lemma run_batches_in_flight:
  assumes run: "run_batches x svc sch ctx batches w = Some ((n, r, fs), w', sents)"
    and sch: "schedule_ok sch (length batches)" "log_ok sch"
    and fresh: "list_all (list_all (\<lambda>e. pe_attempts e = 0)) batches" "0 < ctx_limit ctx"
    and w: "w_operation w = MutateRows" "w_attempts w = 0" "w_retries w = 0" "w_observer w"
    and limit: "0 < ctx_in_flight ctx"
  shows "\<exists>body. w_events w' = w_events w @ body \<and> in_flight_at_most (ctx_in_flight ctx) body"
proof (cases "length batches = 1")
  case True
  then obtain es where batches: "batches = [es]" by (cases batches) auto
  obtain outcome sent where one: "batch_run x svc (batch_operation ctx 0 es) w = Some (outcome, w', sent)"
    using run by (auto simp: run_batches_def batches split: option.splits)
  obtain body p where body: "appends w w' body" "settled (p, w_attempts w', w_retries w')"
    "follow_all MutateRows (Some 0) fresh body = Some (p, w_attempts w', w_retries w')"
    using leads_batch_run(1) [OF one w(1,2,3)] fresh batches by auto
  have "length (filter is_attempt_start (take k body))
      \<le> length (filter is_attempt_finish (take k body)) + ctx_in_flight ctx" for k
  proof -
    have "follow_all MutateRows (Some 0) fresh (take k body @ drop k body) = Some (p, w_attempts w', w_retries w')"
      using body(3) by simp
    from prefix_flying [OF this body(2)]
    have "length (filter is_attempt_start (take k body)) \<le> length (filter is_attempt_finish (take k body)) + 1"
      by (simp split: if_splits)
    then show ?thesis using limit by linarith
  qed
  then have "in_flight_at_most (ctx_in_flight ctx) body" unfolding in_flight_at_most_def by blast
  then show ?thesis using body(1) w(4) by (auto simp: appends_def)
next
  case False
  obtain ws where w': "w' = join_worlds sch (ctx_in_flight ctx) w ws"
    and len: "length ws = length sents" "length sents = length (sc_order sch)"
    and each: "\<forall>k < length ws. batch_log (sc_order sch ! k) (ws ! k) (sents ! k)"
    using run_batches_logs [OF run False sch(1) fresh w(1,4)] by metis
  define logs where "logs = map w_events ws"
  define body where "body = sc_log sch (ctx_in_flight ctx) logs"
  note dist = schedule_order(2) [OF sch(1)]
  have own: "list_all2 own_log (sc_order sch) logs"
    unfolding logs_def using batch_logs_own [OF each] len by simp
  have inter: "interleaves logs body" and buffered: "buffered (ctx_in_flight ctx) logs body"
    using merged_log [OF sch(2) own dist limit] by (simp_all add: body_def)
  have "\<forall>j < length logs. \<exists>s. follow_all MutateRows (Some (sc_order sch ! j)) fresh (logs ! j) = Some s \<and> settled s"
    using each by (auto simp: logs_def batch_log_def)
  note flight = merged_in_flight [OF inter own dist this]
  have "in_flight_at_most (ctx_in_flight ctx) body"
    unfolding in_flight_at_most_def
    by (intro allI order_trans [OF flight add_left_mono]) (use buffered in \<open>simp add: buffered_def\<close>)
  then show ?thesis using w' w(4) by (auto simp: join_worlds_def body_def logs_def)
qed

section \<open>Properties\<close>

text \<open>
  C24. A bulk mutation keeps the limit of its batch policy: at every moment, among the events it has
  reported so far, at most \<open>max_in_flight_requests\<close> attempts have started and not finished, however
  many batches there are, and whatever their retries and their order.
\<close>

theorem in_flight_requests_are_limited:
  assumes "execute x len svc sch config mutation options w = Some (res, w', sents)" and "w_observer w"
    and "schedule_ok sch (length (operation_batches len config mutation options))" and "log_ok sch"
  shows "\<exists>new. w_events w' = w_events w @ new
    \<and> (\<forall>k. length (filter is_attempt_start (take k new))
        \<le> length (filter is_attempt_finish (take k new)) + max_in_flight_requests (wo_batch options))"
  using assms(1)
proof (cases rule: execute_world_cases)
  case (ran ctx op t' wz wa wb n r fs code)
  note start = telemetry_operation_starts [OF ran(3)]
  have limit: "0 < ctx_limit ctx" "0 < ctx_in_flight ctx"
    using validate_options_limit [OF ran(1)] validate_options_in_flight [OF ran(1)] ran(2) by simp_all
  obtain body where body: "w_events wb = w_events wa @ body" "in_flight_at_most (ctx_in_flight ctx) body"
    using run_batches_in_flight [OF ran(6) assms(3,4) operation_batches_fresh limit(1) _ _ _ _ limit(2)]
      start ran(5) assms(2) by auto
  have observed: "w_observer wb"
    using run_batches_traced [OF ran(6) assms(3,4) operation_batches_fresh limit(1) _ _ _ _ limit(2)]
      start ran(5) assms(2) by auto
  obtain el where "appends wb w' [OperationFinished (w_operation wb) code el (w_attempts wb) (w_retries wb) 0 n (length fs)]"
    using operation_finish_event [OF ran(7)] start by auto
  then have "w_events w' = w_events w
      @ OperationStarted MutateRows (bm_table_id mutation) (length (bm_entries mutation)) # body
      @ [OperationFinished (w_operation wb) code el (w_attempts wb) (w_retries wb) 0 n (length fs)]"
    using start body(1) observed ran(4,5) assms(2) by (simp add: appends_def)
  moreover have "in_flight_at_most (ctx_in_flight ctx) (a # body @ [z])"
    if "\<not> is_attempt_start a" "\<not> is_attempt_finish a" "\<not> is_attempt_start z" "\<not> is_attempt_finish z" for a z
    using body(2) that by (auto simp: in_flight_at_most_def take_Cons' take_append filter_empty_conv dest: in_set_takeD)
  ultimately show ?thesis using ran(2) unfolding in_flight_at_most_def by (metis is_attempt_start.simps(2,6) is_attempt_finish.simps(2,6))
qed auto

theorem in_flight_requests_are_limited_witness:
  "\<exists>res w sents new. sample_execute [1, 0] sample_world = Some (res, w, sents) \<and> w_events w = new
     \<and> (\<forall>k. length (filter is_attempt_start (take k new)) \<le> length (filter is_attempt_finish (take k new)) + 5)"
proof -
  obtain res w sents where run: "sample_execute [1, 0] sample_world = Some (res, w, sents)"
    by (rule sample_returns)
  have "schedule_ok (sample_schedule [1, 0])
      (length (operation_batches sample_lengths sample_config sample_pair one_entry_options))"
    using sample_schedules(2) by (simp add: sample_batches numeral_2_eq_2)
  from in_flight_requests_are_limited [OF run _ this sample_log_ok] run show ?thesis
    by (simp add: sample_world_def one_entry_options_def bulk_mutation_options_default_def batch_policy_default_def)
qed

end
