(* ===== verification/WriteDelays.thy ===== *)
theory WriteDelays
  imports Concurrency WriteAnswers
begin

text \<open>
  When a bulk mutation sends a row again: only after an answer that gave it a retryable status, and
  after a reported pause that is at least as long as the service asked for with that status
  (\<open>RetryInfo\<close>), whichever other rows the request had.
\<close>

section \<open>What an attempt leaves for the next\<close>

text \<open>The status an answer gives to a place of its request, its own or that of the stream.\<close>

definition place_status ::
    "(nat \<Rightarrow> (status, unit) result option) \<Rightarrow> status option \<Rightarrow> nat \<Rightarrow> status option" where
  "place_status lookup failure i = (case lookup i of
      Some (Inr _) \<Rightarrow> None
    | Some (Inl status) \<Rightarrow> Some status
    | None \<Rightarrow> failure)"

definition answered_status :: "Env \<Rightarrow> nat \<Rightarrow> MutateReply \<Rightarrow> nat \<Rightarrow> status option" where
  "answered_status x n reply i = (case reply of
      Connected items \<Rightarrow>
        if valid_results n (fst (stream_results items))
        then place_status (result_of x (fst (stream_results items))) (snd (stream_results items)) i
        else None
    | Refused status \<Rightarrow> Some status
    | CallTimeout \<Rightarrow> Some attempt_timeout_status)"

definition asked_delay :: "Env \<Rightarrow> status \<Rightarrow> duration" where
  "asked_delay x status = (case env_retry_delay x status of None \<Rightarrow> 0 | Some d \<Rightarrow> d)"

definition retried_after ::
    "Env \<Rightarrow> (nat \<Rightarrow> status option) \<Rightarrow> PendingEntry list \<Rightarrow> duration \<Rightarrow> PendingEntry \<Rightarrow> bool" where
  "retried_after x status_at current delay e \<longleftrightarrow> (\<exists>i < length current. current ! i = e
     \<and> (\<exists>status. status_at i = Some status \<and> is_mutate_retryable status \<and> asked_delay x status \<le> delay))"

lemma classify_retry:
  assumes "e \<in> set (ao_retry (classify_status x limit e' status origin out))"
  shows "e \<in> set (ao_retry out) \<or> (e = e' \<and> is_mutate_retryable status
    \<and> asked_delay x status \<le> ao_retry_delay (classify_status x limit e' status origin out))"
  using assms by (auto simp: classify_status_def Let_def asked_delay_def split: if_splits)

lemma classify_delay: "ao_retry_delay out \<le> ao_retry_delay (classify_status x limit e status origin out)"
  by (simp add: classify_status_def Let_def)

lemma file_entry_retry:
  assumes "e \<in> set (ao_retry (file_entry x limit lookup sf out (i, e')))"
  shows "e \<in> set (ao_retry out) \<or> (e = e' \<and> (\<exists>status. place_status lookup sf i = Some status
    \<and> is_mutate_retryable status
    \<and> asked_delay x status \<le> ao_retry_delay (file_entry x limit lookup sf out (i, e'))))"
  using assms
  by (cases "lookup i"; cases sf; cases "the (lookup i)")
    (auto simp: file_entry_apply place_status_def dest!: classify_retry)

lemma file_entry_delay: "ao_retry_delay out \<le> ao_retry_delay (file_entry x limit lookup sf out (i, e))"
  by (cases "lookup i"; cases sf; cases "the (lookup i)") (simp_all add: file_entry_apply classify_delay)

lemma foldl_file_delay:
  "ao_retry_delay out \<le> ao_retry_delay (foldl (file_entry x limit lookup sf) out ps)"
  by (induction ps arbitrary: out) (auto intro: order_trans [OF file_entry_delay])

lemma foldl_file_retry:
  assumes "\<And>k. k < length es \<Longrightarrow> n + k < length current \<and> current ! (n + k) = es ! k"
    and "e \<in> set (ao_retry (foldl (file_entry x limit lookup sf) out (enumerate n es)))"
  shows "e \<in> set (ao_retry out) \<or> retried_after x (place_status lookup sf) current
    (ao_retry_delay (foldl (file_entry x limit lookup sf) out (enumerate n es))) e"
  using assms
proof (induction es arbitrary: n out)
  case (Cons e' es)
  let ?out = "file_entry x limit lookup sf out (n, e')"
  have here: "n < length current" "current ! n = e'" using Cons.prems(1) [of 0] by simp_all
  have rest: "Suc n + k < length current \<and> current ! (Suc n + k) = es ! k" if "k < length es" for k
    using Cons.prems(1) [of "Suc k"] that by simp
  have "e \<in> set (ao_retry (foldl (file_entry x limit lookup sf) ?out (enumerate (Suc n) es)))"
    using Cons.prems(2) by simp
  from Cons.IH [OF rest this] consider "e \<in> set (ao_retry ?out)"
    | "retried_after x (place_status lookup sf) current
        (ao_retry_delay (foldl (file_entry x limit lookup sf) ?out (enumerate (Suc n) es))) e" by blast
  then show ?case
  proof cases
    case 1
    show ?thesis
    proof (cases "e \<in> set (ao_retry out)")
      case False
      with file_entry_retry [OF 1] obtain status where "e = e'" "place_status lookup sf n = Some status"
        "is_mutate_retryable status" "asked_delay x status \<le> ao_retry_delay ?out" by blast
      then show ?thesis
        using here order_trans [OF _ foldl_file_delay [of ?out x limit lookup sf "enumerate (Suc n) es"]]
        by (auto simp: retried_after_def)
    qed simp
  qed simp
qed simp

lemma attempt_retries:
  assumes "attempt_outcome x limit current reply out" and "e \<in> set (ao_retry out)"
  shows "retried_after x (answered_status x (length current) reply) current (ao_retry_delay out) e"
proof -
  have filed: "retried_after x (place_status lookup sf) current
      (ao_retry_delay (foldl (file_entry x limit lookup sf) o0 (enumerate 0 current))) e"
    if "ao_retry o0 = []" "e \<in> set (ao_retry (foldl (file_entry x limit lookup sf) o0 (enumerate 0 current)))"
    for lookup sf o0
    using foldl_file_retry [of current 0 current e x limit lookup sf o0] that by simp
  have rpc: "retried_after x (\<lambda>_. Some status) current (ao_retry_delay out) e"
    if "out = rpc_failure x limit current status" for status
  proof -
    have "place_status (\<lambda>_. None) (Some status) = (\<lambda>_. Some status)" by (simp add: place_status_def fun_eq_iff)
    then show ?thesis
      using filed [of "outcome_default\<lparr>ao_code := st_code status\<rparr>" "\<lambda>_. None" "Some status"] assms(2)
      unfolding that rpc_failure_file by (simp add: outcome_default_def)
  qed
  show ?thesis
  proof (cases reply)
    case (Connected items)
    obtain rs failure where rs: "stream_results items = (rs, failure)" by fastforce
    obtain tw where out: "out = fst (consume_stream x limit current items tw)"
      using assms(1) Connected by (auto simp: attempt_outcome_def)
    show ?thesis
    proof (cases "valid_results (length current) rs")
      case True
      then have "out = reference_outcome x limit current rs failure"
        using consume_stream_reference [OF rs, of current x limit tw] out by simp
      then show ?thesis
        using filed [of outcome_default "result_of x rs" failure] True rs Connected assms(2)
        by (simp add: reference_outcome_def outcome_default_def answered_status_def retried_after_def)
    next
      case False
      then obtain issue where "out = invalid_response_outcome current issue"
        using consume_stream_reference [OF rs, of current x limit tw] out by auto
      then show ?thesis using assms(2) by (simp add: invalid_response_outcome_def)
    qed
  qed (use assms(1) rpc in \<open>simp_all add: attempt_outcome_def answered_status_def retried_after_def\<close>)
qed

section \<open>The events of a round\<close>

text \<open>The requests of a batch so far, with what led to each but the first.\<close>

definition retry_event :: "nat \<Rightarrow> nat \<Rightarrow> duration \<Rightarrow> DiagnosticEvent \<Rightarrow> bool" where
  "retry_event b a asked event \<longleftrightarrow> (\<exists>code delay pending. asked \<le> delay
     \<and> event = RetryScheduled MutateRows (Some b) (of_nat (Suc a)) code delay pending)"

definition led_to :: "Env \<Rightarrow> Service \<Rightarrow> nat \<Rightarrow> sent \<Rightarrow> nat \<Rightarrow> DiagnosticEvent set \<Rightarrow> nat \<Rightarrow> bool" where
  "led_to x svc b sent a events i \<longleftrightarrow> (\<exists>k status. carries sent i a k
     \<and> answered_status x (length (fst (sent ! a))) (answer svc b sent a) k = Some status
     \<and> is_mutate_retryable status \<and> (\<exists>event \<in> events. retry_event b a (asked_delay x status) event))"

definition retries_told :: "Env \<Rightarrow> Service \<Rightarrow> nat \<Rightarrow> sent \<Rightarrow> DiagnosticEvent set \<Rightarrow> bool" where
  "retries_told x svc b sent events \<longleftrightarrow>
     (\<forall>a. Suc a < length sent \<longrightarrow> (\<forall>e \<in> set (fst (sent ! Suc a)). led_to x svc b sent a events (pe_original_index e)))"

text \<open>The same for the entries that the next request will carry.\<close>

definition pending_told :: "Env \<Rightarrow> Service \<Rightarrow> nat \<Rightarrow> sent \<Rightarrow> DiagnosticEvent set \<Rightarrow> PendingEntry list \<Rightarrow> bool" where
  "pending_told x svc b sent events pending \<longleftrightarrow> (sent \<noteq> []
     \<longrightarrow> (\<forall>e \<in> set pending. led_to x svc b sent (length sent - 1) events (pe_original_index e)))"

lemma led_to_more:
  assumes "led_to x svc b sent a events i" and "events \<subseteq> events'"
  shows "led_to x svc b (sent @ later) a events' i"
proof -
  obtain k status event where led: "carries sent i a k"
    "answered_status x (length (fst (sent ! a))) (answer svc b sent a) k = Some status"
    "is_mutate_retryable status" "event \<in> events" "retry_event b a (asked_delay x status) event"
    using assms(1) by (auto simp: led_to_def)
  have "carries (sent @ later) i a k \<and> (sent @ later) ! a = sent ! a \<and> answer svc b (sent @ later) a = answer svc b sent a"
    using carries_old [OF led(1)] led(1) by (auto simp: carries_def nth_append answer_def)
  then show ?thesis using led assms(2) unfolding led_to_def by (metis subsetD)
qed

lemma retries_told_round:
  assumes "retries_told x svc b sent events" and "pending_told x svc b sent events pending"
    and "events \<subseteq> events'" and "map pe_original_index current = map pe_original_index pending"
  shows "retries_told x svc b (sent @ [(current, request)]) events'"
  unfolding retries_told_def
proof (intro allI impI ballI)
  fix a e assume a: "Suc a < length (sent @ [(current, request)])"
    and e: "e \<in> set (fst ((sent @ [(current, request)]) ! Suc a))"
  show "led_to x svc b (sent @ [(current, request)]) a events' (pe_original_index e)"
  proof (cases "Suc a < length sent")
    case True
    then show ?thesis
      using assms(1,3) e by (intro led_to_more) (auto simp: retries_told_def nth_append)
  next
    case False
    then have last: "Suc a = length sent" using a by simp
    then have "pe_original_index e \<in> set (map pe_original_index pending)"
      using e unfolding assms(4) [symmetric] by (simp add: nth_append)
    then obtain e' where "e' \<in> set pending" "pe_original_index e' = pe_original_index e" by auto
    then have "led_to x svc b sent (length sent - 1) events (pe_original_index e)"
      using assms(2) last by (auto simp: pending_told_def)
    then show ?thesis using led_to_more [OF _ assms(3)] last by (metis diff_Suc_1)
  qed
qed

section \<open>The loop of a batch\<close>

text \<open>
  Invariants of the loop that speak of the world: \<open>P\<close> holds before a round, \<open>Q\<close> after its attempt,
  \<open>R\<close> at the end.
\<close>

lemma run_loop_world:
  assumes "run_loop x svc self w sent = Some (self', w', sent')" and "P self w sent"
    and round: "\<And>self w sent t w1 current request attempt self1 w2.
      \<lbrakk>P self w sent; bo_pending self \<noteq> []; now_instant (x_clock x) w = (t, w1);
        run_attempt x svc self w1 = ((current, request, attempt), self1, w2)\<rbrakk>
      \<Longrightarrow> Q attempt self1 w2 (sent @ [(current, request)])"
    and pause: "\<And>attempt self w sent self1 w1. \<lbrakk>Q attempt self w sent; bo_pending self \<noteq> [];
        run_pause x svc attempt self w = Some (True, self1, w1)\<rbrakk> \<Longrightarrow> P self1 w1 sent"
    and stop: "\<And>attempt self w sent self1 w1. \<lbrakk>Q attempt self w sent;
        run_pause x svc attempt self w = Some (False, self1, w1)\<rbrakk> \<Longrightarrow> R w1 sent"
    and finish: "\<And>attempt self w sent. Q attempt self w sent \<Longrightarrow> R w sent"
    and over: "\<And>self w sent. P self w sent \<Longrightarrow> R w sent"
    and late: "\<And>self w sent t w1. \<lbrakk>P self w sent; now_instant (x_clock x) w = (t, w1)\<rbrakk> \<Longrightarrow> R w1 sent"
  shows "R w' sent'"
  using assms(1,2) round pause stop late
proof (induction x svc self w sent rule: run_loop.induct)
  case (1 x svc self w sent)
  obtain t w1 where now: "now_instant (x_clock x) w = (t, w1)" by fastforce
  obtain current request attempt self1 w2 where
    run: "run_attempt x svc self w1 = ((current, request, attempt), self1, w2)"
    by (metis prod.exhaust)
  let ?sent = "sent @ [(current, request)]"
  show ?case
  proof (cases "bo_pending self = [] \<or> t \<ge> bo_deadline self")
    case True
    then have "sent' = sent" "w' = w \<or> w' = w1"
      using 1(2) now by (subst (asm) run_loop.simps; auto split: if_splits)+
    then show ?thesis using over [OF 1(3)] 1(7) [OF 1(3) now] by auto
  next
    case False
    then have Q1: "Q attempt self1 w2 ?sent" using 1(4) [OF 1(3) _ now run] by simp
    show ?thesis
    proof (cases "bo_pending self1 = []")
      case True
      then have "sent' = ?sent" "w' = w2"
        using 1(2) False now run by (subst (asm) run_loop.simps; simp)+
      then show ?thesis using finish [OF Q1] by simp
    next
      case pending: False
      then obtain continue self2 w3 where
        pause: "run_pause x svc attempt self1 w2 = Some (continue, self2, w3)"
        using 1(2) False now run
        by (subst (asm) run_loop.simps) (auto simp: Let_def split: option.splits)
      show ?thesis
      proof (cases continue)
        case True
        have "run_loop x svc self2 w3 ?sent = Some (self', w', sent')"
          using 1(2) False now run pause pending True by (subst (asm) run_loop.simps) simp
        moreover have "P self2 w3 ?sent" using 1(5) [OF Q1 pending] pause True by simp
        ultimately show ?thesis
          using 1(1) [OF _ now [symmetric] refl _ run [symmetric] refl refl refl refl _ pause refl refl True
              _ _ 1(4-7)] False pending by simp
      next
        case stopped: False
        then have "sent' = ?sent" "w' = w3"
          using 1(2) False now run pause pending by (subst (asm) run_loop.simps; simp)+
        then show ?thesis using 1(6) [OF Q1] pause stopped by simp
      qed
    qed
  qed
qed

text \<open>What is kept: before a round, and after an attempt.\<close>

definition before_round ::
    "Env \<Rightarrow> Service \<Rightarrow> PendingEntry list \<Rightarrow> nat \<Rightarrow> u32 \<Rightarrow> BatchOperation \<Rightarrow> World \<Rightarrow> sent \<Rightarrow> bool" where
  "before_round x svc es b limit self w sent \<longleftrightarrow> batch_inv es limit self sent \<and> bo_batch self = b
     \<and> w_operation w = MutateRows \<and> w_observer w
     \<and> retries_told x svc b sent (set (w_events w))
     \<and> pending_told x svc b sent (set (w_events w)) (bo_pending self)"

definition after_attempt ::
    "Env \<Rightarrow> Service \<Rightarrow> PendingEntry list \<Rightarrow> nat \<Rightarrow> u32 \<Rightarrow> AttemptOutcome \<Rightarrow> BatchOperation \<Rightarrow> World \<Rightarrow> sent \<Rightarrow> bool" where
  "after_attempt x svc es b limit attempt self w sent \<longleftrightarrow> batch_inv es limit self sent \<and> bo_batch self = b
     \<and> w_operation w = MutateRows \<and> w_observer w \<and> sent \<noteq> []
     \<and> retries_told x svc b sent (set (w_events w))
     \<and> (\<forall>e \<in> set (bo_pending self). retried_after x
          (answered_status x (length (fst (last sent))) (answer svc b sent (length sent - 1)))
          (fst (last sent)) (ao_retry_delay attempt) e)"

lemma told_round:
  assumes inv: "before_round x svc es b limit self w sent" and pending: "bo_pending self \<noteq> []"
    and now: "now_instant (x_clock x) w = (t, w1)"
    and run: "run_attempt x svc self w1 = ((current, request, attempt), self1, w2)"
  shows "after_attempt x svc es b limit attempt self1 w2 (sent @ [(current, request)])"
proof -
  let ?sent = "sent @ [(current, request)]"
  have binv: "batch_inv es limit self sent" and b: "bo_batch self = b" and op: "w_operation w1 = MutateRows"
    and seen: "w_observer w1" and same: "w_events w1 = w_events w"
    and told: "retries_told x svc b sent (set (w_events w))"
      "pending_told x svc b sent (set (w_events w)) (bo_pending self)"
    using inv now by (auto simp: before_round_def now_instant_def)
  have round: "round_ok self (current, request, attempt) self1"
    using run_attempt_ok [of self x svc w1] run by simp
  have limit: "bo_limit self = limit" using binv by (simp add: batch_inv_def)
  obtain e0 where "e0 \<in> set (bo_pending self)" using pending by (cases "bo_pending self") auto
  then have "length sent < unat limit" using binv by (auto simp: batch_inv_def list_all_iff word_less_nat_alt)
  then have small: "length sent < u32_max" using unat_u32_le [of limit] by linarith
  have count: "unat (bo_rpc_attempts self) = length sent" using binv by (simp add: batch_inv_def)
  then have n: "bo_rpc_attempts self = of_nat (length sent)" by (rule word_of_unat)
  have number: "sat_inc (bo_rpc_attempts self) = of_nat (Suc (length sent))"
    using small count n by (simp add: sat_inc_def)
  have "leads MutateRows (Some b) (Ready, of_nat (length sent), 0) w1
      (Over (ao_code attempt) (length (ao_failures attempt) + length (ao_retry attempt)), of_nat (length sent) + 1, 0) w2"
    by (rule leads_run_attempt [OF run leads_refl [OF op] b [symmetric] n]) (use small count n in simp)
  then obtain new where new: "appends w1 w2 new" and op2: "w_operation w2 = MutateRows"
    using leads_operation unfolding leads_def by blast
  have events: "set (w_events w) \<subseteq> set (w_events w2)" "w_observer w2"
    using new seen same by (auto simp: appends_def)
  have current: "current = map count_attempt (bo_pending self)" and self1: "bo_pending self1 = ao_retry attempt"
    "bo_batch self1 = b" using round b by (auto simp: round_ok_def)
  have told1: "retries_told x svc b ?sent (set (w_events w2))"
    by (rule retries_told_round [OF told events(1)]) (simp add: current comp_def)
  have out: "attempt_outcome x limit current (sv_mutate_rows svc b (of_nat (Suc (length sent))) request) attempt"
    using run_attempt_outcome [of x self svc w1] run b limit number by simp
  have "answer svc b ?sent (length sent) = sv_mutate_rows svc b (of_nat (Suc (length sent))) request"
    by (simp add: answer_def)
  then have "\<forall>e \<in> set (bo_pending self1). retried_after x
      (answered_status x (length (fst (last ?sent))) (answer svc b ?sent (length ?sent - 1)))
      (fst (last ?sent)) (ao_retry_delay attempt) e"
    using attempt_retries [OF out] self1(1) by simp
  with batch_inv_round [OF binv pending round] told1 events(2) op2 self1(2) show ?thesis
    by (simp add: after_attempt_def)
qed

lemma retried_led_to:
  assumes "sent \<noteq> []" and "retried_after x
      (answered_status x (length (fst (last sent))) (answer svc b sent (length sent - 1)))
      (fst (last sent)) asked e"
    and "asked \<le> delay" and "RetryScheduled MutateRows (Some b) (of_nat (length sent)) code delay pending \<in> events"
  shows "led_to x svc b sent (length sent - 1) events (pe_original_index e)"
proof -
  obtain k status where k: "k < length (fst (last sent))" "fst (last sent) ! k = e"
    "answered_status x (length (fst (last sent))) (answer svc b sent (length sent - 1)) k = Some status"
    "is_mutate_retryable status" "asked_delay x status \<le> asked"
    using assms(2) by (auto simp: retried_after_def)
  have last: "last sent = sent ! (length sent - 1)" using assms(1) by (rule last_conv_nth)
  have "carries sent (pe_original_index e) (length sent - 1) k"
    using k(1,2) assms(1) by (simp add: carries_def last)
  moreover have "retry_event b (length sent - 1) (asked_delay x status)
      (RetryScheduled MutateRows (Some b) (of_nat (length sent)) code delay pending)"
    using k(5) assms(1,3) by (simp add: retry_event_def)
  ultimately show ?thesis using k(3,4) assms(4) unfolding led_to_def last by blast
qed

lemma run_pause_events:
  assumes "run_pause x svc attempt self w = Some (continue, self1, w1)" and "w_observer w"
  shows "set (w_events w) \<subseteq> set (w_events w1) \<and> w_observer w1 \<and> w_operation w1 = w_operation w
    \<and> (continue \<longrightarrow> self1 = self \<and> (\<exists>delay. ao_retry_delay attempt \<le> delay
        \<and> RetryScheduled (w_operation w) (Some (bo_batch self)) (failed_attempt (bo_pending self)) (ao_code attempt)
            delay (length (bo_pending self)) \<in> set (w_events w1)))"
proof -
  obtain d where d: "backoff (x_powi x) (x_rand x (w_ticks w)) (wo_retry (bo_options self))
      (failed_attempt (bo_pending self)) = Some d"
    using assms(1) by (auto simp: run_pause_def Let_def split: option.splits)
  have "ao_retry_delay attempt \<le> max d (ao_retry_delay attempt)" by simp
  then show ?thesis
    using assms d
    by (auto simp: run_pause_def now_instant_def handle_retry_def emit_def Let_def split: if_splits
        intro!: exI [of _ "max d (ao_retry_delay attempt)"])
qed

lemma told_pause:
  assumes inv: "after_attempt x svc es b limit attempt self w sent" and pending: "bo_pending self \<noteq> []"
    and run: "run_pause x svc attempt self w = Some (True, self1, w1)"
  shows "before_round x svc es b limit self1 w1 sent"
proof -
  have binv: "batch_inv es limit self sent" and b: "bo_batch self = b" and op: "w_operation w = MutateRows"
    and seen: "w_observer w" and some: "sent \<noteq> []" and told: "retries_told x svc b sent (set (w_events w))"
    using inv by (simp_all add: after_attempt_def)
  obtain delay where events: "set (w_events w) \<subseteq> set (w_events w1)" "w_observer w1" "w_operation w1 = MutateRows"
    "self1 = self" "ao_retry_delay attempt \<le> delay"
    "RetryScheduled MutateRows (Some b) (failed_attempt (bo_pending self)) (ao_code attempt)
       delay (length (bo_pending self)) \<in> set (w_events w1)"
    using run_pause_events [OF run seen] op b by auto
  have "unat (pe_attempts e) = length sent" if "e \<in> set (bo_pending self)" for e
    using binv that by (simp add: batch_inv_def list_all_iff)
  then have "\<forall>e \<in> set (bo_pending self). pe_attempts e = of_nat (length sent)" by (blast intro: word_of_unat)
  then have "failed_attempt (bo_pending self) = of_nat (length sent)" by (rule failed_attempt_all [OF pending])
  then have event: "RetryScheduled MutateRows (Some b) (of_nat (length sent)) (ao_code attempt)
       delay (length (bo_pending self)) \<in> set (w_events w1)" using events(6) by simp
  have "led_to x svc b sent (length sent - 1) (set (w_events w1)) (pe_original_index e)"
    if "e \<in> set (bo_pending self)" for e
    by (rule retried_led_to [OF some _ events(5) event]) (use inv that in \<open>simp add: after_attempt_def\<close>)
  then have "pending_told x svc b sent (set (w_events w1)) (bo_pending self)" by (simp add: pending_told_def)
  moreover have "retries_told x svc b sent (set (w_events w1))"
    using told led_to_more [OF _ events(1), of x svc b sent _ _ "[]"] by (simp add: retries_told_def)
  ultimately show ?thesis using binv b events by (simp add: before_round_def)
qed

lemma told_more: "\<lbrakk>retries_told x svc b sent events; events \<subseteq> events'\<rbrakk> \<Longrightarrow> retries_told x svc b sent events'"
  using led_to_more [of x svc b sent _ events _ events' "[]"] by (simp add: retries_told_def)

lemma batch_run_told:
  assumes "batch_run x svc (batch_operation ctx b es) w = Some (outcome, w', sent)"
    and "list_all (\<lambda>e. pe_attempts e = 0) es" and "0 < ctx_limit ctx"
    and "w_operation w = MutateRows" "w_observer w"
  shows "retries_told x svc b sent (set (w_events w'))"
proof -
  obtain self where run: "run_loop x svc (batch_operation ctx b es) w [] = Some (self, w', sent)"
    using assms(1) by (auto simp: batch_run_def)
  have "batch_inv es (ctx_limit ctx) (batch_operation ctx b es) []"
    using batch_inv_start [of "batch_operation ctx b es" es] assms(2,3) by (simp add: batch_operation_def)
  then have start: "before_round x svc es b (ctx_limit ctx) (batch_operation ctx b es) w []"
    using assms(4,5) by (simp add: before_round_def batch_operation_def retries_told_def pending_told_def)
  show ?thesis
  proof (rule run_loop_world [where P = "before_round x svc es b (ctx_limit ctx)"
        and Q = "after_attempt x svc es b (ctx_limit ctx)", OF run start])
    show "retries_told x svc b sent (set (w_events w1))"
      if "after_attempt x svc es b (ctx_limit ctx) attempt self w sent"
        "run_pause x svc attempt self w = Some (False, self1, w1)" for attempt self w sent self1 w1
      using that run_pause_events [OF that(2)] by (auto simp: after_attempt_def intro: told_more)
  qed (erule (3) told_round, erule (2) told_pause, auto simp: before_round_def after_attempt_def now_instant_def)
qed

section \<open>The operation\<close>

lemma same_led_to: "led_to (batch_env x sch i) svc b sent = led_to x svc b sent"
proof -
  have "status_result (batch_env x sch i) = status_result x"
    by (intro ext) (simp add: status_result_def Let_def split: option.split)
  then have res: "result_of (batch_env x sch i) = result_of x"
    by (simp add: result_of_def fun_eq_iff)
  have "asked_delay (batch_env x sch i) status = asked_delay x status" for status
    by (simp add: asked_delay_def env_retry_delay_def)
  then show ?thesis
    unfolding led_to_def answered_status_def res fun_eq_iff by simp
qed

text \<open>The events of a batch are among those of the operation.\<close>

lemma run_batches_told:
  assumes run: "run_batches x svc sch ctx batches w = Some (totals, w', sents)"
    and sch: "schedule_ok sch (length batches)" "log_ok sch"
    and fresh: "list_all (list_all (\<lambda>e. pe_attempts e = 0)) batches" "0 < ctx_limit ctx"
    and w: "w_operation w = MutateRows" "w_attempts w = 0" "w_retries w = 0" "w_observer w"
    and limit: "0 < ctx_in_flight ctx" and m: "m < length sents"
  shows "retries_told x svc (sc_order sch ! m) (sents ! m) (set (w_events w'))"
proof (cases "length batches = 1")
  case True
  then obtain es where batches: "batches = [es]" by (cases batches) auto
  obtain outcome sent where one: "batch_run x svc (batch_operation ctx 0 es) w = Some (outcome, w', sent)"
    and sents: "sents = [sent]"
    using run by (auto simp: run_batches_def batches split: option.splits)
  have "sc_order sch = [0]" using sch(1) True by (simp add: schedule_ok_def)
  then show ?thesis using batch_run_told [OF one] fresh batches w m by (simp add: sents)
next
  case False
  obtain ws where w': "w' = join_worlds sch (ctx_in_flight ctx) w ws"
    and len: "length ws = length sents" "length sents = length (sc_order sch)"
    and each: "\<forall>k < length ws. \<exists>outcome es. list_all (\<lambda>e. pe_attempts e = 0) es
        \<and> batch_run (batch_env x sch (sc_order sch ! k)) svc (batch_operation ctx (sc_order sch ! k) es)
            (batch_start w) = Some (outcome, ws ! k, sents ! k)"
    by (rule run_batches_worlds [OF run False sch(1) fresh(1)])
  have logs: "\<forall>k < length ws. batch_log (sc_order sch ! k) (ws ! k) (sents ! k)"
  proof (intro allI impI)
    fix k assume "k < length ws"
    then obtain outcome es where es: "list_all (\<lambda>e. pe_attempts e = 0) es"
      "batch_run (batch_env x sch (sc_order sch ! k)) svc (batch_operation ctx (sc_order sch ! k) es)
         (batch_start w) = Some (outcome, ws ! k, sents ! k)"
      using each by blast
    from leads_batch_run(1) [OF es(2) _ _ _ es(1) fresh(2)] w show "batch_log (sc_order sch ! k) (ws ! k) (sents ! k)"
      by (auto simp: appends_def batch_log_def)
  qed
  obtain outcome es where es: "list_all (\<lambda>e. pe_attempts e = 0) es"
    "batch_run (batch_env x sch (sc_order sch ! m)) svc (batch_operation ctx (sc_order sch ! m) es)
       (batch_start w) = Some (outcome, ws ! m, sents ! m)"
    using each m len by auto
  have told: "retries_told x svc (sc_order sch ! m) (sents ! m) (set (w_events (ws ! m)))"
    using batch_run_told [OF es(2,1) fresh(2)] w by (simp add: retries_told_def same_led_to)
  have "list_all2 own_log (sc_order sch) (map w_events ws)" using batch_logs_own [OF logs] len by simp
  from interleaves_mset [OF conjunct1 [OF merged_log [OF sch(2) this schedule_order(2) [OF sch(1)] limit]]]
  have "set (sc_log sch (ctx_in_flight ctx) (map w_events ws)) = set (concat (map w_events ws))"
    by (rule mset_eq_setD)
  then have "set (w_events (ws ! m)) \<subseteq> set (w_events w')"
    using w' m len by (auto simp: join_worlds_def)
  then show ?thesis by (rule told_more [OF told])
qed

section \<open>Properties\<close>

text \<open>
  C25. A bulk mutation waits before it sends a row again, as long as the service asked. An entry in
  a request after the first of its batch was in the request before it; the answer to that request
  gave the entry a status, its own or that of the call, that may be retried; and between the two
  the operation reported a pause of this batch that is not shorter than the delay in the
  \<open>RetryInfo\<close> of this status, whatever the other entries of the request were answered.
\<close>

theorem retries_wait_as_asked:
  assumes "execute x len svc sch config mutation options w = Some (res, w', sents)" and "w_observer w"
    and "schedule_ok sch (length (operation_batches len config mutation options))" and "log_ok sch"
    and "m < length sents" and "carries (sents ! m) i (Suc a) k"
  shows "\<exists>j status code delay pending. carries (sents ! m) i a j
    \<and> answered_status x (length (mr_entries (snd (sents ! m ! a))))
        (sv_mutate_rows svc (sc_order sch ! m) (of_nat (Suc a)) (snd (sents ! m ! a))) j = Some status
    \<and> is_mutate_retryable status \<and> asked_delay x status \<le> delay
    \<and> RetryScheduled MutateRows (Some (sc_order sch ! m)) (of_nat (Suc a)) code delay pending \<in> set (w_events w')"
  using assms(1)
proof (cases rule: execute_world_cases)
  case early
  then show ?thesis using assms(5) by simp
next
  case (ran ctx op t' wz wa wb n r fs code)
  note start = telemetry_operation_starts [OF ran(3)]
  have limit: "0 < ctx_limit ctx" "0 < ctx_in_flight ctx"
    using validate_options_limit [OF ran(1)] validate_options_in_flight [OF ran(1)] ran(2) by simp_all
  have told: "retries_told x svc (sc_order sch ! m) (sents ! m) (set (w_events wb))"
    using run_batches_told [OF ran(6) assms(3,4) operation_batches_fresh limit(1) _ _ _ _ limit(2) assms(5)]
      start ran(5) assms(2) by simp
  have "set (w_events wb) \<subseteq> set (w_events w')"
    using operation_finish_event [OF ran(7)] start by (auto simp: appends_def)
  note told' = told_more [OF told this]
  have at: "Suc a < length (sents ! m)" "k < length (fst (sents ! m ! Suc a))"
    "pe_original_index (fst (sents ! m ! Suc a) ! k) = i"
    using assms(6) by (simp_all add: carries_def)
  then have "led_to x svc (sc_order sch ! m) (sents ! m) a (set (w_events w')) i"
    using told' nth_mem [OF at(2)] by (auto simp: retries_told_def)
  moreover have "length (fst (sents ! m ! a)) = length (mr_entries (snd (sents ! m ! a)))"
    using sent_lengths [OF assms(1,3) nth_mem [OF assms(5)], of a] at(1) by simp
  ultimately show ?thesis unfolding led_to_def retry_event_def answer_def by metis
qed

section \<open>A row that is sent again\<close>

text \<open>The service of the sample is unavailable at first: the row goes into a second request.\<close>

lemma run_loop_extends:
  assumes "run_loop x svc self w sent = Some (self', w', sent')"
  shows "prefix sent sent'"
proof -
  have "prefix sent sent' \<and> bo_pending self' = []"
    by (rule run_loop_invariant [where P = "\<lambda>_. prefix sent", OF assms]) (auto simp: prefix_def)
  then show ?thesis ..
qed

lemma sample_backoff:
  obtains d where "backoff sample_powi (\<lambda>_. 0) (wo_retry one_entry_options) n = Some d" "d \<le> secs 60"
proof -
  have "validate_policies retry_policy_default deadline_policy_default = Ok ()"
    by (simp add: validate_policies_def retry_policy_default_def deadline_policy_default_def
        millis_def secs_def is_finite_def less_f64_def)
  moreover have "max_backoff retry_policy_default < 2 ^ 22 * nanos_per_sec"
    by (simp add: retry_policy_default_def secs_def nanos_per_sec_def)
  moreover have "rand_in_range (\<lambda>_. 0)" by (simp add: rand_in_range_def)
  ultimately have "\<exists>d. backoff sample_powi (\<lambda>_. 0) retry_policy_default n = Some d
      \<and> d \<le> max_backoff retry_policy_default"
    using sample_powi_nonneg by (intro backoff_within_max)
  then show thesis
    using that by (auto simp: one_entry_options_def bulk_mutation_options_default_def) (simp add: retry_policy_default_def)
qed

lemma sample_second_request:
  assumes run: "run_loop sample_env sample_service self w [] = Some (self', w', sent')"
    and self: "bo_pending self = [e]" "bo_rpc_attempts self = 0" "bo_options self = one_entry_options"
      "bo_deadline self = secs 600"
    and e: "pe_retry_safe e" "pe_attempts e = 0"
  shows "carries sent' (pe_original_index e) 1 0"
proof -
  obtain w1 where now: "now_instant (x_clock sample_env) w = (0, w1)" by (simp add: now_instant_def sample_env_def)
  obtain current request attempt self1 w2 where
    first: "run_attempt sample_env sample_service self w1 = ((current, request, attempt), self1, w2)"
    by (metis prod.exhaust)
  have round: "round_ok self (current, request, attempt) self1"
    using run_attempt_ok [of self sample_env sample_service w1] first by simp
  have limit: "bo_limit self = 10"
    by (simp add: self one_entry_options_def bulk_mutation_options_default_def retry_policy_default_def)
  have current: "current = [count_attempt e]" using round self(1) by (simp add: round_ok_def)
  let ?status = "\<lparr>st_code = Unavailable, st_message = [], st_details = []\<rparr>"
  have one: "sat_inc 0 = 1" by (simp add: sat_inc_def u32_max_def)
  have "sv_mutate_rows sample_service (bo_batch self) 1 (fst (snd (fst (run_attempt sample_env sample_service self w1))))
      = Refused ?status" by (simp add: sample_service_def)
  then have "attempt = rpc_failure sample_env 10 [count_attempt e] ?status"
    using run_attempt_outcome [of sample_env self sample_service w1] first current limit self(2)
    by (simp add: attempt_outcome_def one)
  then have attempt: "ao_retry attempt = [count_attempt e]" "ao_retry_delay attempt = 0"
    using e one by (simp_all add: rpc_failure_def classify_status_def count_attempt_def
        is_mutate_retryable_def env_retry_delay_def retry_delay_def sample_env_def outcome_default_def Let_def)
  have self1: "bo_pending self1 = [count_attempt e]" "bo_options self1 = one_entry_options"
    "bo_deadline self1 = secs 600"
    using round attempt(1) self by (auto simp: round_ok_def)
  obtain d where d: "backoff sample_powi (\<lambda>_. 0) (wo_retry one_entry_options) (failed_attempt (bo_pending self1)) = Some d"
    "d \<le> secs 60" by (rule sample_backoff)
  then have "d < secs 600" by (auto simp: secs_def nanos_per_sec_def)
  then obtain w3 where pause: "run_pause sample_env sample_service attempt self1 w2 = Some (True, self1, w3)"
    using d(1) attempt(2) self1
    by (simp add: run_pause_def now_instant_def sample_env_def sample_service_def Let_def)
  have again: "run_loop sample_env sample_service self1 w3 [(current, request)] = Some (self', w', sent')"
    using run now first pause self self1
    by (subst (asm) run_loop.simps) (simp add: secs_def nanos_per_sec_def)
  obtain w4 where now': "now_instant (x_clock sample_env) w3 = (0, w4)" by (simp add: now_instant_def sample_env_def)
  obtain current2 request2 attempt2 self2 w5 where
    second: "run_attempt sample_env sample_service self1 w4 = ((current2, request2, attempt2), self2, w5)"
    by (metis prod.exhaust)
  have "current2 = [count_attempt (count_attempt e)]"
    using run_attempt_ok [of self1 sample_env sample_service w4] second self1(1) by (simp add: round_ok_def)
  moreover have "prefix [(current, request), (current2, request2)] sent'"
    using again now' second self1
    by (subst (asm) run_loop.simps) (auto simp: secs_def nanos_per_sec_def Let_def dest: run_loop_extends
        split: if_splits option.splits)
  ultimately show ?thesis by (auto simp: prefix_def carries_def count_attempt_def)
qed

text \<open>A bulk mutation of one row is one batch.\<close>

lemma one_row_batches:
  "bm_entries bulk = [m] \<Longrightarrow> operation_batches len config bulk options = [[pending_of (0, m)]]"
  by (simp add: split_batches_pack entry_fits_def)

lemma one_row_run:
  assumes run: "execute x len svc sch config bulk options w = Some (res, w', sents)"
    and bulk: "bm_entries bulk = [m]" and "ran_batches res"
  obtains ctx wa self wb sent where "sents = [sent]" "ctx_options ctx = options"
    "ctx_deadline ctx = x_clock x (w_ticks w) + operation_timeout (wo_deadlines options)"
    "run_loop x svc (batch_operation ctx 0 [pending_of (0, m)]) wa [] = Some (self, wb, sent)"
proof -
  have single: "\<exists>sent. sents = [sent]"
    if "run_batches x svc sch ctx (operation_batches len config bulk options) wa = Some (totals, wb, sents)"
    for ctx wa totals wb
    using that by (auto simp: run_batches_def one_row_batches [OF bulk] split: option.splits)
  have "\<exists>sent. sents = [sent]"
    using run
  proof (cases rule: execute_cases)
    case (refused error)
    then show ?thesis using assms(3) by (auto simp: ran_batches_def split: Error.splits)
  qed (use bulk single in \<open>auto; blast\<close>)+
  then obtain sent where sents: "sents = [sent]" by blast
  from run show thesis
  proof (cases rule: execute_world_cases)
    case (ran ctx op t' wz wa wb n r fs code)
    obtain outcome where "batch_run x svc (batch_operation ctx 0 [pending_of (0, m)]) wa = Some (outcome, wb, sent)"
      using ran(6) by (auto simp: run_batches_def one_row_batches [OF bulk] sents split: option.splits)
    then show thesis using that [OF sents ran(2,10)] by (auto simp: batch_run_def)
  qed (simp add: sents)
qed

abbreviation sample_resend where
  "sample_resend \<equiv> execute sample_env sample_lengths sample_service (sample_schedule [0])
     sample_config sample_bulk one_entry_options"

lemma sample_resent:
  obtains res w sents where "sample_resend sample_world = Some (res, w, sents)"
    "0 < length sents" "carries (sents ! 0) 0 1 0"
proof -
  define row where "row = hd (bm_entries sample_bulk)"
  have bulk: "bm_entries sample_bulk = [row]" and safe: "is_retry_safe row"
    by (simp_all add: row_def sample_bulk_def is_retry_safe_def delete_row_def mutation_new_def
        mutation_is_retry_safe_def)
  obtain res w sents where run: "sample_resend sample_world = Some (res, w, sents)"
    and ran: "ran_batches res" by (rule one_entry_ran [of sample_bulk sample_service "[0]"]) (simp add: bulk)
  obtain ctx wa self wb sent where sents: "sents = [sent]" and ctx: "ctx_options ctx = one_entry_options"
    "ctx_deadline ctx = x_clock sample_env (w_ticks sample_world) + operation_timeout (wo_deadlines one_entry_options)"
    and loop: "run_loop sample_env sample_service (batch_operation ctx 0 [pending_of (0, row)]) wa [] = Some (self, wb, sent)"
    by (rule one_row_run [OF run bulk ran])
  have "ctx_deadline ctx = secs 600"
    using ctx(2) by (simp add: sample_env_def one_entry_options_def bulk_mutation_options_default_def)
  then have "carries sent 0 1 0"
    using sample_second_request [OF loop] ctx(1) safe by (simp add: batch_operation_def pending_of_def)
  then show thesis using that [OF run] by (simp add: sents)
qed

theorem retries_wait_as_asked_witness:
  "\<exists>res w sents j status code delay pending. sample_resend sample_world = Some (res, w, sents)
     \<and> carries (sents ! 0) 0 1 0 \<and> carries (sents ! 0) 0 0 j
     \<and> answered_status sample_env (length (mr_entries (snd (sents ! 0 ! 0))))
         (sv_mutate_rows sample_service 0 1 (snd (sents ! 0 ! 0))) j = Some status
     \<and> is_mutate_retryable status \<and> asked_delay sample_env status \<le> delay
     \<and> RetryScheduled MutateRows (Some 0) 1 code delay pending \<in> set (w_events w)"
proof -
  obtain res w sents where run: "sample_resend sample_world = Some (res, w, sents)"
    and some: "0 < length sents" and again: "carries (sents ! 0) 0 (Suc 0) 0"
    by (rule sample_resent) simp
  have sch: "schedule_ok (sample_schedule [0])
      (length (operation_batches sample_lengths sample_config sample_bulk one_entry_options))"
    using one_row_batches [of sample_bulk "hd (bm_entries sample_bulk)" sample_lengths sample_config]
    by (simp add: schedule_ok_def sample_schedule_def sample_bulk_def)
  have first: "sc_order (sample_schedule [0]) ! 0 = 0" by (simp add: sample_schedule_def)
  have "w_observer sample_world" by (simp add: sample_world_def)
  from retries_wait_as_asked [OF run this sch sample_log_ok some again] run again show ?thesis
    unfolding first by simp
qed

end
