(* ===== verification/Auth.thy ===== *)
theory Auth
  imports Environment Config
begin

text \<open>
  \<open>auth.rs\<close>: the access token that requests carry, fetched when the client connects and
  replaced by a task before it expires. A time is read from the system clock as nanoseconds
  since the earliest time the clock can represent.
\<close>

section \<open>Tokens\<close>

definition refresh_margin :: duration where "refresh_margin = secs 15"
definition refresh_retry_delay :: duration where "refresh_retry_delay = secs 5"

record AccessToken =
  tok_secret :: string
  tok_expires_at :: instant

record TokenSnapshot =
  ts_authorization :: string
  ts_expires_at :: instant

definition snapshot_try_from :: "Env \<Rightarrow> AccessToken \<Rightarrow> (Error, TokenSnapshot) result" where
  "snapshot_try_from x token =
     and_then (map_err InvalidAccessToken (x_parse_metadata x (''Bearer '' @ tok_secret token)))
       (\<lambda>authorization. Ok \<lparr>ts_authorization = authorization, ts_expires_at = tok_expires_at token\<rparr>)"

lemma snapshot_try_from_Ok:
  "snapshot_try_from x token = Ok s \<Longrightarrow> x_parse_metadata x (''Bearer '' @ tok_secret token)
     = Ok (ts_authorization s) \<and> ts_expires_at s = tok_expires_at token"
  by (auto simp: snapshot_try_from_def result_iffs)

text \<open>\<open>GcpTokenSource\<close>: what the provider answers, its error wrapped.\<close>

definition gcp_token :: "(string, AccessToken) result \<Rightarrow> (Error, AccessToken) result" where
  "gcp_token answer = and_then (map_err Authentication answer)
     (\<lambda>token. Ok \<lparr>tok_secret = tok_secret token, tok_expires_at = tok_expires_at token\<rparr>)"

lemma gcp_token_simps [simp]:
  "gcp_token (Err e) = Err (Authentication e)" "gcp_token (Ok token) = Ok token"
  by (simp_all add: gcp_token_def)

section \<open>The manager\<close>

record TokenManager =
  tm_current :: TokenSnapshot
  tm_refresh_task :: bool

definition token_manager_start ::
    "Env \<Rightarrow> (Error, AccessToken) result \<Rightarrow> (Error, TokenManager) result" where
  "token_manager_start x answer =
     and_then (and_then answer (snapshot_try_from x))
       (\<lambda>current. Ok \<lparr>tm_current = current, tm_refresh_task = True\<rparr>)"

definition unauthenticated :: status where
  "unauthenticated = \<lparr>st_code = Unauthenticated,
     st_message = ''Bigtable access token expired before it could be refreshed'', st_details = []\<rparr>"

definition authorization :: "instant \<Rightarrow> TokenManager \<Rightarrow> (status, string) result" where
  "authorization now self =
     (if now \<ge> ts_expires_at (tm_current self) then Err unauthenticated
      else Ok (ts_authorization (tm_current self)))"

definition token_manager_drop :: "TokenManager \<Rightarrow> TokenManager" where
  "token_manager_drop self = self\<lparr>tm_refresh_task := False\<rparr>"

section \<open>The refresh task\<close>

text \<open>
  One turn of the loop. The task sleeps until the token is about to expire and asks for
  another; \<open>fe\_lag\<close> is the time until it has the answer, over the time it meant to sleep.
\<close>

record Fetch =
  fe_lag :: duration
  fe_result :: "(Error, AccessToken) result"

definition refresh_delay :: "instant \<Rightarrow> TokenSnapshot \<Rightarrow> duration" where
  "refresh_delay now current =
     (let refresh_at = (if refresh_margin \<le> ts_expires_at current
                        then ts_expires_at current - refresh_margin else now)
      in refresh_at - now)"

definition refresh_turn :: "Env \<Rightarrow> instant \<Rightarrow> TokenSnapshot \<Rightarrow> Fetch \<Rightarrow> instant \<times> TokenSnapshot" where
  "refresh_turn x now current fetch =
     (let now = now + refresh_delay now current + fe_lag fetch
      in case and_then (fe_result fetch) (snapshot_try_from x) of
           Inr token \<Rightarrow> (now, token)
         | Inl error \<Rightarrow> (now + refresh_retry_delay, current))"

text \<open>The loop over the answers that come, with the token it holds after each turn.\<close>

fun refresh_loop :: "Env \<Rightarrow> instant \<Rightarrow> TokenSnapshot \<Rightarrow> Fetch list \<Rightarrow> (instant \<times> TokenSnapshot) list" where
  "refresh_loop x now current [] = []"
| "refresh_loop x now current (fetch # fetches) =
     (let (now, current) = refresh_turn x now current fetch
      in (now, current) # refresh_loop x now current fetches)"

text \<open>The token that a request finds at a time.\<close>

fun snapshot_at :: "TokenSnapshot \<Rightarrow> (instant \<times> TokenSnapshot) list \<Rightarrow> instant \<Rightarrow> TokenSnapshot" where
  "snapshot_at current [] t = current"
| "snapshot_at current ((since, token) # stores) t =
     (if t < since then current else snapshot_at token stores t)"

section \<open>Answers in time\<close>

text \<open>
  \<open>timely x now current b fetches\<close>: counted from the time a refresh is due, the answers and
  the pauses after failed ones take at most the time \<open>b\<close> that is left, 15 seconds at first;
  each new token is valid for 15 seconds when it comes.
\<close>

fun timely :: "Env \<Rightarrow> instant \<Rightarrow> TokenSnapshot \<Rightarrow> duration \<Rightarrow> Fetch list \<Rightarrow> bool" where
  "timely x now current b [] = True"
| "timely x now current b (fetch # fetches) =
     (let (now', current') = refresh_turn x now current fetch
      in case and_then (fe_result fetch) (snapshot_try_from x) of
           Inr _ \<Rightarrow> fe_lag fetch \<le> b \<and> now' + refresh_margin \<le> ts_expires_at current'
             \<and> timely x now' current' refresh_margin fetches
         | Inl _ \<Rightarrow> fe_lag fetch + refresh_retry_delay \<le> b
             \<and> timely x now' current (b - (fe_lag fetch + refresh_retry_delay)) fetches)"

lemma due_in_time:
  "b \<le> refresh_margin \<Longrightarrow> now + b \<le> ts_expires_at current
   \<Longrightarrow> now + refresh_delay now current + b \<le> ts_expires_at current"
  by (auto simp: refresh_delay_def Let_def)

lemma timely_covered:
  assumes "timely x now current b fetches" and "b \<le> refresh_margin"
    and "now + b \<le> ts_expires_at current"
    and "t < ts_expires_at (snd (last ((now, current) # refresh_loop x now current fetches)))"
  shows "t < ts_expires_at (snapshot_at current (refresh_loop x now current fetches) t)"
  using assms
proof (induction x now current b fetches rule: timely.induct)
  case (2 x now current b fetch fetches)
  obtain now' current' where turn: "refresh_turn x now current fetch = (now', current')" by fastforce
  note due = due_in_time [OF 2(4,5)]
  show ?case
  proof (cases "and_then (fe_result fetch) (snapshot_try_from x)")
    case (Inl e)
    then have now': "now' = now + refresh_delay now current + fe_lag fetch + refresh_retry_delay"
      and same: "current' = current" using turn by (auto simp: refresh_turn_def Let_def)
    have lag: "fe_lag fetch + refresh_retry_delay \<le> b"
      and rest: "timely x now' current (b - (fe_lag fetch + refresh_retry_delay)) fetches"
      using 2(3) turn Inl by auto
    have "now' + (b - (fe_lag fetch + refresh_retry_delay)) \<le> ts_expires_at current"
      using due lag now' by linarith
    moreover have "t < ts_expires_at (snd (last ((now', current) # refresh_loop x now' current fetches)))"
      using 2(6) turn same by simp
    ultimately have "t < ts_expires_at (snapshot_at current (refresh_loop x now' current fetches) t)"
      using 2(1) [OF refl turn [symmetric] Inl rest] 2(4) same by simp
    moreover have "now' \<le> ts_expires_at current" using due lag now' by linarith
    ultimately show ?thesis using turn same by auto
  next
    case (Inr token)
    then have now': "now' = now + refresh_delay now current + fe_lag fetch"
      using turn by (auto simp: refresh_turn_def Let_def)
    have lag: "fe_lag fetch \<le> b" and valid: "now' + refresh_margin \<le> ts_expires_at current'"
      and rest: "timely x now' current' refresh_margin fetches"
      using 2(3) turn Inr by auto
    have "t < ts_expires_at (snd (last ((now', current') # refresh_loop x now' current' fetches)))"
      using 2(6) turn by simp
    then have "t < ts_expires_at (snapshot_at current' (refresh_loop x now' current' fetches) t)"
      using 2(2) [OF refl turn [symmetric] Inr rest _ valid] by simp
    moreover have "now' \<le> ts_expires_at current" using due lag now' by linarith
    ultimately show ?thesis using turn by auto
  qed
qed simp

lemma snapshot_at_source:
  "snapshot_at current (refresh_loop x now current fetches) t = current
   \<or> (\<exists>fetch \<in> set fetches. and_then (fe_result fetch) (snapshot_try_from x)
        = Ok (snapshot_at current (refresh_loop x now current fetches) t))"
proof (induction x now current fetches rule: refresh_loop.induct)
  case (2 x now current fetch fetches)
  obtain now' current' where turn: "refresh_turn x now current fetch = (now', current')" by fastforce
  then have "current' = current \<or> and_then (fe_result fetch) (snapshot_try_from x) = Ok current'"
    by (auto simp: refresh_turn_def Let_def split: sum.splits)
  then show ?case using 2 [OF turn [symmetric] refl] turn by auto
qed simp

section \<open>Properties\<close>

text \<open>
  C36. Requests stay authorized: if every token is valid for 15 seconds when it comes, and from
  the time a refresh is due no more than 15 seconds of waiting, failed answers and pauses after
  them pass until a token comes, then every request until the last token expires carries a
  current token.
\<close>

theorem requests_stay_authorized:
  assumes "token_manager_start x answer = Ok self"
    and "now + refresh_margin \<le> ts_expires_at (tm_current self)"
    and "timely x now (tm_current self) refresh_margin fetches"
    and "t < ts_expires_at (snd (last ((now, tm_current self)
           # refresh_loop x now (tm_current self) fetches)))"
  shows "\<exists>a. authorization t (self\<lparr>tm_current :=
      snapshot_at (tm_current self) (refresh_loop x now (tm_current self) fetches) t\<rparr>) = Ok a"
  using timely_covered [OF assms(3) order_refl assms(2,4)] by (simp add: authorization_def)


text \<open>A token of 100 seconds, a refresh that fails once, and the next token.\<close>

definition sample_token :: "string \<Rightarrow> nat \<Rightarrow> (Error, AccessToken) result" where
  "sample_token secret n = Ok \<lparr>tok_secret = secret, tok_expires_at = secs n\<rparr>"

definition sample_fetches :: "Fetch list" where
  "sample_fetches = [\<lparr>fe_lag = secs 2, fe_result = Err ChannelPoolClosed\<rparr>,
     \<lparr>fe_lag = secs 3, fe_result = sample_token ''b'' 1000\<rparr>]"

definition sample_manager :: TokenManager where
  "sample_manager = \<lparr>tm_current = \<lparr>ts_authorization = ''Bearer a'', ts_expires_at = secs 100\<rparr>,
     tm_refresh_task = True\<rparr>"

lemma sample_manager_started: "token_manager_start sample_env (sample_token ''a'' 100) = Ok sample_manager"
  by (simp add: token_manager_start_def sample_token_def snapshot_try_from_def sample_env_def
      sample_manager_def)

lemmas sample_refresh = sample_manager_def sample_fetches_def sample_token_def refresh_turn_def
  refresh_delay_def refresh_margin_def refresh_retry_delay_def snapshot_try_from_def secs_def
  sample_env_def Let_def

theorem requests_stay_authorized_witness:
  "\<exists>a. authorization (secs 99) (sample_manager\<lparr>tm_current := snapshot_at (tm_current sample_manager)
      (refresh_loop sample_env 0 (tm_current sample_manager) sample_fetches) (secs 99)\<rparr>) = Ok a"
  by (rule requests_stay_authorized [OF sample_manager_started]) (simp_all add: sample_refresh)


end
