(* ===== verification/ReadComplete.thy ===== *)
theory ReadComplete
  imports ReadRuns
begin

text \<open>
  A read against a service that keeps its contract: whatever attempts fail and are resumed, the
  rows delivered are the rows of the table that the query selects, each once and in order, up
  to the limit; all of them, if the stream ends without an error.
\<close>

section \<open>The service's contract\<close>

text \<open>
  The rows of a table that a request asks for. The table is listed in the order of the scan, as
  the request's filter shows it; every request of a read has the same filter.
\<close>

definition scan_result :: "Row list \<Rightarrow> ReadRowsRequest \<Rightarrow> Row list" where
  "scan_result db req =
     (let rows = filter (\<lambda>r. request_selects req (row_key r)) db
      in if rr_rows_limit req > 0 then take (nat (rr_rows_limit req)) rows else rows)"

text \<open>What the messages of a reply make the client do to its merger.\<close>

fun is_message :: "ReadItem \<Rightarrow> bool" where
  "is_message (Message _) = True"
| "is_message _ = False"

fun item_ops :: "ReadItem \<Rightarrow> MergeOp list" where
  "item_ops (Message response) =
     (if rsp_last_scanned_row_key response \<noteq> [] then [ScanMarker (rsp_last_scanned_row_key response)]
      else []) @ map PushChunk (rsp_chunks response)"
| "item_ops _ = []"

definition reply_ops :: "ReadItem list \<Rightarrow> MergeOp list" where
  "reply_ops items = concat (map item_ops (takeWhile is_message items))"

text \<open>
  A reply to a request: its messages decode to the first rows of the result, and its scan
  markers stay before the rows that are missing; a reply that ends without an error has sent
  all rows.
\<close>

definition serves :: "Row list \<Rightarrow> ReadRowsRequest \<Rightarrow> ReadItem list \<Rightarrow> bool" where
  "serves db req items \<longleftrightarrow>
     (\<forall>m. merger_inv m \<and> m_state m = NewRow \<and> m_reversed m = rr_reversed req
        \<and> list_all (\<lambda>r. ahead_opt (rr_reversed req) (row_key r) (m_last_complete_key m)) (scan_result db req)
      \<longrightarrow> (\<exists>n m'. merge_run m (reply_ops items) = (take n (scan_result db req), Ok m')
          \<and> list_all (\<lambda>r. ahead_opt (rr_reversed req) (row_key r) (m_last_complete_key m'))
              (drop n (scan_result db req))
          \<and> (list_all is_message items \<longrightarrow> length (scan_result db req) \<le> n \<and> m_state m' = NewRow)))"

section \<open>Responses as runs of the merger\<close>

lemma handle_chunks_run:
  assumes "merge_run (ro_merger self) (map PushChunk chunks) = (rows, Ok m')"
    and "merger_inv (ro_merger self)" "ro_progress self = m_last_complete_key (ro_merger self)"
    and "\<And>n. rd_takes rd n"
  shows "\<exists>w'. handle_chunks x rd self chunks w out =
    (Ok True, self\<lparr>ro_merger := m', ro_rows_returned := ro_rows_returned self + int (length rows),
       ro_progress := m_last_complete_key m'\<rparr>, w', out @ map Inr rows)"
  using assms
proof (induction chunks arbitrary: self rows w out)
  case Nil
  then show ?case by auto
next
  case (Cons chunk chunks)
  obtain p m where push: "push (ro_merger self) chunk = (p, m)" by fastforce
  have ok: "push_ok (ro_merger self) (p, m)" using push_ok [OF Cons(3), of chunk] push by simp
  consider (issue) e where "p = Inl e" | (none) "p = Inr None" | (row) r where "p = Inr (Some r)"
    by (cases p; cases "projr p") auto
  then show ?case
  proof cases
    case issue
    then show ?thesis using Cons(2) push by simp
  next
    case none
    have "merge_run m (map PushChunk chunks) = (rows, Ok m')" using Cons(2) push none by simp
    then show ?thesis
      using Cons(1) [of "self\<lparr>ro_merger := m\<rparr>" rows w out] push none ok Cons(4,5) by simp
  next
    case (row r)
    obtain rest where rest: "merge_run m (map PushChunk chunks) = (rest, Ok m')" "rows = r # rest"
      using Cons(2) push row by (auto split: prod.splits)
    obtain b w1 where b: "now_instant (x_clock x) w = (b, w1)" by fastforce
    obtain d w2 where d: "elapsed (x_clock x) b w1 = (d, w2)" by fastforce
    let ?self = "self\<lparr>ro_merger := m, ro_rows_returned := ro_rows_returned self + 1,
        ro_progress := Some (row_key r)\<rparr>"
    show ?thesis
      using Cons(1) [of ?self rest "application_blocked d w2" "out @ [Inr r]"] rest push row ok Cons(5) b d
      by (simp add: add.assoc)
  qed
qed

lemma handle_response_run:
  assumes "merge_run (ro_merger self) (item_ops (Message response)) = (rows, Ok m')"
    and "merger_inv (ro_merger self)" "ro_progress self = m_last_complete_key (ro_merger self)"
    and "\<And>n. rd_takes rd n"
  shows "\<exists>w'. handle_response x rd self response w out =
    (Ok True, self\<lparr>ro_merger := m', ro_rows_returned := ro_rows_returned self + int (length rows),
       ro_progress := m_last_complete_key m'\<rparr>, w', out @ map Inr rows)"
proof (cases "rsp_last_scanned_row_key response = []")
  case True
  then show ?thesis using assms handle_chunks_run by (simp add: handle_response_def)
next
  case False
  let ?key = "rsp_last_scanned_row_key response"
  obtain s m where mark: "scan_marker (ro_merger self) ?key = (s, m)" by fastforce
  then obtain u where s: "s = Inr u"
    and run: "merge_run m (map PushChunk (rsp_chunks response)) = (rows, Ok m')"
    using assms(1) False by (cases s) auto
  have "merger_inv m" "m_last_complete_key m = Some ?key"
    using mark s assms(2) by (auto simp: scan_marker_eq merger_inv_def split: if_splits)
  then show ?thesis
    using handle_chunks_run [of "self\<lparr>ro_merger := m, ro_progress := Some ?key\<rparr>", OF _ _ _ assms(4)] run
      False mark s by (simp add: handle_response_def)
qed

text \<open>
  How the messages of an attempt end, in terms of the run of the merger over all of them: the
  limit is reached at some message, the stream ends, or the attempt fails.
\<close>

definition items_end ::
    "ReadOperation \<Rightarrow> delivered \<Rightarrow> Row list \<Rightarrow> RowMerger \<Rightarrow> bool
     \<Rightarrow> AttemptEnd \<Rightarrow> ReadOperation \<Rightarrow> delivered \<Rightarrow> bool" where
  "items_end self out rows m' all e self' out' \<longleftrightarrow>
     e = TaskEnds \<and> (\<exists>k \<le> length rows. out' = out @ map Inr (take k rows)
        \<and> rr_rows_limit (ro_original self) > 0
        \<and> ro_rows_returned self + int k \<ge> rr_rows_limit (ro_original self))
   \<or> e = TaskEnds \<and> all \<and> (if m_state m' = NewRow then out' = out @ map Inr rows
        else \<exists>error. out' = out @ map Inr rows @ [Inl error])
   \<or> (\<exists>status. e = AttemptFails status) \<and> \<not> all \<and> out' = out @ map Inr rows
        \<and> self' = self\<lparr>ro_merger := discard_partial m',
            ro_rows_returned := ro_rows_returned self + int (length rows),
            ro_progress := m_last_complete_key m'\<rparr>"

lemma items_end_shift:
  assumes "items_end (self\<lparr>ro_merger := m1, ro_rows_returned := ro_rows_returned self + int (length rows1),
      ro_progress := p\<rparr>) (out @ map Inr rows1) rows2 m' all e self' out'"
  shows "items_end self out (rows1 @ rows2) m' all e self' out'"
  using assms [unfolded items_end_def]
proof (elim disjE conjE exE)
  fix k assume "e = TaskEnds" "k \<le> length rows2" "out' = (out @ map Inr rows1) @ map Inr (take k rows2)"
    "rr_rows_limit (ro_original (self\<lparr>ro_merger := m1,
       ro_rows_returned := ro_rows_returned self + int (length rows1), ro_progress := p\<rparr>)) > 0"
    "ro_rows_returned (self\<lparr>ro_merger := m1,
       ro_rows_returned := ro_rows_returned self + int (length rows1), ro_progress := p\<rparr>) + int k
     \<ge> rr_rows_limit (ro_original (self\<lparr>ro_merger := m1,
       ro_rows_returned := ro_rows_returned self + int (length rows1), ro_progress := p\<rparr>))"
  then show ?thesis
    unfolding items_end_def by (intro disjI1 conjI exI [of _ "length rows1 + k"]) simp_all
qed (auto simp: items_end_def add.assoc split: if_splits)

lemma read_items_run:
  assumes "read_items x rd self active items w out = (e, self', w', out')"
    and "merge_run (ro_merger self) (reply_ops items) = (rows, Ok m')"
    and "merger_inv (ro_merger self)" "ro_progress self = m_last_complete_key (ro_merger self)"
    and "\<forall>n. rd_takes rd n" and "ReceiverClosed \<notin> set items"
  shows "items_end self out rows m' (list_all is_message items) e self' out'"
  using assms
proof (induction x rd self active items w out arbitrary: rows rule: read_items.induct)
  case (1 x rd self active w out)
  then show ?case
    by (auto simp: items_end_def reply_ops_def merger_finish_def Let_def split: prod.splits if_splits)
next
  case (2 x rd self active items w out)
  then show ?case by simp
next
  case (3 x rd self active status items w out)
  then show ?case by (auto simp: items_end_def reply_ops_def split: prod.splits)
next
  case (4 x rd self active items w out)
  then show ?case by (auto simp: items_end_def reply_ops_def split: prod.splits)
next
  case (5 x rd self active response items w out)
  obtain t w1 where t: "first_response (x_clock x) (aa_telemetry active, w) = (t, w1)" by fastforce
  have ops: "reply_ops (Message response # items) = item_ops (Message response) @ reply_ops items"
    by (simp add: reply_ops_def)
  obtain rows1 m1 rows2 where
    run1: "merge_run (ro_merger self) (item_ops (Message response)) = (rows1, Ok m1)" and
    run2: "merge_run m1 (reply_ops items) = (rows2, Ok m')" and rows: "rows = rows1 @ rows2"
    using 5(3) unfolding ops merge_run_append by (auto split: prod.splits sum.splits)
  let ?self1 = "self\<lparr>ro_merger := m1, ro_rows_returned := ro_rows_returned self + int (length rows1),
      ro_progress := m_last_complete_key m1\<rparr>"
  obtain w2 where
    h: "handle_response x rd self response w1 out = (Ok True, ?self1, w2, out @ map Inr rows1)"
    using handle_response_run [OF run1 5(4,5) spec [OF 5(6)], where x = x and w = w1 and out = out] by auto
  have inv1: "merger_inv m1" using merge_run_ok(4) [OF 5(4)] run1 by (metis snd_conv)
  show ?case
  proof (cases "limit_reached ?self1")
    case True
    then show ?thesis
      using 5(2) t h rows
      by (auto simp: items_end_def Let_def limit_reached_def split: prod.splits
          intro!: exI [of _ "length rows1"])
  next
    case False
    obtain active1 where
      "read_items x rd ?self1 active1 items w2 (out @ map Inr rows1) = (e, self', w', out')" and
      "active1 = active\<lparr>aa_telemetry := t, aa_rows :=
         sat_add64 (aa_rows active) (u64_of_i64 (ro_rows_returned ?self1 - ro_rows_returned self))\<rparr>"
      using 5(2) t h False by (simp add: Let_def)
    then have "items_end ?self1 (out @ map Inr rows1) rows2 m' (list_all is_message items) e self' out'"
      using 5(1) [OF refl t [symmetric] refl refl h [symmetric] refl refl refl refl refl False]
        run2 inv1 5(6,7) by simp
    then show ?thesis unfolding rows using items_end_shift by simp
  qed
qed

section \<open>What is left of the result\<close>

text \<open>
  The rows delivered are the first of the result, the progress lies behind all others, and the
  next request asks for just those.
\<close>

definition delivered_inv :: "Row list \<Rightarrow> ReadOperation \<Rightarrow> Row list \<Rightarrow> bool" where
  "delivered_inv db self rows \<longleftrightarrow>
     rows = take (length rows) (scan_result db (ro_original self))
   \<and> ro_rows_returned self = int (length rows)
   \<and> list_all (\<lambda>r. ahead_opt (ro_reversed self) (row_key r) (ro_progress self))
       (drop (length rows) (scan_result db (ro_original self)))"

lemma filter_beyond:
  assumes "scan.in_order b (map row_key (rows @ D @ rest))"
    and "list_all (\<lambda>r. \<not> ahead_opt b (row_key r) p) rows"
    and "list_all (\<lambda>r. ahead_opt b (row_key r) p) D" and "D = [] \<longrightarrow> rest = []"
  shows "filter (\<lambda>r. ahead_opt b (row_key r) p) (rows @ D @ rest) = D @ rest"
proof -
  have "\<forall>r \<in> set rest. ahead_opt b (row_key r) p"
  proof
    fix r assume r: "r \<in> set rest"
    then obtain d where "d \<in> set D" using assms(4) by (cases D) auto
    then have "ahead b (row_key r) (row_key d)" "ahead_opt b (row_key d) p"
      using assms(1,3) r by (auto simp: scan.in_order_def sorted_wrt_append list_all_iff)
    then show "ahead_opt b (row_key r) p" by (rule ahead_opt_trans)
  qed
  then show ?thesis using assms(2,3) by (simp add: list_all_iff filter_empty_conv)
qed

lemma in_order_filter: "scan.in_order b (map row_key rows) \<Longrightarrow> scan.in_order b (map row_key (filter p rows))"
  by (simp add: scan.in_order_def sorted_wrt_map sorted_wrt_filter)

lemma scan_result_resumed:
  assumes db: "scan.in_order (ro_reversed self) (map row_key db)"
    and rows: "delivered_inv db self rows"
    and behind: "list_all (\<lambda>r. \<not> ahead_opt (ro_reversed self) (row_key r) (ro_progress self)) rows"
    and req: "continues (ro_original self) (ro_progress self) (ro_rows_returned self) req"
  shows "scan_result db req = drop (length rows) (scan_result db (ro_original self))"
proof -
  let ?orig = "ro_original self" and ?b = "ro_reversed self" and ?p = "ro_progress self"
  let ?all = "filter (\<lambda>r. request_selects ?orig (row_key r)) db"
  let ?D = "drop (length rows) (scan_result db ?orig)"
  obtain rest where all: "?all = scan_result db ?orig @ rest"
    and rest: "rest \<noteq> [] \<Longrightarrow> 0 < rr_rows_limit ?orig
        \<and> length (scan_result db ?orig) = nat (rr_rows_limit ?orig)"
    by (rule that [of "if rr_rows_limit ?orig > 0 then drop (nat (rr_rows_limit ?orig)) ?all else []"])
      (auto simp: scan_result_def split: if_splits)
  have wanted: "scan_result db ?orig = rows @ ?D"
    using rows by (metis append_take_drop_id delivered_inv_def)
  have left: "rr_rows_limit ?orig > 0 \<Longrightarrow> rr_rows_limit req = rr_rows_limit ?orig - int (length rows)
      \<and> 0 < rr_rows_limit req"
    and nolimit: "\<not> rr_rows_limit ?orig > 0 \<Longrightarrow> rr_rows_limit req = rr_rows_limit ?orig"
    using req rows by (auto simp: continues_def delivered_inv_def)
  have empty: "?D = [] \<longrightarrow> rest = []"
  proof
    assume "?D = []"
    then have "length (scan_result db ?orig) \<le> length rows" by simp
    then show "rest = []" using rest left by (cases rest) auto
  qed
  have parts: "?all = rows @ ?D @ rest" using all wanted by (metis append.assoc)
  have order: "scan.in_order ?b (map row_key (rows @ ?D @ rest))"
    unfolding parts [symmetric] by (rule in_order_filter [OF db])
  have "filter (\<lambda>r. request_selects req (row_key r)) db
      = filter (\<lambda>r. ahead_opt ?b (row_key r) ?p) ?all"
    using req by (auto simp: continues_def conj_commute intro: filter_cong)
  also have "\<dots> = ?D @ rest"
    unfolding parts using filter_beyond [OF order behind _ empty] rows by (simp add: delivered_inv_def)
  finally have sel: "filter (\<lambda>r. request_selects req (row_key r)) db = ?D @ rest" .
  show ?thesis
  proof (cases "rr_rows_limit ?orig > 0")
    case False
    then have "rest = []" using rest by blast
    then show ?thesis using sel nolimit False by (simp add: scan_result_def)
  next
    case True
    have len: "length (scan_result db ?orig) \<le> nat (rr_rows_limit ?orig)"
      using True by (simp add: scan_result_def)
    have "take (nat (rr_rows_limit req)) (?D @ rest) = ?D"
    proof (cases "rest = []")
      case True
      then show ?thesis using len left [OF \<open>rr_rows_limit ?orig > 0\<close>] by (auto simp: nat_diff_distrib)
    next
      case False
      then show ?thesis using rest left [OF True] by (simp add: nat_diff_distrib)
    qed
    then show ?thesis using left [OF True] sel by (simp add: scan_result_def)
  qed
qed

section \<open>What open returns\<close>

definition open_answer ::
    "ReadSide \<Rightarrow> (Error, OpenResult) result \<Rightarrow> ReadOperation \<Rightarrow> read_sent \<Rightarrow> bool" where
  "open_answer rd res self sent \<longleftrightarrow> (case res of
     Inl _ \<Rightarrow> True
   | Inr Complete \<Rightarrow> resume_request (ro_original self) (ro_progress self) (ro_rows_returned self) = None
   | Inr OpenCancelled \<Rightarrow> \<exists>n. rd_closed_opening rd n \<or> rd_closed_sleeping rd n
   | Inr (Active a) \<Rightarrow> rd_read_rows rd (ro_attempts self) (snd (snd (last sent))) = Streaming (aa_stream a))"

lemma open_answer_Inl [simp]: "open_answer rd (Inl e) self sent"
  by (simp add: open_answer_def)

lemma open_attempt_answer:
  assumes "open_attempt x rd sender self w sent = (Inl res, self', w', sent')"
  shows "open_answer rd res self' sent'"
proof (cases "resume_request (ro_original self) (ro_progress self) (ro_rows_returned self)")
  case None
  then have "res = Ok Complete" "only_telemetry self self'"
    using assms by (auto simp: open_attempt_def dest!: read_finish_only split: prod.splits)
  then show ?thesis using None by (simp add: open_answer_def only_telemetryD)
next
  case (Some message)
  obtain left self1 w1 where rem: "remaining x self w = (left, self1, w1)" by (metis prod_cases3)
  then show ?thesis
    using assms Some
    by (cases left) (auto simp: open_attempt_def open_answer_def Let_def dest!: read_finish_only
        split: prod.splits option.splits if_splits ReadReply.splits)
qed

lemma open_pause_answer:
  "open_pause x rd sender status self w = Some (Some res, self', w') \<Longrightarrow> open_answer rd res self' sent"
  by (auto simp: open_pause_def open_answer_def Let_def
      split: if_splits option.splits prod.splits sum.splits)

lemma read_open_answer:
  "read_open x rd sender self failure w sent = Some (res, self', w', sent')
   \<Longrightarrow> open_answer rd res self' sent'"
proof (induction x rd sender self failure w sent rule: read_open.induct)
  case (1 x rd sender self failure w sent)
  obtain t w1 where now: "now_instant (x_clock x) w = (t, w1)" by fastforce
  show ?case
  proof (cases "t \<ge> ro_deadline self")
    case True
    then show ?thesis
      using 1(2) now by (subst (asm) read_open.simps) (auto simp: Let_def split: prod.splits)
  next
    case False
    let ?pause = "case failure of None \<Rightarrow> Some (None, self, w1)
        | Some status \<Rightarrow> open_pause x rd sender status self w1"
    obtain r self1 w2 where pause: "?pause = Some (r, self1, w2)"
      using 1(2) now False by (subst (asm) read_open.simps) (auto split: option.splits)
    show ?thesis
    proof (cases r)
      case (Some res1)
      have "open_answer rd res1 self1 sent"
        using pause Some by (cases failure) (auto intro: open_pause_answer)
      moreover have "res = res1" "self' = self1" "sent' = sent"
        using 1(2) now False pause Some by (subst (asm) read_open.simps; simp)+
      ultimately show ?thesis by simp
    next
      case None
      obtain a self2 w3 sent2 where
        attempt: "open_attempt x rd sender self1 w2 sent = (a, self2, w3, sent2)"
        by (metis prod_cases4)
      show ?thesis
      proof (cases a)
        case (Inl res1)
        then have "res = res1" "self' = self2" "sent' = sent2"
          using 1(2) now False pause None attempt by (subst (asm) read_open.simps; simp)+
        then show ?thesis using open_attempt_answer [OF attempt [unfolded Inl]] by simp
      next
        case (Inr status)
        have "read_open x rd sender self2 (Some status) w3 sent2 = Some (res, self', w', sent')"
          using 1(2) now False pause None attempt Inr by (subst (asm) read_open.simps) simp
        then show ?thesis
          using 1(1) [OF refl now [symmetric] False pause refl None refl attempt [symmetric] Inr refl refl]
          by simp
      qed
    qed
  qed
qed

text \<open>The last request and the answer to it, when \<open>open\<close> returns an attempt.\<close>

lemma opened_last_request:
  assumes "opened self failure sent (Inr (Active a)) self' sent'"
  shows "\<exists>req. snd (snd (last sent')) = req
    \<and> resume_request (ro_original self) (ro_progress self) (ro_rows_returned self) = Some (sr_message req)"
proof -
  obtain new where "sent' = sent @ new" "new \<noteq> []"
    "list_all (\<lambda>(p, n, req). p = ro_progress self \<and> n = ro_rows_returned self
       \<and> resume_request (ro_original self) p n = Some (sr_message req)) new"
    by (rule openedE [OF assms]) simp
  moreover from this have "last new \<in> set new" "last sent' = last new" by simp_all
  ultimately show ?thesis by (cases "last new") (auto simp: list_all_iff)
qed

section \<open>The whole read\<close>

text \<open>
  The other side keeps its contract: every reply serves its request, and the application takes
  all rows and does not close its stream.
\<close>

definition faithful :: "Row list \<Rightarrow> ReadSide \<Rightarrow> bool" where
  "faithful db rd \<longleftrightarrow> (\<forall>n req items. rd_read_rows rd n req = Streaming items \<longrightarrow>
       serves db (sr_message req) items \<and> ReceiverClosed \<notin> set items)
   \<and> (\<forall>n. rd_takes rd n) \<and> (\<forall>n. \<not> rd_closed_opening rd n \<and> \<not> rd_closed_sleeping rd n)"

definition complete_delivery :: "Row list \<Rightarrow> delivered \<Rightarrow> bool" where
  "complete_delivery wanted out \<longleftrightarrow> (\<exists>n errors. out = map Inr (take n wanted) @ map Inl errors
     \<and> length errors \<le> 1 \<and> (errors = [] \<longrightarrow> take n wanted = wanted))"

lemma complete_deliveryI:
  "complete_delivery wanted (map Inr wanted)"
  "rows = take (length rows) wanted \<Longrightarrow> complete_delivery wanted (map Inr rows @ [Inl e])"
proof -
  show "complete_delivery wanted (map Inr wanted)"
    unfolding complete_delivery_def by (intro exI [of _ "length wanted"] exI [of _ "[]"]) simp
  assume "rows = take (length rows) wanted"
  then show "complete_delivery wanted (map Inr rows @ [Inl e])"
    unfolding complete_delivery_def by (intro exI [of _ "length rows"] exI [of _ "[e]"]) simp
qed

lemma nothing_left_done:
  assumes "nothing_left (ro_original self) (ro_progress self) (ro_rows_returned self)"
    and rows: "delivered_inv db self rows"
  shows "rows = scan_result db (ro_original self)"
proof -
  let ?wanted = "scan_result db (ro_original self)"
  have "drop (length rows) ?wanted = []"
  proof (rule ccontr)
    assume "drop (length rows) ?wanted \<noteq> []"
    then obtain r where r: "r \<in> set (drop (length rows) ?wanted)"
      by (cases "drop (length rows) ?wanted") auto
    then have "ahead_opt (ro_reversed self) (row_key r) (ro_progress self)"
      using rows by (auto simp: delivered_inv_def list_all_iff)
    moreover have "request_selects (ro_original self) (row_key r)"
      using in_set_dropD [OF r] by (auto simp: scan_result_def Let_def split: if_splits dest: in_set_takeD)
    ultimately have "rr_rows_limit (ro_original self) > 0"
      "int (length rows) \<ge> rr_rows_limit (ro_original self)"
      using assms by (auto simp: nothing_left_def delivered_inv_def)
    then have "length ?wanted \<le> length rows" by (simp add: scan_result_def)
    then show False using r by simp
  qed
  then show ?thesis using rows by (metis append_Nil2 append_take_drop_id delivered_inv_def)
qed

text \<open>An attempt whose request asks for what is left.\<close>

lemma attempt_complete:
  assumes items: "read_items x rd self active items w (map Inr rows) = (e, self', w', out')"
    and inv: "read_inv self sent rows" and rows: "delivered_inv db self rows"
    and new: "m_state (ro_merger self) = NewRow"
    and serves: "serves db req items" and reversed: "rr_reversed req = ro_reversed self"
    and left: "scan_result db req = drop (length rows) (scan_result db (ro_original self))"
    and side: "\<forall>n. rd_takes rd n" "ReceiverClosed \<notin> set items"
  shows "(e = TaskEnds \<and> complete_delivery (scan_result db (ro_original self)) out')
    \<or> (\<exists>status rows'. e = AttemptFails status \<and> out' = map Inr rows' \<and> read_inv self' sent rows'
        \<and> delivered_inv db self' rows' \<and> m_state (ro_merger self') = NewRow
        \<and> same_request self self')"
proof -
  let ?wanted = "scan_result db (ro_original self)" and ?b = "ro_reversed self"
  have m: "merger_inv (ro_merger self)" "m_reversed (ro_merger self) = ?b"
    "ro_progress self = m_last_complete_key (ro_merger self)"
    using inv by (auto simp: read_inv_def)
  have ahead: "list_all (\<lambda>r. ahead_opt (rr_reversed req) (row_key r) (m_last_complete_key (ro_merger self)))
      (scan_result db req)"
    using rows m(3) by (simp add: left reversed delivered_inv_def)
  obtain n m' where run: "merge_run (ro_merger self) (reply_ops items) = (take n (scan_result db req), Ok m')"
    and beyond: "list_all (\<lambda>r. ahead_opt (rr_reversed req) (row_key r) (m_last_complete_key m'))
        (drop n (scan_result db req))"
    and all: "list_all is_message items \<Longrightarrow> length (scan_result db req) \<le> n \<and> m_state m' = NewRow"
    using serves m(1,2) new ahead unfolding serves_def reversed by blast
  let ?got = "take n (drop (length rows) ?wanted)"
  have end1: "items_end self (map Inr rows) ?got m' (list_all is_message items) e self' out'"
    using read_items_run [OF items run m(1,3) side] by (simp add: left)
  have take: "rows @ ?got = take (length rows + n) ?wanted"
    using rows by (metis delivered_inv_def take_add)
  have parts: "rows @ take k ?got = take (length (rows @ take k ?got)) ?wanted" for k
  proof -
    have "rows @ take k ?got = take (length rows + min k n) ?wanted"
      using rows by (metis delivered_inv_def take_add take_take)
    then show ?thesis by (metis length_take min.cobounded2 min_def take_all_iff take_take)
  qed
  show ?thesis
    using end1 unfolding items_end_def
  proof (elim disjE conjE exE)
    fix k
    assume e: "e = TaskEnds" "k \<le> length ?got" "out' = map Inr rows @ map Inr (take k ?got)"
      and limit: "0 < rr_rows_limit (ro_original self)"
        "rr_rows_limit (ro_original self) \<le> ro_rows_returned self + int k"
    have "length ?wanted \<le> length (rows @ take k ?got)"
      using limit rows e(2) by (simp add: scan_result_def delivered_inv_def)
    then have "rows @ take k ?got = ?wanted" using parts [of k] by (metis take_all)
    then show ?thesis using e complete_deliveryI(1) [of ?wanted] by (metis map_append)
  next
    assume e: "e = TaskEnds" and ended: "list_all is_message items"
      "if m_state m' = NewRow then out' = map Inr rows @ map Inr ?got
       else \<exists>error. out' = map Inr rows @ map Inr ?got @ [Inl error]"
    then have "length (drop (length rows) ?wanted) \<le> n" "m_state m' = NewRow"
      using all by (simp_all add: left)
    then have "?got = drop (length rows) ?wanted" "out' = map Inr (rows @ ?got)"
      using ended(2) by simp_all
    then have "out' = map Inr ?wanted"
      using rows by (metis append_take_drop_id delivered_inv_def)
    then show ?thesis using e complete_deliveryI(1) by simp
  next
    fix status
    assume e: "e = AttemptFails status" "out' = map Inr rows @ map Inr ?got"
      and self': "self' = self\<lparr>ro_merger := discard_partial m',
        ro_rows_returned := ro_rows_returned self + int (length ?got),
        ro_progress := m_last_complete_key m'\<rparr>"
    have fails: "out' = map Inr (rows @ ?got)" using e by simp
    have count: "ro_rows_returned self = int (length rows)" using rows by (simp add: delivered_inv_def)
    obtain rows' where "out' = map Inr rows'" "read_inv self' sent rows'"
      using read_items_inv [OF items inv count] e(1) by blast
    then have inv': "read_inv self' sent (rows @ ?got)"
      using fails by (metis inj_map_eq_map inj_Inr)
    have got: "rows @ ?got = take (length (rows @ ?got)) ?wanted"
      using parts [of n] by (simp only: take_take min.idem)
    have rest: "drop (length (rows @ ?got)) ?wanted = drop n (drop (length rows) ?wanted)"
      by (auto simp: min_def add.commute)
    have same: "ro_original self' = ro_original self" "ro_reversed self' = ro_reversed self"
      "ro_progress self' = m_last_complete_key m'"
      "ro_rows_returned self' = int (length (rows @ ?got))"
      by (simp_all add: self' count)
    have "delivered_inv db self' (rows @ ?got)"
      unfolding delivered_inv_def same rest
      by (intro conjI got refl) (use beyond in \<open>simp add: left reversed\<close>)
    moreover have "m_state (ro_merger self') = NewRow" "same_request self self'"
      by (simp_all add: self' discard_partial_def same_request_def)
    ultimately show ?thesis using e(1) fails inv' by blast
  qed
qed

lemma same_request_original: "same_request self self' \<Longrightarrow> ro_original self' = ro_original self"
  by (simp add: same_request_def)

text \<open>What a reopened attempt asks for, and what it is answered.\<close>

lemma reopened:
  assumes op: "read_open x rd sender self failure w sent = Some (Inr (Active a), self', w', sent')"
    and inv: "read_inv self sent rows" and rows: "delivered_inv db self rows"
    and db: "scan.in_order (ro_reversed self) (map row_key db)" and side: "faithful db rd"
  obtains req where "serves db req (aa_stream a)" and "ReceiverClosed \<notin> set (aa_stream a)"
    and "rr_reversed req = ro_reversed self'"
    and "scan_result db req = drop (length rows) (scan_result db (ro_original self'))"
    and "delivered_inv db self' rows" and "read_inv self' sent' rows"
    and "ro_merger self' = ro_merger self" and "ro_original self' = ro_original self"
proof -
  note opened = read_open_opened [OF op]
  obtain new :: read_sent where
    only: "only_telemetry (self\<lparr>ro_attempts := ro_attempts self + of_nat (length new)\<rparr>) self'"
    by (rule openedE [OF opened])
  note same = only_telemetryD [OF only, simplified]
  obtain req where req: "resume_request (ro_original self) (ro_progress self) (ro_rows_returned self)
        = Some (sr_message req)" "req = snd (snd (last sent'))"
    using opened_last_request [OF opened] by blast
  have cont: "continues (ro_original self) (ro_progress self) (ro_rows_returned self) (sr_message req)"
    using resume_request_cases [of "ro_original self" "ro_progress self" "ro_rows_returned self"] req
    by simp
  have "rd_read_rows rd (ro_attempts self') req = Streaming (aa_stream a)"
    using read_open_answer [OF op] req(2) by (simp add: open_answer_def)
  then have serves: "serves db (sr_message req) (aa_stream a)" "ReceiverClosed \<notin> set (aa_stream a)"
    using side by (auto simp: faithful_def)
  have inv': "read_inv self' sent' rows"
    using opened_inv [OF opened inv] rows by (simp add: delivered_inv_def)
  have behind: "list_all (\<lambda>r. \<not> ahead_opt (ro_reversed self) (row_key r) (ro_progress self)) rows"
    using inv by (auto simp: read_inv_def)
  have "scan_result db (sr_message req) = drop (length rows) (scan_result db (ro_original self))"
    by (rule scan_result_resumed [OF db rows behind cont])
  moreover have "rr_reversed (sr_message req) = ro_reversed self"
    using cont by (simp add: continues_def)
  moreover have "delivered_inv db self' rows" using rows same by (simp add: delivered_inv_def)
  ultimately show thesis using that [OF serves] same inv' by simp
qed

lemma read_run_complete:
  assumes "read_run x rd self active w sent (map Inr rows) = Some (self', w', sent', out')"
    and "read_inv self sent rows" and "delivered_inv db self rows"
    and "m_state (ro_merger self) = NewRow"
    and "serves db req (aa_stream active)" and "ReceiverClosed \<notin> set (aa_stream active)"
    and "rr_reversed req = ro_reversed self"
    and "scan_result db req = drop (length rows) (scan_result db (ro_original self))"
    and "scan.in_order (ro_reversed self) (map row_key db)"
    and "faithful db rd"
  shows "complete_delivery (scan_result db (ro_original self)) out'"
  using assms
proof (induction x rd self active w sent "map Inr rows :: delivered" arbitrary: rows req rule: read_run.induct)
  case (1 x rd self active w sent)
  obtain e self1 w1 out1 where
    items: "read_items x rd self active (aa_stream active) w (map Inr rows) = (e, self1, w1, out1)"
    by (metis prod_cases4)
  let ?wanted = "scan_result db (ro_original self)"
  have takes: "\<forall>n. rd_takes rd n" using 1(11) by (simp add: faithful_def)
  consider (ends) "e = TaskEnds" "complete_delivery ?wanted out1"
    | (fails) status rows1 where "e = AttemptFails status" "out1 = map Inr rows1"
        "read_inv self1 sent rows1" "delivered_inv db self1 rows1"
        "m_state (ro_merger self1) = NewRow" "same_request self self1"
    using attempt_complete [OF items 1(3-6,8,9) takes 1(7)] by blast
  then show ?case
  proof cases
    case ends
    then show ?thesis using 1(2) items by (subst (asm) read_run.simps) simp
  next
    case fails
    note same = same_request_original [OF fails(6)]
    obtain res self2 w2 sent2 where
      op: "read_open x rd True self1 (Some status) w1 sent = Some (res, self2, w2, sent2)"
      using 1(2) items fails(1) by (subst (asm) read_run.simps) (auto split: option.splits)
    have part: "rows1 = take (length rows1) ?wanted"
      using fails(4) same by (simp add: delivered_inv_def)
    show ?thesis
    proof (cases "\<exists>a. res = Inr (Active a)")
      case True
      then obtain a where a: "res = Inr (Active a)" by blast
      have db1: "scan.in_order (ro_reversed self1) (map row_key db)"
        using 1(10) same by simp
      obtain req' where req': "serves db req' (aa_stream a)" "ReceiverClosed \<notin> set (aa_stream a)"
        "rr_reversed req' = ro_reversed self2"
        "scan_result db req' = drop (length rows1) (scan_result db (ro_original self2))"
        "delivered_inv db self2 rows1" "read_inv self2 sent2 rows1"
        "ro_merger self2 = ro_merger self1" "ro_original self2 = ro_original self1"
        by (rule reopened [OF op [unfolded a] fails(3,4) db1 1(11)])
      have "read_run x rd self2 a w2 sent2 (map Inr rows1) = Some (self', w', sent', out')"
        using 1(2) items fails(1,2) op a by (subst (asm) read_run.simps) simp
      then have "complete_delivery (scan_result db (ro_original self2)) out'"
        using 1(1) [OF items [unfolded fails(2), symmetric] fails(1) refl refl op refl a refl refl refl]
          req' fails(5) 1(11) db1 by simp
      then show ?thesis using req'(8) same by simp
    next
      case False
      then consider (complete) "res = Inr Complete" | (cancelled) "res = Inr OpenCancelled"
        | (error) err where "res = Inl err"
        by (cases res; cases "projr res") auto
      then show ?thesis
      proof cases
        case complete
        have "resume_request (ro_original self2) (ro_progress self2) (ro_rows_returned self2) = None"
          using read_open_answer [OF op] complete by (simp add: open_answer_def)
        moreover obtain new :: read_sent where
          only: "only_telemetry (self1\<lparr>ro_attempts := ro_attempts self1 + of_nat (length new)\<rparr>) self2"
          by (rule openedE [OF read_open_opened [OF op]])
        note only_telemetryD [OF only, simplified]
        ultimately have "nothing_left (ro_original self1) (ro_progress self1) (ro_rows_returned self1)"
          using resume_request_cases [of "ro_original self1" "ro_progress self1" "ro_rows_returned self1"]
          by simp
        then have "rows1 = ?wanted" using nothing_left_done fails(4) same by metis
        moreover have "out' = map Inr rows1"
          using 1(2) items fails(1,2) op complete by (subst (asm) read_run.simps) simp
        ultimately show ?thesis using complete_deliveryI(1) by simp
      next
        case cancelled
        then show ?thesis using read_open_answer [OF op] 1(11) by (auto simp: open_answer_def faithful_def)
      next
        case error
        have "out' = map Inr rows1 @ [Inl err]"
          using 1(2) items fails(1,2) op error by (subst (asm) read_run.simps) simp
        then show ?thesis using complete_deliveryI(2) [OF part] by simp
      qed
    qed
  qed
qed

section \<open>A service that serves\<close>

text \<open>
  A service that answers with the first \<open>n\<close> rows of the result and then breaks off, or with
  all of them.
\<close>

definition reply_rows :: "Row list \<Rightarrow> ReadItem" where
  "reply_rows rows = Message \<lparr>rsp_chunks = concat (map encode_row rows), rsp_last_scanned_row_key = []\<rparr>"

definition broken_reply :: "Row list \<Rightarrow> nat \<Rightarrow> ReadRowsRequest \<Rightarrow> ReadItem list" where
  "broken_reply db n req = [reply_rows (take n (scan_result db req)),
     ReadError \<lparr>st_code = Unavailable, st_message = [], st_details = []\<rparr>]"

definition full_reply :: "Row list \<Rightarrow> ReadRowsRequest \<Rightarrow> ReadItem list" where
  "full_reply db req = [reply_rows (scan_result db req)]"

lemma merge_prefix:
  assumes db: "list_all row_ok db" "scan.in_order b (map row_key db)"
    and m: "merger_inv m" "m_state m = NewRow" "m_reversed m = b"
    and ahead: "list_all (\<lambda>r. ahead_opt b (row_key r) (m_last_complete_key m)) (scan_result db req)"
  shows "\<exists>m'. merge_run m (map PushChunk (concat (map encode_row (take n (scan_result db req)))))
      = (take n (scan_result db req), Ok m') \<and> m_state m' = NewRow
    \<and> list_all (\<lambda>r. ahead_opt b (row_key r) (m_last_complete_key m')) (drop n (scan_result db req))"
proof -
  let ?rows = "scan_result db req"
  have order: "scan.in_order b (map row_key ?rows)"
    using in_order_filter [OF db(2), of "\<lambda>r. request_selects req (row_key r)"]
    by (auto simp: scan_result_def Let_def scan.in_order_def take_map [symmetric] intro: sorted_wrt_take)
  have ok: "list_all row_ok ?rows"
    using db(1) by (auto simp: scan_result_def Let_def list_all_iff dest: in_set_takeD)
  have split: "scan.in_order b (map row_key (take n ?rows @ drop n ?rows))" using order by simp
  have "between_rows b (m_last_complete_key m) m"
    using m by (simp add: between_rows_def merger_inv_def)
  moreover have "list_all row_ok (take n ?rows)" "scan.in_order b (map row_key (take n ?rows))"
    "list_all (\<lambda>r. ahead_opt b (row_key r) (m_last_complete_key m)) (take n ?rows)"
    using ok ahead order
    by (auto simp: list_all_iff scan.in_order_def sorted_wrt_map sorted_wrt_take dest: in_set_takeD)
  ultimately obtain m' where m':
    "merge_run m (map PushChunk (concat (map encode_row (take n ?rows)))) = (take n ?rows, Ok m')"
    "between_rows b (if take n ?rows = [] then m_last_complete_key m
       else Some (row_key (last (take n ?rows)))) m'"
    using merge_encoded_rows by blast
  have "list_all (\<lambda>r. ahead_opt b (row_key r) (m_last_complete_key m')) (drop n ?rows)"
  proof (cases "take n ?rows = []")
    case True
    then show ?thesis using ahead m'(2) by (auto simp: list_all_iff between_rows_def dest: in_set_dropD)
  next
    case False
    have "m_last_complete_key m' = Some (row_key (last (take n ?rows)))"
      using m'(2) False by (simp add: between_rows_def)
    moreover have "ahead b (row_key r) (row_key (last (take n ?rows)))" if "r \<in> set (drop n ?rows)" for r
    proof -
      have "sorted_wrt (\<lambda>k l. ahead b l k) (map row_key (take n ?rows) @ map row_key (drop n ?rows))"
        using split unfolding scan.in_order_def map_append .
      then show ?thesis using that last_in_set [OF False] unfolding sorted_wrt_append by auto
    qed
    ultimately show ?thesis by (simp add: list_all_iff)
  qed
  then show ?thesis using m' by (auto simp: between_rows_def)
qed

lemma replies_serve:
  assumes "list_all row_ok db" "scan.in_order (rr_reversed req) (map row_key db)"
  shows "serves db req (broken_reply db n req)" and "serves db req (full_reply db req)"
proof -
  show "serves db req (broken_reply db n req)"
    unfolding serves_def
  proof (intro allI impI, elim conjE)
    fix m
    assume m: "merger_inv m" "m_state m = NewRow" "m_reversed m = rr_reversed req"
      "list_all (\<lambda>r. ahead_opt (rr_reversed req) (row_key r) (m_last_complete_key m)) (scan_result db req)"
    show "\<exists>k m'. merge_run m (reply_ops (broken_reply db n req)) = (take k (scan_result db req), Ok m')
        \<and> list_all (\<lambda>r. ahead_opt (rr_reversed req) (row_key r) (m_last_complete_key m'))
            (drop k (scan_result db req))
        \<and> (list_all is_message (broken_reply db n req) \<longrightarrow>
            length (scan_result db req) \<le> k \<and> m_state m' = NewRow)"
      using merge_prefix [OF assms m, of n]
      by (intro exI [of _ n]) (auto simp: broken_reply_def reply_rows_def reply_ops_def)
  qed
  show "serves db req (full_reply db req)"
    unfolding serves_def
  proof (intro allI impI, elim conjE)
    fix m
    assume m: "merger_inv m" "m_state m = NewRow" "m_reversed m = rr_reversed req"
      "list_all (\<lambda>r. ahead_opt (rr_reversed req) (row_key r) (m_last_complete_key m)) (scan_result db req)"
    show "\<exists>k m'. merge_run m (reply_ops (full_reply db req)) = (take k (scan_result db req), Ok m')
        \<and> list_all (\<lambda>r. ahead_opt (rr_reversed req) (row_key r) (m_last_complete_key m'))
            (drop k (scan_result db req))
        \<and> (list_all is_message (full_reply db req) \<longrightarrow>
            length (scan_result db req) \<le> k \<and> m_state m' = NewRow)"
      using merge_prefix [OF assms m, of "length (scan_result db req)"]
      by (intro exI [of _ "length (scan_result db req)"])
        (auto simp: full_reply_def reply_rows_def reply_ops_def)
  qed
qed

section \<open>Properties\<close>

lemma delivered_inv_new:
  "delivered_inv db (read_operation_new original routing options deadline tracker) []"
  by (simp add: delivered_inv_def read_operation_new_def Let_def list_all_iff)

lemma opened_original:
  assumes "opened self failure sent res self' sent'"
  shows "ro_original self' = ro_original self" "ro_merger self' = ro_merger self"
    "ro_progress self' = ro_progress self" "ro_rows_returned self' = ro_rows_returned self"
proof -
  obtain new :: read_sent where
    only: "only_telemetry (self\<lparr>ro_attempts := ro_attempts self + of_nat (length new)\<rparr>) self'"
    by (rule openedE [OF assms])
  show "ro_original self' = ro_original self" "ro_merger self' = ro_merger self"
    "ro_progress self' = ro_progress self" "ro_rows_returned self' = ro_rows_returned self"
    using only_telemetryD [OF only] by simp_all
qed

lemma read_start_complete:
  assumes run: "read_start x rd config query options w = Some (Ok out, w', sent)"
    and side: "faithful db rd" and db: "scan.in_order (q_reversed query) (map row_key db)"
  shows "complete_delivery (scan_result db (into_request query config)) out"
proof -
  let ?request = "into_request query config"
  have rev: "rr_reversed ?request = q_reversed query" by (simp add: into_request_def Let_def)
  from run show ?thesis
  proof (cases rule: read_start_cases)
    case (refused error)
    then show ?thesis by simp
  next
    case (unopened r routing deadline tracker w1 self' w2)
    let ?op = "read_operation_new ?request routing options deadline tracker"
    note same = opened_original [OF read_open_opened [OF unopened(3)]]
    note answer = read_open_answer [OF unopened(3)]
    have out: "out = []" "\<exists>u. r = Inr u" using unopened(4) by (auto split: sum.splits)
    then have "r = Inr Complete"
      using unopened(5) answer side
      by (cases "projr r") (auto simp: open_answer_def faithful_def)
    then have "resume_request (ro_original ?op) (ro_progress ?op) (ro_rows_returned ?op) = None"
      using answer same by (simp add: open_answer_def)
    then have "nothing_left (ro_original ?op) (ro_progress ?op) (ro_rows_returned ?op)"
      using resume_request_cases [of "ro_original ?op" "ro_progress ?op" "ro_rows_returned ?op"] by simp
    then have "[] = scan_result db ?request"
      using nothing_left_done [OF _ delivered_inv_new] by simp
    then show ?thesis using complete_deliveryI(1) [of "[]"] out(1) by simp
  next
    case (running active routing deadline tracker w1 self1 w2 sent1 self' w3 out1)
    let ?op = "read_operation_new ?request routing options deadline tracker"
    have db': "scan.in_order (ro_reversed ?op) (map row_key db)" using db rev by simp
    obtain req where req: "serves db req (aa_stream active)" "ReceiverClosed \<notin> set (aa_stream active)"
      "rr_reversed req = ro_reversed self1"
      "scan_result db req = drop (length ([] :: Row list)) (scan_result db (ro_original self1))"
      "delivered_inv db self1 []" "read_inv self1 sent1 []" "ro_merger self1 = ro_merger ?op"
      "ro_original self1 = ro_original ?op"
      by (rule reopened [OF running(3) read_inv_new delivered_inv_new db' side])
    have "m_state (ro_merger self1) = NewRow"
      using req(7) by (simp add: read_operation_new_def Let_def)
    then have "complete_delivery (scan_result db (ro_original self1)) out1"
      using read_run_complete [of x rd self1 active w2 sent1 "[]" self' w3 sent out1 db req]
        running(4) req side db' by simp
    then show ?thesis using req(8) running(5) by simp
  qed
qed

text \<open>
  C1. A read against a service that answers each request with rows of the table it asks for,
  in order, and an application that keeps listening: the read ends, and when it is not
  refused, what it delivers is the result of the query on the table, row by row and without
  gaps or repetitions, however many attempts break off in between; a delivery that is not
  the whole result, up to the query's limit, ends with an error.
\<close>

theorem faithful_read_delivers_result:
  assumes "faithful db rd" and "scan.in_order (q_reversed query) (map row_key db)"
    and "max_backoff (ro_retry options) < 2 ^ 63 * nanos_per_sec" and "powi64_nonneg (x_powi x)"
  shows "\<exists>res w' sent. read_start x rd config query options w = Some (res, w', sent)
    \<and> (case res of Inl _ \<Rightarrow> True
       | Inr out \<Rightarrow> complete_delivery (scan_result db (into_request query config)) out)"
proof -
  have "read_start x rd config query options w \<noteq> None" by (rule read_start_returns [OF assms(3,4)])
  then obtain res w' sent where run: "read_start x rd config query options w = Some (res, w', sent)"
    by auto
  then show ?thesis using read_start_complete [OF _ assms(1,2)] by (auto split: sum.split)
qed

text \<open>A table of two rows, whose first request is answered with one of them.\<close>

definition sample_table_side :: ReadSide where
  "sample_table_side = \<lparr>rd_read_rows = (\<lambda>attempt request.
       if rr_reversed (sr_message request) then Streaming [ReadError \<lparr>st_code = Unavailable,
            st_message = [], st_details = []\<rparr>]
       else if attempt = 1 then Streaming (broken_reply sample_rows 1 (sr_message request))
       else Streaming (full_reply sample_rows (sr_message request))),
     rd_closed_opening = (\<lambda>_. False), rd_closed_sleeping = (\<lambda>_. False), rd_takes = (\<lambda>_. True)\<rparr>"

lemma broken_off_serves: "serves db req [ReadError status]"
  unfolding serves_def by (auto simp: reply_ops_def intro!: exI [of _ 0])

lemma sample_rows_ok: "list_all row_ok sample_rows" "scan.in_order False (map row_key sample_rows)"
  by (simp_all add: sample_rows_def sample_cell_def row_ok_def families_ok_def family_ok_def
      scan.in_order_def ahead_def)

lemma sample_table_side_faithful: "faithful sample_rows sample_table_side"
  using replies_serve [OF sample_rows_ok(1)] sample_rows_ok(2) broken_off_serves
  by (auto simp: faithful_def sample_table_side_def broken_reply_def full_reply_def reply_rows_def)

theorem faithful_read_delivers_result_witness:
  "\<exists>res w' sent. read_start sample_env sample_table_side sample_config
       (sample_query\<lparr>q_row_keys := [[1], [1, 0]]\<rparr>) read_options_default sample_world = Some (res, w', sent)
     \<and> (case res of Inl _ \<Rightarrow> True
        | Inr out \<Rightarrow> complete_delivery (scan_result sample_rows
            (into_request (sample_query\<lparr>q_row_keys := [[1], [1, 0]]\<rparr>) sample_config)) out)"
  by (rule faithful_read_delivers_result [OF sample_table_side_faithful])
    (simp_all add: sample_rows_ok sample_query_def sample_env_def sample_powi_nonneg
      read_options_default_def retry_policy_default_def secs_def nanos_per_sec_def)

end
