(* ===== verification/RowMapping.thy ===== *)
theory RowMapping
  imports Rows
begin

text \<open>
  \<open>mapping.rs\<close>: decoding of row keys and cells. First the text decoders of the standard
  library that the \<open>FromCellValue\<close> implementations call, then \<open>RowDecoder\<close> and the typed row
  stream. A type that implements \<open>FromCellValue\<close>, \<open>FromJsonValue\<close> or \<open>FromRow\<close> is its decoding
  function, an argument; JSON itself is decoded by an external crate.
\<close>

section \<open>UTF-8\<close>

definition as_bytes :: "string \<Rightarrow> bytes" where "as_bytes = map (\<lambda>c. of_nat (of_char c))"

definition str_of_bytes :: "bytes \<Rightarrow> string" where "str_of_bytes = map (\<lambda>b. char_of (unat b))"

text \<open>
  \<open>std::str::from\_utf8\<close>: the length of the sequence that its first byte opens, and which
  second bytes may follow it (no overlong forms, no surrogates, nothing above U+10FFFF).
\<close>

definition utf8_width :: "u8 \<Rightarrow> nat" where
  "utf8_width a = (if a < 0x80 then 1 else if 0xC2 \<le> a \<and> a \<le> 0xDF then 2
     else if 0xE0 \<le> a \<and> a \<le> 0xEF then 3 else if 0xF0 \<le> a \<and> a \<le> 0xF4 then 4 else 0)"

definition utf8_continues :: "u8 \<Rightarrow> bool" where
  "utf8_continues b \<longleftrightarrow> 0x80 \<le> b \<and> b \<le> 0xBF"

definition utf8_second :: "u8 \<Rightarrow> u8 \<Rightarrow> bool" where
  "utf8_second a b = (if a = 0xE0 then 0xA0 \<le> b \<and> b \<le> 0xBF
     else if a = 0xED then 0x80 \<le> b \<and> b \<le> 0x9F
     else if a = 0xF0 then 0x90 \<le> b \<and> b \<le> 0xBF
     else if a = 0xF4 then 0x80 \<le> b \<and> b \<le> 0x8F
     else utf8_continues b)"

text \<open>
  The first sequence of a text: its length, or for how many bytes it is broken, where
  \<open>None\<close> says that the input ended.
\<close>

fun utf8_rest :: "nat \<Rightarrow> nat \<Rightarrow> bytes \<Rightarrow> (nat option, nat) result" where
  "utf8_rest 0 n bs = Ok n"
| "utf8_rest (Suc k) n [] = Err None"
| "utf8_rest (Suc k) n (b # bs) = (if utf8_continues b then utf8_rest k (n + 1) bs else Err (Some n))"

definition utf8_char :: "u8 \<Rightarrow> bytes \<Rightarrow> (nat option, nat) result" where
  "utf8_char a bs =
     (if utf8_width a = 1 then Ok 1
      else if utf8_width a = 0 then Err (Some 1)
      else case bs of
        [] \<Rightarrow> Err None
      | b # bs \<Rightarrow> if utf8_second a b then utf8_rest (utf8_width a - 2) 2 bs else Err (Some 1))"

lemma utf8_rest_length: "utf8_rest k n bs = Inr m \<Longrightarrow> m = n + k \<and> k \<le> length bs"
  by (induction k n bs rule: utf8_rest.induct) (auto split: if_splits)

lemma utf8_char_length: "utf8_char a bs = Inr n \<Longrightarrow> 0 < n \<and> n \<le> Suc (length bs)"
  by (auto simp: utf8_char_def utf8_width_def dest!: utf8_rest_length split: if_splits list.splits)

record Utf8Error =
  u8e_valid_up_to :: nat
  u8e_error_len :: "nat option"

function utf8_check :: "nat \<Rightarrow> bytes \<Rightarrow> Utf8Error option" where
  "utf8_check index [] = None"
| "utf8_check index (a # bs) = (case utf8_char a bs of
     Inl len \<Rightarrow> Some \<lparr>u8e_valid_up_to = index, u8e_error_len = len\<rparr>
   | Inr n \<Rightarrow> utf8_check (index + n) (drop n (a # bs)))"
  by pat_completeness auto
termination
  by (relation "measure (\<lambda>(index, bs). length bs)") (auto dest: utf8_char_length)

definition from_utf8 :: "bytes \<Rightarrow> (Utf8Error, string) result" where
  "from_utf8 bs = (case utf8_check 0 bs of Some e \<Rightarrow> Err e | None \<Rightarrow> Ok (str_of_bytes bs))"

definition show_utf8_error :: "Utf8Error \<Rightarrow> string" where
  "show_utf8_error e = (case u8e_error_len e of
     Some n \<Rightarrow> ''invalid utf-8 sequence of '' @ show_nat n @ '' bytes from index ''
       @ show_nat (u8e_valid_up_to e)
   | None \<Rightarrow> ''incomplete utf-8 byte sequence from index '' @ show_nat (u8e_valid_up_to e))"

section \<open>Booleans and integers from text\<close>

text \<open>\<open>bool::from\_str\<close> and the \<open>from\_str\<close> of the integer types, which share one macro.\<close>

definition bool_from_str :: "string \<Rightarrow> (string, bool) result" where
  "bool_from_str s = (if s = ''true'' then Ok True else if s = ''false'' then Ok False
     else Err ''provided string was not `true` or `false`'')"

datatype IntErrorKind = EmptyInt | InvalidDigit | PosOverflow | NegOverflow

fun show_int_error :: "IntErrorKind \<Rightarrow> string" where
  "show_int_error EmptyInt = ''cannot parse integer from empty string''"
| "show_int_error InvalidDigit = ''invalid digit found in string''"
| "show_int_error PosOverflow = ''number too large to fit in target type''"
| "show_int_error NegOverflow = ''number too small to fit in target type''"

datatype IntType = I8 | I16 | I32 | I64 | I128 | Isize | U8 | U16 | U32 | U64 | U128 | Usize

fun int_type_name :: "IntType \<Rightarrow> string" where
  "int_type_name I8 = ''i8''" | "int_type_name I16 = ''i16''" | "int_type_name I32 = ''i32''"
| "int_type_name I64 = ''i64''" | "int_type_name I128 = ''i128''" | "int_type_name Isize = ''isize''"
| "int_type_name U8 = ''u8''" | "int_type_name U16 = ''u16''" | "int_type_name U32 = ''u32''"
| "int_type_name U64 = ''u64''" | "int_type_name U128 = ''u128''" | "int_type_name Usize = ''usize''"

text \<open>\<open>isize\<close> and \<open>usize\<close> have 64 bits.\<close>

fun int_bits :: "IntType \<Rightarrow> nat" where
  "int_bits I8 = 8" | "int_bits I16 = 16" | "int_bits I32 = 32" | "int_bits I64 = 64"
| "int_bits I128 = 128" | "int_bits Isize = 64"
| "int_bits U8 = 8" | "int_bits U16 = 16" | "int_bits U32 = 32" | "int_bits U64 = 64"
| "int_bits U128 = 128" | "int_bits Usize = 64"

definition int_signed :: "IntType \<Rightarrow> bool" where
  "int_signed t \<longleftrightarrow> t \<in> {I8, I16, I32, I64, I128, Isize}"

definition int_min :: "IntType \<Rightarrow> int" where
  "int_min t = (if int_signed t then - (2 ^ (int_bits t - 1)) else 0)"

definition int_max :: "IntType \<Rightarrow> int" where
  "int_max t = (if int_signed t then 2 ^ (int_bits t - 1) - 1 else 2 ^ int_bits t - 1)"

definition to_digit :: "char \<Rightarrow> int option" where
  "to_digit c = (let n = (of_char c :: nat)
     in if 48 \<le> n \<and> n \<le> 57 then Some (int (n - 48)) else None)"

definition in_int_type :: "IntType \<Rightarrow> int \<Rightarrow> bool" where
  "in_int_type t n \<longleftrightarrow> int_min t \<le> n \<and> n \<le> int_max t"

fun parse_digits :: "IntType \<Rightarrow> bool \<Rightarrow> int \<Rightarrow> string \<Rightarrow> (IntErrorKind, int) result" where
  "parse_digits t positive result [] = Ok result"
| "parse_digits t positive result (c # cs) =
     (let mul = result * 10; overflow = (if positive then PosOverflow else NegOverflow)
      in case to_digit c of
           None \<Rightarrow> Err InvalidDigit
         | Some x \<Rightarrow>
             if \<not> in_int_type t mul then Err overflow
             else let result = (if positive then mul + x else mul - x)
                  in if in_int_type t result then parse_digits t positive result cs
                     else Err overflow)"

definition int_from_str :: "IntType \<Rightarrow> string \<Rightarrow> (IntErrorKind, int) result" where
  "int_from_str t s = (case s of
     [] \<Rightarrow> Err EmptyInt
   | [c] \<Rightarrow> if c = CHR ''+'' \<or> c = CHR ''-'' then Err InvalidDigit else parse_digits t True 0 s
   | c # digits \<Rightarrow>
       if c = CHR ''+'' then parse_digits t True 0 digits
       else if c = CHR ''-'' \<and> int_signed t then parse_digits t False 0 digits
       else parse_digits t True 0 s)"

section \<open>The value decoders\<close>

definition value_decode_error :: "string \<Rightarrow> string \<Rightarrow> ValueDecodeError" where
  "value_decode_error target source = \<lparr>vde_target = target, vde_source = source\<rparr>"

type_synonym 't decoder = "bytes \<Rightarrow> (ValueDecodeError, 't) result"

definition bytes_from_cell_value :: "bytes decoder" where "bytes_from_cell_value v = Ok v"

definition string_from_cell_value :: "string decoder" where
  "string_from_cell_value v =
     map_err (\<lambda>e. value_decode_error ''alloc::string::String'' (show_utf8_error e)) (from_utf8 v)"

text \<open>\<open>impl\_text\_value\<close> for a type of this name with this \<open>from\_str\<close>.\<close>

definition text_value :: "string \<Rightarrow> (string \<Rightarrow> (string, 't) result) \<Rightarrow> 't decoder" where
  "text_value target from_str v =
     and_then (map_err (\<lambda>e. value_decode_error target (show_utf8_error e)) (from_utf8 v))
       (\<lambda>text. map_err (value_decode_error target) (from_str text))"

definition bool_from_cell_value :: "bool decoder" where
  "bool_from_cell_value = text_value ''bool'' bool_from_str"

definition int_from_cell_value :: "IntType \<Rightarrow> int decoder" where
  "int_from_cell_value t =
     text_value (int_type_name t) (\<lambda>s. map_err show_int_error (int_from_str t s))"

text \<open>JSON of a type with this name, where \<open>from\_slice\<close> is the external parser.\<close>

definition from_json_value :: "string \<Rightarrow> (bytes \<Rightarrow> (string, 't) result) \<Rightarrow> 't decoder" where
  "from_json_value target from_slice v = map_err (value_decode_error target) (from_slice v)"

section \<open>The standard library's binary search\<close>

datatype Ordering = Less | Equal | Greater

definition cmp :: "'a::linorder \<Rightarrow> 'a \<Rightarrow> Ordering" where
  "cmp a b = (if a < b then Less else if a = b then Equal else Greater)"

text \<open>
  \<open>slice::binary\_search\_by\<close>: halve the part that is left until one element is, and compare
  it. \<open>f i\<close> compares the element at \<open>i\<close> with the one that is looked for.
\<close>

function search_loop :: "(nat \<Rightarrow> Ordering) \<Rightarrow> nat \<Rightarrow> nat \<Rightarrow> nat" where
  "search_loop f base len =
     (if len > 1
      then let half = len div 2; mid = base + half
           in search_loop f (if f mid = Greater then base else mid) (len - half)
      else base)"
  by pat_completeness auto
termination by (relation "measure (\<lambda>(f, base, len). len)") auto

declare search_loop.simps [simp del]

definition binary_search_by :: "(nat \<Rightarrow> Ordering) \<Rightarrow> nat \<Rightarrow> (nat, nat) result" where
  "binary_search_by f len =
     (if len = 0 then Err 0
      else let base = search_loop f 0 len
           in case f base of Equal \<Rightarrow> Ok base | Less \<Rightarrow> Err (base + 1) | Greater \<Rightarrow> Err base)"

section \<open>The row decoder\<close>

record RowDecoder =
  rd_row :: Row

record 't DecodedCell =
  dc_timestamp_micros :: i64
  dc_value :: 't
  dc_labels :: "string list"

definition row_decoder_new :: "Row \<Rightarrow> RowDecoder" where "row_decoder_new row = \<lparr>rd_row = row\<rparr>"

definition mapping_error :: "RowDecoder \<Rightarrow> RowMappingIssue \<Rightarrow> RowMappingError" where
  "mapping_error self issue = row_mapping_error (row_key (rd_row self)) issue"

definition invalid_value :: "RowDecoder \<Rightarrow> RowValueLocation \<Rightarrow> ValueDecodeError \<Rightarrow> RowMappingError" where
  "invalid_value self location source = mapping_error self (InvalidValue location source)"

definition decode_row_key :: "RowDecoder \<Rightarrow> 't decoder \<Rightarrow> (RowMappingError, 't) result" where
  "decode_row_key self decode =
     map_err (invalid_value self RowKey) (decode (row_key (rd_row self)))"

definition decode_row_key_json :: "RowDecoder \<Rightarrow> 't decoder \<Rightarrow> (RowMappingError, 't) result" where
  "decode_row_key_json self from_json =
     map_err (invalid_value self RowKey) (from_json (row_key (rd_row self)))"

definition decode_row_key_with ::
    "RowDecoder \<Rightarrow> string \<Rightarrow> (bytes \<Rightarrow> (string, 't) result) \<Rightarrow> (RowMappingError, 't) result" where
  "decode_row_key_with self target decode =
     map_err (\<lambda>source. invalid_value self RowKey (value_decode_error target source))
       (decode (row_key (rd_row self)))"

definition find_column :: "Family \<Rightarrow> bytes \<Rightarrow> Column option" where
  "find_column family qualifier =
     (let columns = fam_columns family
      in case binary_search_by (\<lambda>i. cmp (col_qualifier (columns ! i)) qualifier) (length columns) of
           Inr index \<Rightarrow> Some (columns ! index)
         | Inl _ \<Rightarrow> find (\<lambda>column. col_qualifier column = qualifier) columns)"

definition required_column ::
    "RowDecoder \<Rightarrow> string \<Rightarrow> bytes \<Rightarrow> (RowMappingError, Column) result" where
  "required_column self family qualifier =
     (case find (\<lambda>item. fam_name item = family) (row_families (rd_row self)) of
        None \<Rightarrow> Err (mapping_error self (RowMappingIssue.MissingFamily family))
      | Some family_value \<Rightarrow>
          ok_or (mapping_error self (MissingColumn family qualifier))
            (find_column family_value qualifier))"

definition optional_column :: "RowDecoder \<Rightarrow> string \<Rightarrow> bytes \<Rightarrow> Column option" where
  "optional_column self family qualifier =
     (case find (\<lambda>item. fam_name item = family) (row_families (rd_row self)) of
        None \<Rightarrow> None
      | Some family_value \<Rightarrow> find_column family_value qualifier)"

definition first :: "'a list \<Rightarrow> 'a option" where
  "first xs = (case xs of [] \<Rightarrow> None | x # _ \<Rightarrow> Some x)"

definition latest_cell :: "RowDecoder \<Rightarrow> string \<Rightarrow> bytes \<Rightarrow> (RowMappingError, Cell) result" where
  "latest_cell self family qualifier =
     and_then (required_column self family qualifier) (\<lambda>column.
       ok_or (mapping_error self (MissingCell family qualifier)) (first (col_cells column)))"

definition optional_latest_cell :: "RowDecoder \<Rightarrow> string \<Rightarrow> bytes \<Rightarrow> Cell option" where
  "optional_latest_cell self family qualifier =
     Option.bind (optional_column self family qualifier) (\<lambda>column. first (col_cells column))"

definition decode_cell ::
    "RowDecoder \<Rightarrow> string \<Rightarrow> bytes \<Rightarrow> 't decoder \<Rightarrow> Cell \<Rightarrow> (RowMappingError, 't) result" where
  "decode_cell self family qualifier decode cell =
     map_err (invalid_value self (RowValueLocation.Cell family qualifier (cell_timestamp_micros cell)))
       (decode (cell_value cell))"

definition decode_cell_with ::
    "RowDecoder \<Rightarrow> string \<Rightarrow> bytes \<Rightarrow> string \<Rightarrow> (bytes \<Rightarrow> (string, 't) result) \<Rightarrow> Cell
     \<Rightarrow> (RowMappingError, 't) result" where
  "decode_cell_with self family qualifier target decode cell =
     map_err (\<lambda>source. invalid_value self
         (RowValueLocation.Cell family qualifier (cell_timestamp_micros cell))
         (value_decode_error target source))
       (decode (cell_value cell))"

definition decode_json_cell ::
    "RowDecoder \<Rightarrow> string \<Rightarrow> bytes \<Rightarrow> 't decoder \<Rightarrow> Cell \<Rightarrow> (RowMappingError, 't) result" where
  "decode_json_cell self family qualifier from_json cell =
     map_err (invalid_value self (RowValueLocation.Cell family qualifier (cell_timestamp_micros cell)))
       (from_json (cell_value cell))"

definition required :: "RowDecoder \<Rightarrow> string \<Rightarrow> bytes \<Rightarrow> 't decoder \<Rightarrow> (RowMappingError, 't) result" where
  "required self family qualifier decode =
     and_then (latest_cell self family qualifier) (decode_cell self family qualifier decode)"

text \<open>\<open>Option::map\<close> followed by \<open>transpose\<close>.\<close>

definition map_transpose :: "('a \<Rightarrow> ('e, 'b) result) \<Rightarrow> 'a option \<Rightarrow> ('e, 'b option) result" where
  "map_transpose f x = (case x of None \<Rightarrow> Ok None | Some a \<Rightarrow> map_ok Some (f a))"

definition optional ::
    "RowDecoder \<Rightarrow> string \<Rightarrow> bytes \<Rightarrow> 't decoder \<Rightarrow> (RowMappingError, 't option) result" where
  "optional self family qualifier decode =
     map_transpose (decode_cell self family qualifier decode)
       (optional_latest_cell self family qualifier)"

definition required_json ::
    "RowDecoder \<Rightarrow> string \<Rightarrow> bytes \<Rightarrow> 't decoder \<Rightarrow> (RowMappingError, 't) result" where
  "required_json self family qualifier from_json =
     and_then (latest_cell self family qualifier) (decode_json_cell self family qualifier from_json)"

definition optional_json ::
    "RowDecoder \<Rightarrow> string \<Rightarrow> bytes \<Rightarrow> 't decoder \<Rightarrow> (RowMappingError, 't option) result" where
  "optional_json self family qualifier from_json =
     map_transpose (decode_json_cell self family qualifier from_json)
       (optional_latest_cell self family qualifier)"

definition required_with ::
    "RowDecoder \<Rightarrow> string \<Rightarrow> bytes \<Rightarrow> string \<Rightarrow> (bytes \<Rightarrow> (string, 't) result)
     \<Rightarrow> (RowMappingError, 't) result" where
  "required_with self family qualifier target decode =
     and_then (latest_cell self family qualifier) (decode_cell_with self family qualifier target decode)"

definition optional_with ::
    "RowDecoder \<Rightarrow> string \<Rightarrow> bytes \<Rightarrow> string \<Rightarrow> (bytes \<Rightarrow> (string, 't) result)
     \<Rightarrow> (RowMappingError, 't option) result" where
  "optional_with self family qualifier target decode =
     map_transpose (decode_cell_with self family qualifier target decode)
       (optional_latest_cell self family qualifier)"

definition decoder_cells ::
    "RowDecoder \<Rightarrow> string \<Rightarrow> bytes \<Rightarrow> (RowMappingError, Cell list) result" where
  "decoder_cells self family qualifier =
     and_then (required_column self family qualifier) (\<lambda>column.
       if col_cells column = [] then Err (mapping_error self (MissingCell family qualifier))
       else Ok (col_cells column))"

text \<open>\<open>map\<close> and \<open>collect\<close> into a \<open>Result\<close>: the first error ends the iteration.\<close>

fun collect :: "('a \<Rightarrow> ('e, 'b) result) \<Rightarrow> 'a list \<Rightarrow> ('e, 'b list) result" where
  "collect f [] = Ok []"
| "collect f (x # xs) = and_then (f x) (\<lambda>y. map_ok ((#) y) (collect f xs))"

definition versions ::
    "RowDecoder \<Rightarrow> string \<Rightarrow> bytes \<Rightarrow> 't decoder \<Rightarrow> (RowMappingError, 't DecodedCell list) result" where
  "versions self family qualifier decode =
     and_then (decoder_cells self family qualifier)
       (collect (\<lambda>cell. map_ok (\<lambda>value. \<lparr>dc_timestamp_micros = cell_timestamp_micros cell,
            dc_value = value, dc_labels = cell_labels cell\<rparr>)
          (decode_cell self family qualifier decode cell)))"

section \<open>Typed rows\<close>

type_synonym 't from_row = "Row \<Rightarrow> (RowMappingError, 't) result"

definition row_map :: "'t from_row \<Rightarrow> Row \<Rightarrow> (RowMappingError, 't) result" where
  "row_map from_row row = from_row row"

definition map_row :: "'t from_row \<Rightarrow> (Error, Row) result \<Rightarrow> (Error, 't) result" where
  "map_row from_row row = and_then row (\<lambda>row. map_err RowMapping (from_row row))"

text \<open>
  A stream is the list of its items; \<open>next\<close> takes the first. A typed stream holds a stream of
  rows; \<open>poll\_next\<close> is \<open>next\<close> without the waiting.
\<close>

definition stream_next :: "'a list \<Rightarrow> 'a option \<times> 'a list" where
  "stream_next items = (case items of [] \<Rightarrow> (None, []) | item # rest \<Rightarrow> (Some item, rest))"

record TypedRowStream =
  trs_inner :: "(Error, Row) result list"

definition typed_next ::
    "'t from_row \<Rightarrow> TypedRowStream \<Rightarrow> (Error, 't) result option \<times> TypedRowStream" where
  "typed_next from_row self =
     (let (item, inner) = stream_next (trs_inner self)
      in (map_option (map_row from_row) item, \<lparr>trs_inner = inner\<rparr>))"

section \<open>Finding a column\<close>

lemma search_loop_bounds:
  "0 < len \<Longrightarrow> base \<le> search_loop f base len \<and> search_loop f base len < base + len"
proof (induction f base len rule: search_loop.induct)
  case (1 f base len)
  show ?case
  proof (cases "len > 1")
    case True
    let ?base = "if f (base + len div 2) = Greater then base else base + len div 2"
    have "?base \<le> search_loop f ?base (len - len div 2)
        \<and> search_loop f ?base (len - len div 2) < ?base + (len - len div 2)"
      by (rule 1(1) [OF True refl refl]) (use True in simp)
    then show ?thesis using True by (subst (1 2) search_loop.simps) (auto simp: Let_def split: if_splits)
  next
    case False
    then show ?thesis using 1(2) by (subst (1 2) search_loop.simps) simp
  qed
qed

lemma binary_search_Ok: "binary_search_by f len = Ok i \<Longrightarrow> i < len \<and> f i = Equal"
  using search_loop_bounds [of len 0 f]
  by (auto simp: binary_search_by_def Let_def split: if_splits Ordering.splits)

lemma find_distinct_key:
  "distinct (map g xs) \<Longrightarrow> i < length xs \<Longrightarrow> g (xs ! i) = k \<Longrightarrow> find (\<lambda>x. g x = k) xs = Some (xs ! i)"
  by (auto simp: find_Some_iff nth_eq_iff_index_eq distinct_conv_nth)

lemma find_column_find:
  assumes "distinct (map col_qualifier (fam_columns f))"
  shows "find_column f q = find (\<lambda>c. col_qualifier c = q) (fam_columns f)"
proof (cases "binary_search_by (\<lambda>i. cmp (col_qualifier (fam_columns f ! i)) q) (length (fam_columns f))")
  case (Inl i)
  then show ?thesis by (simp add: find_column_def)
next
  case (Inr i)
  then have "i < length (fam_columns f)" "col_qualifier (fam_columns f ! i) = q"
    using binary_search_Ok [OF Inr] by (auto simp: cmp_def split: if_splits)
  then show ?thesis using Inr find_distinct_key [OF assms] by (simp add: find_column_def)
qed

lemma find_member: "find P xs = Some x \<Longrightarrow> x \<in> set xs \<and> P x"
  by (auto simp: find_Some_iff)

lemma required_column_cases:
  "required_column self fam q = (case optional_column self fam q of
     Some c \<Rightarrow> Ok c
   | None \<Rightarrow> Err (mapping_error self
       (if fam \<in> set (map fam_name (row_families (rd_row self))) then MissingColumn fam q
        else RowMappingIssue.MissingFamily fam)))"
proof (cases "find (\<lambda>f. fam_name f = fam) (row_families (rd_row self))")
  case None
  then have "fam \<notin> set (map fam_name (row_families (rd_row self)))" by (auto simp: find_None_iff)
  then show ?thesis using None by (simp add: required_column_def optional_column_def)
next
  case (Some f)
  then show ?thesis
    using find_member [OF Some] by (cases "find_column f q") (auto simp: required_column_def optional_column_def)
qed

text \<open>A well-formed row has cells in all of its columns.\<close>

lemma optional_column_cells:
  assumes "families_ok (row_families (rd_row self))"
  shows "(case optional_column self fam q of None \<Rightarrow> cells_at (row_families (rd_row self)) fam q = []
    | Some c \<Rightarrow> col_cells c = cells_at (row_families (rd_row self)) fam q
        \<and> cells_at (row_families (rd_row self)) fam q \<noteq> [])"
proof (cases "find (\<lambda>f. fam_name f = fam) (row_families (rd_row self))")
  case None
  then show ?thesis by (simp add: optional_column_def cells_at_def)
next
  case (Some f)
  then have "family_ok f" using assms by (auto simp: families_ok_def dest: find_member)
  then have "find_column f q = find (\<lambda>c. col_qualifier c = q) (fam_columns f)"
    and "\<forall>c \<in> set (fam_columns f). col_cells c \<noteq> []"
    by (auto simp: family_ok_def intro: find_column_find)
  then show ?thesis
    using Some by (auto simp: optional_column_def cells_at_def dest: find_member split: option.split)
qed

text \<open>What a lookup of cells returns, in terms of the cells of the row.\<close>

definition found :: "RowDecoder \<Rightarrow> string \<Rightarrow> bytes \<Rightarrow> (RowMappingError, Cell list) result" where
  "found self fam q =
     (let cells = cells_at (row_families (rd_row self)) fam q
      in if cells \<noteq> [] then Ok cells
         else Err (mapping_error self
           (if fam \<in> set (map fam_name (row_families (rd_row self))) then MissingColumn fam q
            else RowMappingIssue.MissingFamily fam)))"

lemma decoder_cells_found:
  assumes "families_ok (row_families (rd_row self))"
  shows "decoder_cells self fam q = found self fam q"
    and "latest_cell self fam q = map_ok hd (found self fam q)"
    and "optional_latest_cell self fam q = first (cells_at (row_families (rd_row self)) fam q)"
  using optional_column_cells [OF assms, of fam q]
  by (auto simp: decoder_cells_def latest_cell_def optional_latest_cell_def required_column_cases
      found_def first_def Let_def split: option.splits list.splits)

lemma latest_cell_optional:
  "optional_latest_cell self fam q = (case latest_cell self fam q of Inl _ \<Rightarrow> None | Inr c \<Rightarrow> Some c)"
  by (auto simp: latest_cell_def optional_latest_cell_def required_column_cases first_def
      split: option.splits list.splits)

lemma latest_cell_Err:
  "latest_cell self fam q = Err e \<Longrightarrow> rme_issue e \<in>
     {RowMappingIssue.MissingFamily fam, MissingColumn fam q, MissingCell fam q}"
  by (auto simp: latest_cell_def required_column_cases first_def mapping_error_def row_mapping_error_def
      split: option.splits list.splits if_splits)

section \<open>Texts of numbers\<close>

lemma str_of_as_bytes [simp]: "str_of_bytes (as_bytes s) = s"
  by (induction s) (simp_all add: str_of_bytes_def as_bytes_def unat_of_nat)

definition ascii :: "string \<Rightarrow> bool" where
  "ascii s \<longleftrightarrow> (\<forall>c \<in> set s. (of_char c :: nat) < 128)"

lemma utf8_check_ascii: "\<forall>b \<in> set bs. b < 0x80 \<Longrightarrow> utf8_check i bs = None"
  by (induction i bs rule: utf8_check.induct) (auto simp: utf8_char_def utf8_width_def)

lemma from_utf8_ascii: "ascii s \<Longrightarrow> from_utf8 (as_bytes s) = Ok s"
proof -
  assume "ascii s"
  then have "\<forall>b \<in> set (as_bytes s). b < 0x80"
    by (auto simp: ascii_def as_bytes_def word_less_nat_alt unat_of_nat)
  then show ?thesis using utf8_check_ascii by (simp add: from_utf8_def)
qed

lemma is_digit_show_nat: "\<forall>c \<in> set (show_nat n). 48 \<le> (of_char c :: nat) \<and> (of_char c :: nat) \<le> 57"
proof (induction n rule: show_nat.induct)
  case (1 n)
  have digit: "48 \<le> (of_char (char_of (48 + d)) :: nat) \<and> (of_char (char_of (48 + d)) :: nat) \<le> 57"
    if "d < 10" for d :: nat using that by (simp add: of_char_of)
  show ?case
  proof (cases "n < 10")
    case True
    have "show_nat n = [char_of (48 + n)]" using True by (subst show_nat.simps) (rule if_P)
    then show ?thesis using digit [OF True] by (metis empty_iff empty_set set_ConsD)
  next
    case False
    have "show_nat n = show_nat (n div 10) @ [char_of (48 + n mod 10)]"
      using False by (subst show_nat.simps) (rule if_not_P)
    moreover have "n mod 10 < 10" by simp
    ultimately show ?thesis using 1 [OF False] digit [of "n mod 10"] unfolding set_append by auto
  qed
qed

lemma to_digit_show [simp]: "n < 10 \<Longrightarrow> to_digit (char_of (48 + n :: nat)) = Some (int n)"
  by (simp add: to_digit_def Let_def of_char_of)

lemma parse_digits_snoc:
  "parse_digits t p r (cs @ [c]) = and_then (parse_digits t p r cs) (\<lambda>r. parse_digits t p r [c])"
  by (induction t p r cs rule: parse_digits.induct) (auto simp: Let_def split: option.split)

lemma zero_in_int_type: "int_min t \<le> 0" "0 \<le> int_max t"
  by (cases t; simp add: int_min_def int_max_def int_signed_def)+

lemma parse_show_nat:
  "int n \<le> int_max t \<Longrightarrow> parse_digits t True 0 (show_nat n) = Ok (int n)"
proof (induction n rule: show_nat.induct)
  case (1 n)
  note range = zero_in_int_type [of t]
  show ?case
  proof (cases "n < 10")
    case True
    then show ?thesis using 1(2) range by (subst show_nat.simps) (simp add: Let_def in_int_type_def)
  next
    case False
    have "parse_digits t True 0 (show_nat (n div 10)) = Ok (int (n div 10))"
      using 1 False by simp
    moreover have "int (n div 10) * 10 + int (n mod 10) = int n"
      by (metis div_mult_mod_eq of_nat_add of_nat_mult of_nat_numeral)
    ultimately show ?thesis
      using False 1(2) range
      by (subst show_nat.simps) (simp add: Let_def in_int_type_def parse_digits_snoc)
  qed
qed

lemma parse_show_nat_negative:
  "int_min t \<le> - int n \<Longrightarrow> parse_digits t False 0 (show_nat n) = Ok (- int n)"
proof (induction n rule: show_nat.induct)
  case (1 n)
  note range = zero_in_int_type [of t]
  show ?case
  proof (cases "n < 10")
    case True
    then show ?thesis using 1(2) range by (subst show_nat.simps) (simp add: Let_def in_int_type_def)
  next
    case False
    have "parse_digits t False 0 (show_nat (n div 10)) = Ok (- int (n div 10))"
      using 1 False by simp
    moreover have "- int (n div 10) * 10 - int (n mod 10) = - int n"
      using div_mult_mod_eq [of n 10] by linarith
    ultimately show ?thesis
      using False 1(2) range
      by (subst show_nat.simps) (simp add: Let_def in_int_type_def parse_digits_snoc)
  qed
qed

lemma int_from_show: "in_int_type t n \<Longrightarrow> int_from_str t (show_int n) = Ok n"
proof (cases "n < 0")
  case True
  assume range: "in_int_type t n"
  obtain c cs where digits: "show_nat (nat (- n)) = c # cs"
    using show_nat_nonempty by (cases "show_nat (nat (- n))") auto
  have "int_signed t" using True range by (auto simp: in_int_type_def int_min_def split: if_splits)
  then show ?thesis
    using True range parse_show_nat_negative [of t "nat (- n)"] digits
    by (simp add: show_int_def int_from_str_def in_int_type_def)
next
  case False
  assume range: "in_int_type t n"
  obtain c cs where digits: "show_nat (nat n) = c # cs"
    using show_nat_nonempty by (cases "show_nat (nat n)") auto
  have "c \<noteq> CHR ''+''" "c \<noteq> CHR ''-''" using is_digit_show_nat [of "nat n"] digits by auto
  then show ?thesis
    using False range parse_show_nat [of "nat n" t] digits
    by (simp add: show_int_def int_from_str_def in_int_type_def split: list.split)
qed

lemma ascii_show_int: "ascii (show_int n)"
  using is_digit_show_nat by (fastforce simp: ascii_def show_int_def)

lemma parse_digits_range:
  "parse_digits t p r cs = Ok n \<Longrightarrow> in_int_type t r \<Longrightarrow> in_int_type t n"
  by (induction t p r cs rule: parse_digits.induct)
    (auto simp: Let_def split: option.splits if_splits)

lemma int_from_str_range: "int_from_str t s = Ok n \<Longrightarrow> in_int_type t n"
  using zero_in_int_type [of t]
  by (auto simp: int_from_str_def in_int_type_def [of t 0] simp del: parse_digits.simps
      split: list.splits if_splits dest!: parse_digits_range)

section \<open>Properties\<close>

text \<open>
  Column lookup finds the column of a qualifier in any order of the columns: the binary
  search, tried first, never answers with another column, and when it misses in a family that
  is not sorted the scan finds it.
\<close>

theorem find_column_is_lookup:
  "case find_column family qualifier of
     None \<Rightarrow> qualifier \<notin> set (map col_qualifier (fam_columns family))
   | Some column \<Rightarrow> column \<in> set (fam_columns family) \<and> col_qualifier column = qualifier"
proof (cases "binary_search_by (\<lambda>i. cmp (col_qualifier (fam_columns family ! i)) qualifier)
    (length (fam_columns family))")
  case (Inl i)
  then show ?thesis
    by (auto simp: find_column_def find_None_iff dest: find_member split: option.split)
next
  case (Inr i)
  then show ?thesis using binary_search_Ok [OF Inr] by (auto simp: find_column_def cmp_def split: if_splits)
qed

text \<open>
  An optional value is the required value where that is present: absence of the family,
  the column or the cells gives \<open>None\<close>, and an invalid value is the same error in both.
\<close>

lemma optional_agrees_with_required:
  "optional self family qualifier decode = (case latest_cell self family qualifier of
     Inl _ \<Rightarrow> Ok None
   | Inr _ \<Rightarrow> map_ok Some (required self family qualifier decode))"
  by (cases "latest_cell self family qualifier")
    (simp_all add: optional_def required_def map_transpose_def latest_cell_optional)

text \<open>
  The texts of numbers: a cell that holds the decimal text of a number in the range of an
  integer type decodes to that number.
\<close>

lemma decimal_text_decodes:
  assumes "in_int_type t n"
  shows "int_from_cell_value t (as_bytes (show_int n)) = Ok n"
  using int_from_show [OF assms] from_utf8_ascii [OF ascii_show_int]
  by (simp add: int_from_cell_value_def text_value_def)

lemma decimal_text_decodes_witness:
  "int_from_cell_value I8 (as_bytes (show_int (- 128))) = Ok (- 128)"
  by (rule decimal_text_decodes) (simp add: in_int_type_def int_min_def int_max_def int_signed_def)

text \<open>
  No decoded integer leaves the range of its type, whatever bytes the cell holds: overflow
  is an error at the digit where it happens.
\<close>

lemma decoded_integer_in_range:
  assumes "int_from_cell_value t v = Ok n"
  shows "in_int_type t n"
  using assms by (auto simp: int_from_cell_value_def text_value_def result_iffs dest: int_from_str_range)

text \<open>
  C40. On a row as reads deliver it, the decoder returns exactly the cells of the column:
  \<open>cells\<close> all of them, \<open>latest\_cell\<close> the first, \<open>versions\<close> each of them decoded, in the same
  order; a column without cells does not occur, and the error says whether the family or the
  column is missing.
\<close>

theorem decoder_reads_row:
  assumes "families_ok (row_families row)"
  shows "decoder_cells (row_decoder_new row) family qualifier = found (row_decoder_new row) family qualifier
    \<and> latest_cell (row_decoder_new row) family qualifier
        = map_ok hd (found (row_decoder_new row) family qualifier)
    \<and> (\<forall>vs. versions (row_decoder_new row) family qualifier decode = Ok vs \<longrightarrow>
        map dc_timestamp_micros vs = map cell_timestamp_micros (cells_at (row_families row) family qualifier)
        \<and> map (Inr \<circ> dc_value) vs = map (decode \<circ> cell_value) (cells_at (row_families row) family qualifier))"
proof -
  let ?self = "row_decoder_new row"
  let ?one = "\<lambda>cell. map_ok (\<lambda>value. \<lparr>dc_timestamp_micros = cell_timestamp_micros cell,
      dc_value = value, dc_labels = cell_labels cell\<rparr>) (decode_cell ?self family qualifier decode cell)"
  have ok: "families_ok (row_families (rd_row ?self))" using assms by (simp add: row_decoder_new_def)
  have one: "dc_timestamp_micros v = cell_timestamp_micros c \<and> Inr (dc_value v) = decode (cell_value c)"
    if "?one c = Inr v" for c v
    using that by (cases "decode (cell_value c)") (auto simp: decode_cell_def)
  have all: "collect ?one cs = Inr vs \<Longrightarrow> map dc_timestamp_micros vs = map cell_timestamp_micros cs
      \<and> map (Inr \<circ> dc_value) vs = map (decode \<circ> cell_value) cs" for cs vs
  proof (induction cs arbitrary: vs)
    case (Cons c cs)
    obtain v ws where "?one c = Inr v" "collect ?one cs = Inr ws" "vs = v # ws"
      using Cons(2) by (cases "?one c"; cases "collect ?one cs") auto
    then show ?case using Cons(1) one by simp
  qed simp
  show ?thesis
    using decoder_cells_found [OF ok, of family qualifier] all
    by (auto simp: versions_def found_def Let_def row_decoder_new_def split: if_splits)
qed

definition two_versions :: Row where
  "two_versions = \<lparr>row_key = [1], row_families =
     [\<lparr>fam_name = ''f'', fam_columns =
        [\<lparr>col_qualifier = [9], col_cells = [\<lparr>cell_timestamp_micros = 2, cell_value = [49], cell_labels = []\<rparr>,
            \<lparr>cell_timestamp_micros = 1, cell_value = [50], cell_labels = []\<rparr>]\<rparr>,
         \<lparr>col_qualifier = [7], col_cells = [\<lparr>cell_timestamp_micros = 5, cell_value = [], cell_labels = []\<rparr>]\<rparr>]\<rparr>]\<rparr>"

theorem decoder_reads_row_witness:
  "decoder_cells (row_decoder_new two_versions) ''f'' [9] = Ok
     [\<lparr>cell_timestamp_micros = 2, cell_value = [49], cell_labels = []\<rparr>,
      \<lparr>cell_timestamp_micros = 1, cell_value = [50], cell_labels = []\<rparr>]"
proof -
  have "families_ok (row_families two_versions)"
    by (simp add: two_versions_def families_ok_def family_ok_def)
  from decoder_reads_row [OF this, of "''f''" "[9]"]
  have "decoder_cells (row_decoder_new two_versions) ''f'' [9] = found (row_decoder_new two_versions) ''f'' [9]"
    by blast
  also have "\<dots> = Ok [\<lparr>cell_timestamp_micros = 2, cell_value = [49], cell_labels = []\<rparr>,
      \<lparr>cell_timestamp_micros = 1, cell_value = [50], cell_labels = []\<rparr>]"
    by (simp add: found_def row_decoder_new_def two_versions_def cells_at_def)
  finally show ?thesis .
qed

text \<open>Reading a typed stream to its end maps the items of the row stream, errors included.\<close>

fun typed_all :: "'t from_row \<Rightarrow> nat \<Rightarrow> TypedRowStream \<Rightarrow> (Error, 't) result list" where
  "typed_all from_row 0 self = []"
| "typed_all from_row (Suc n) self = (case typed_next from_row self of
     (None, self) \<Rightarrow> []
   | (Some item, self) \<Rightarrow> item # typed_all from_row n self)"

lemma typed_all_map:
  "typed_all from_row n \<lparr>trs_inner = items\<rparr> = map (map_row from_row) (take n items)"
proof (induction n arbitrary: items)
  case (Suc n)
  then show ?case by (cases items) (simp_all add: typed_next_def stream_next_def Let_def)
qed simp

end
