(* ===== verification/Client.thy ===== *)
theory Client
  imports Auth BulkWrite ReadComplete RowMapping
begin

text \<open>
  \<open>client.rs\<close>: the builder, the headers of every request, and the operations that applications
  call, which put together queries, reads, row mapping and bulk writes. A client's channel is
  the \<open>ReadSide\<close> or \<open>Service\<close> that an operation talks to.
\<close>

section \<open>Headers\<close>

text \<open>The version of the crate and of Rust, from the workspace's manifest.\<close>

definition api_client_header :: string where
  "api_client_header = ''gl-rust/1.88 gccl/0.0.1''"

record FeatureFlags =
  ff_reverse_scans :: bool
  ff_mutate_rows_rate_limit :: bool
  ff_mutate_rows_rate_limit2 :: bool
  ff_last_scanned_row_responses :: bool
  ff_routing_cookie :: bool
  ff_retry_info :: bool
  ff_client_side_metrics_enabled :: bool
  ff_traffic_director_enabled :: bool
  ff_direct_access_requested :: bool
  ff_peer_info :: bool

definition feature_flags_default :: FeatureFlags where
  "feature_flags_default = \<lparr>ff_reverse_scans = False, ff_mutate_rows_rate_limit = False,
     ff_mutate_rows_rate_limit2 = False, ff_last_scanned_row_responses = False,
     ff_routing_cookie = False, ff_retry_info = False, ff_client_side_metrics_enabled = False,
     ff_traffic_director_enabled = False, ff_direct_access_requested = False, ff_peer_info = False\<rparr>"

definition feature_flags :: FeatureFlags where
  "feature_flags = feature_flags_default
     \<lparr>ff_reverse_scans := True, ff_last_scanned_row_responses := True, ff_retry_info := True\<rparr>"

text \<open>\<open>encode\<close> is the protobuf encoding of the flags in URL-safe base64 without padding.\<close>

definition feature_flags_header :: "Env \<Rightarrow> (FeatureFlags \<Rightarrow> string) \<Rightarrow> (Error, string) result" where
  "feature_flags_header x encode =
     map_err (InvalidClientMetadata ''bigtable-features'') (x_parse_metadata x (encode feature_flags))"

record AuthInterceptor =
  ai_tokens :: "TokenManager option"
  ai_api_client :: string
  ai_feature_flags :: string

definition auth_interceptor_new ::
    "Env \<Rightarrow> (FeatureFlags \<Rightarrow> string) \<Rightarrow> TokenManager option \<Rightarrow> (Error, AuthInterceptor) result" where
  "auth_interceptor_new x encode tokens =
     and_then (feature_flags_header x encode) (\<lambda>flags.
       Ok \<lparr>ai_tokens = tokens, ai_api_client = api_client_header, ai_feature_flags = flags\<rparr>)"

lemma auth_interceptor_new_Ok:
  "auth_interceptor_new x encode tokens = Ok i \<Longrightarrow> ai_tokens i = tokens
     \<and> ai_api_client i = api_client_header
     \<and> x_parse_metadata x (encode feature_flags) = Ok (ai_feature_flags i)"
  by (auto simp: auth_interceptor_new_def feature_flags_header_def result_iffs)

text \<open>The metadata of a request: a value for each name; \<open>insert\<close> replaces.\<close>

type_synonym metadata = "string \<Rightarrow> string option"

definition interceptor_call ::
    "instant \<Rightarrow> AuthInterceptor \<Rightarrow> metadata \<Rightarrow> (status, metadata) result" where
  "interceptor_call now self request =
     and_then (case ai_tokens self of
         None \<Rightarrow> Ok request
       | Some tokens \<Rightarrow> map_ok (\<lambda>value. request(''authorization'' \<mapsto> value)) (authorization now tokens))
       (\<lambda>request. Ok (request(''x-goog-api-client'' \<mapsto> ai_api_client self,
                               ''bigtable-features'' \<mapsto> ai_feature_flags self)))"

section \<open>The builder\<close>

text \<open>
  A token provider is the answers it gives, an observer or a meter only whether it is there.
\<close>

record ClientBuilder =
  cb_config :: ClientConfig
  cb_provider :: "(string, AccessToken) result option"
  cb_observer :: bool
  cb_meter :: bool

definition client_builder_new :: "ClientConfig \<Rightarrow> ClientBuilder" where
  "client_builder_new config = \<lparr>cb_config = config, cb_provider = None, cb_observer = False, cb_meter = False\<rparr>"

definition with_token_provider ::
    "ClientBuilder \<Rightarrow> (string, AccessToken) result \<Rightarrow> ClientBuilder" where
  "with_token_provider self provider = self\<lparr>cb_provider := Some provider\<rparr>"

definition with_diagnostic_observer :: "ClientBuilder \<Rightarrow> ClientBuilder" where
  "with_diagnostic_observer self = self\<lparr>cb_observer := True\<rparr>"

definition with_shared_diagnostic_observer :: "ClientBuilder \<Rightarrow> ClientBuilder" where
  "with_shared_diagnostic_observer self = self\<lparr>cb_observer := True\<rparr>"

definition with_meter :: "ClientBuilder \<Rightarrow> ClientBuilder" where
  "with_meter self = self\<lparr>cb_meter := True\<rparr>"

text \<open>The outside world of a connection: the default provider and the outcome of connecting.\<close>

record Outside =
  out_default_provider :: "(string, (string, AccessToken) result) result"
  out_parse_uri :: "string \<Rightarrow> Uri option"
  out_tls :: "string option"
  out_connect :: "EndpointSettings \<Rightarrow> string option"
  out_send :: "nat \<Rightarrow> bool"
  out_encode_flags :: "FeatureFlags \<Rightarrow> string"

text \<open>
  \<open>channel.rs\<close>: one connection, or a balanced channel to which the endpoint is added once for
  each member of the pool, after a first connection has shown that it can be reached.
\<close>

datatype Channel = Connected EndpointSettings | Balanced nat "(nat \<times> EndpointSettings) list"

fun insert_endpoints ::
    "(nat \<Rightarrow> bool) \<Rightarrow> EndpointSettings \<Rightarrow> nat list \<Rightarrow> (Error, (nat \<times> EndpointSettings) list) result" where
  "insert_endpoints send settings [] = Ok []"
| "insert_endpoints send settings (index # indexes) =
     (if send index then map_ok ((#) (index, settings)) (insert_endpoints send settings indexes)
      else Err ChannelPoolClosed)"

definition channel_connect :: "Outside \<Rightarrow> ClientConfig \<Rightarrow> (Error, Channel) result" where
  "channel_connect out config =
     and_then (build_endpoint (out_parse_uri out) (out_tls out) config) (\<lambda>settings.
       case out_connect out settings of
         Some source \<Rightarrow> Err (Transport source)
       | None \<Rightarrow>
           if channel_pool_size config = 1 then Ok (Connected settings)
           else map_ok (Balanced (channel_pool_size config))
             (insert_endpoints (out_send out) settings [0..<channel_pool_size config]))"

lemma insert_endpoints_Ok:
  "insert_endpoints send settings is = Ok members \<Longrightarrow> members = map (\<lambda>i. (i, settings)) is"
  by (induction "is" arbitrary: members) (auto simp: map_ok_Inr_iff split: if_splits)

lemma channel_connect_members:
  "channel_connect out config = Ok (Balanced n members) \<Longrightarrow> n = channel_pool_size config
     \<and> map fst members = [0..<n]"
  by (auto simp: channel_connect_def and_then_Inr_iff map_ok_Inr_iff comp_def
      dest!: insert_endpoints_Ok split: option.splits if_splits)

record Client =
  cl_config :: ClientConfig
  cl_channel :: Channel
  cl_interceptor :: AuthInterceptor
  cl_observer :: bool

definition connect_builder :: "Env \<Rightarrow> Outside \<Rightarrow> ClientBuilder \<Rightarrow> (Error, Client) result" where
  "connect_builder x out builder =
     and_then (if uses_emulator (cb_config builder) then Ok None
       else and_then (case cb_provider builder of
                Some provider \<Rightarrow> Ok provider
              | None \<Rightarrow> map_err Authentication (out_default_provider out)) (\<lambda>provider.
              map_ok Some (token_manager_start x (gcp_token provider)))) (\<lambda>tokens.
     and_then (channel_connect out (cb_config builder)) (\<lambda>channel.
     and_then (auth_interceptor_new x (out_encode_flags out) tokens) (\<lambda>interceptor.
       Ok \<lparr>cl_config = cb_config builder, cl_channel = channel, cl_interceptor = interceptor,
           cl_observer = cb_observer builder\<rparr>)))"

definition client_connect :: "Env \<Rightarrow> Outside \<Rightarrow> ClientConfig \<Rightarrow> (Error, Client) result" where
  "client_connect x out config = connect_builder x out (client_builder_new config)"

definition connect_with_token_provider ::
    "Env \<Rightarrow> Outside \<Rightarrow> ClientConfig \<Rightarrow> (string, AccessToken) result \<Rightarrow> (Error, Client) result" where
  "connect_with_token_provider x out config provider =
     connect_builder x out (with_token_provider (client_builder_new config) provider)"

section \<open>Reads\<close>

definition default_read_options :: "Client \<Rightarrow> ReadOptions" where
  "default_read_options self = read_options_default\<lparr>ro_deadlines :=
     (ro_deadlines read_options_default)\<lparr>operation_timeout := request_timeout (cl_config self)\<rparr>\<rparr>"

definition read_rows_with_options ::
    "Env \<Rightarrow> ReadSide \<Rightarrow> Client \<Rightarrow> Query \<Rightarrow> ReadOptions \<Rightarrow> World
     \<Rightarrow> ((Error, delivered) result \<times> World \<times> read_sent) option" where
  "read_rows_with_options x rd self query options w = read_start x rd (cl_config self) query options w"

definition read_rows ::
    "Env \<Rightarrow> ReadSide \<Rightarrow> Client \<Rightarrow> Query \<Rightarrow> World
     \<Rightarrow> ((Error, delivered) result \<times> World \<times> read_sent) option" where
  "read_rows x rd self query w = read_start x rd (cl_config self) query (default_read_options self) w"

text \<open>The first item of the stream.\<close>

definition first_row :: "delivered \<Rightarrow> (Error, Row option) result" where
  "first_row rows = (case stream_next rows of
     (Some row, _) \<Rightarrow> map_ok Some row | (None, _) \<Rightarrow> Ok None)"

definition one_row_query :: "string \<Rightarrow> bytes \<Rightarrow> (Error, Query) result" where
  "one_row_query table_id key =
     and_then (query_new table_id) (\<lambda>query. query_limit (query_row_key query key) 1)"

text \<open>The result of an operation inside the state and the possible panic of the model.\<close>

definition map_result ::
    "('a \<Rightarrow> (Error, 'b) result) \<Rightarrow> ((Error, 'a) result \<times> 'w) option \<Rightarrow> ((Error, 'b) result \<times> 'w) option" where
  "map_result f = map_option (\<lambda>(res, w). (and_then res f, w))"

definition read_row_with_options ::
    "Env \<Rightarrow> ReadSide \<Rightarrow> Client \<Rightarrow> string \<Rightarrow> bytes \<Rightarrow> ReadOptions \<Rightarrow> World
     \<Rightarrow> ((Error, Row option) result \<times> World \<times> read_sent) option" where
  "read_row_with_options x rd self table_id key options w =
     (case one_row_query table_id key of
        Inl error \<Rightarrow> Some (Err error, w, [])
      | Inr query \<Rightarrow> map_result first_row (read_rows_with_options x rd self query options w))"

definition read_row ::
    "Env \<Rightarrow> ReadSide \<Rightarrow> Client \<Rightarrow> string \<Rightarrow> bytes \<Rightarrow> World
     \<Rightarrow> ((Error, Row option) result \<times> World \<times> read_sent) option" where
  "read_row x rd self table_id key w =
     (case one_row_query table_id key of
        Inl error \<Rightarrow> Some (Err error, w, [])
      | Inr query \<Rightarrow> map_result first_row (read_rows x rd self query w))"

definition read_rows_as_with_options ::
    "Env \<Rightarrow> ReadSide \<Rightarrow> Client \<Rightarrow> Query \<Rightarrow> ReadOptions \<Rightarrow> World
     \<Rightarrow> ((Error, TypedRowStream) result \<times> World \<times> read_sent) option" where
  "read_rows_as_with_options x rd self query options w =
     map_result (\<lambda>rows. Ok \<lparr>trs_inner = rows\<rparr>) (read_rows_with_options x rd self query options w)"

definition read_rows_as ::
    "Env \<Rightarrow> ReadSide \<Rightarrow> Client \<Rightarrow> Query \<Rightarrow> World
     \<Rightarrow> ((Error, TypedRowStream) result \<times> World \<times> read_sent) option" where
  "read_rows_as x rd self query w =
     map_result (\<lambda>rows. Ok \<lparr>trs_inner = rows\<rparr>) (read_rows x rd self query w)"

definition map_one_row :: "'t from_row \<Rightarrow> Row option \<Rightarrow> (Error, 't option) result" where
  "map_one_row from_row row = map_err RowMapping (map_transpose from_row row)"

definition read_row_as_with_options ::
    "Env \<Rightarrow> ReadSide \<Rightarrow> Client \<Rightarrow> 't from_row \<Rightarrow> string \<Rightarrow> bytes \<Rightarrow> ReadOptions \<Rightarrow> World
     \<Rightarrow> ((Error, 't option) result \<times> World \<times> read_sent) option" where
  "read_row_as_with_options x rd self from_row table_id key options w =
     map_result (map_one_row from_row) (read_row_with_options x rd self table_id key options w)"

definition read_row_as ::
    "Env \<Rightarrow> ReadSide \<Rightarrow> Client \<Rightarrow> 't from_row \<Rightarrow> string \<Rightarrow> bytes \<Rightarrow> World
     \<Rightarrow> ((Error, 't option) result \<times> World \<times> read_sent) option" where
  "read_row_as x rd self from_row table_id key w =
     map_result (map_one_row from_row) (read_row x rd self table_id key w)"

section \<open>Writes\<close>

definition default_mutation_options :: "Client \<Rightarrow> BulkMutationOptions" where
  "default_mutation_options self = bulk_mutation_options_default\<lparr>wo_deadlines :=
     (wo_deadlines bulk_mutation_options_default)\<lparr>operation_timeout := request_timeout (cl_config self)\<rparr>\<rparr>"

definition mutate_rows_with_options ::
    "Env \<Rightarrow> Lengths \<Rightarrow> Service \<Rightarrow> Schedule \<Rightarrow> Client \<Rightarrow> BulkMutation \<Rightarrow> BulkMutationOptions \<Rightarrow> World
     \<Rightarrow> ((Error, BulkMutationResult) result \<times> World \<times> sent list) option" where
  "mutate_rows_with_options x len svc sch self mutation options w =
     execute x len svc sch (cl_config self) mutation options w"

definition mutate_rows ::
    "Env \<Rightarrow> Lengths \<Rightarrow> Service \<Rightarrow> Schedule \<Rightarrow> Client \<Rightarrow> BulkMutation \<Rightarrow> World
     \<Rightarrow> ((Error, BulkMutationResult) result \<times> World \<times> sent list) option" where
  "mutate_rows x len svc sch self mutation w =
     execute x len svc sch (cl_config self) mutation (default_mutation_options self) w"

definition one_entry_bulk :: "string \<Rightarrow> RowMutation \<Rightarrow> (Error, BulkMutation) result" where
  "one_entry_bulk table_id mutation = and_then (bulk_new table_id) (\<lambda>bulk. bulk_entry bulk mutation)"

definition mutate_row_with_options ::
    "Env \<Rightarrow> Lengths \<Rightarrow> Service \<Rightarrow> Schedule \<Rightarrow> Client \<Rightarrow> string \<Rightarrow> RowMutation \<Rightarrow> BulkMutationOptions
     \<Rightarrow> World \<Rightarrow> ((Error, unit) result \<times> World \<times> sent list) option" where
  "mutate_row_with_options x len svc sch self table_id mutation options w =
     (case one_entry_bulk table_id mutation of
        Inl error \<Rightarrow> Some (Err error, w, [])
      | Inr bulk \<Rightarrow> map_result (\<lambda>_. Ok ()) (mutate_rows_with_options x len svc sch self bulk options w))"

definition mutate_row ::
    "Env \<Rightarrow> Lengths \<Rightarrow> Service \<Rightarrow> Schedule \<Rightarrow> Client \<Rightarrow> string \<Rightarrow> RowMutation
     \<Rightarrow> World \<Rightarrow> ((Error, unit) result \<times> World \<times> sent list) option" where
  "mutate_row x len svc sch self table_id mutation w =
     (case one_entry_bulk table_id mutation of
        Inl error \<Rightarrow> Some (Err error, w, [])
      | Inr bulk \<Rightarrow> map_result (\<lambda>_. Ok ()) (mutate_rows x len svc sch self bulk w))"

section \<open>What the operations do\<close>

lemma one_row_query_Ok:
  "one_row_query table_id key = Ok query \<Longrightarrow> q_row_keys query = [key] \<and> q_row_ranges query = []
     \<and> q_limit query = Some 1 \<and> \<not> q_reversed query"
  by (auto simp: one_row_query_def query_new_def query_row_key_def query_limit_def i64_max_def result_iffs)

lemma find_first_filter: "find P xs = first (filter P xs)"
  by (induction xs) (auto simp: first_def)

lemma scan_one_row:
  assumes "one_row_query table_id key = Ok query"
  shows "first (scan_result db (into_request query config)) = find (\<lambda>r. row_key r = key) db"
proof -
  have "request_selects (into_request query config) k \<longleftrightarrow> k = key" for k
    using one_row_query_Ok [OF assms] by (simp add: request_selects_into_request)
  moreover have "rr_rows_limit (into_request query config) = 1"
    using one_row_query_Ok [OF assms] by (simp add: into_request_def Let_def)
  ultimately show ?thesis
    by (simp add: scan_result_def find_first_filter) (simp add: first_def split: list.split)
qed

lemma first_row_complete:
  assumes "complete_delivery wanted out" and "first_row out = Ok r"
  shows "r = first wanted"
proof -
  obtain n errors where out: "out = map Inr (take n wanted) @ map Inl errors"
    and done': "errors = [] \<longrightarrow> take n wanted = wanted"
    using assms(1) by (auto simp: complete_delivery_def)
  show ?thesis
  proof (cases "take n wanted")
    case Nil
    then show ?thesis
      using out done' assms(2) by (cases errors) (auto simp: first_row_def stream_next_def first_def)
  next
    case (Cons row rows)
    then have "first wanted = Some row" by (cases wanted; cases n) (auto simp: first_def)
    then show ?thesis using out Cons assms(2) by (auto simp: first_row_def stream_next_def)
  qed
qed

lemma read_row_found:
  assumes "faithful db rd" and "scan.in_order False (map row_key db)"
    and "read_row_with_options x rd self table_id key options w = Some (Ok row, w', sent)"
  shows "row = find (\<lambda>r. row_key r = key) db"
proof -
  obtain query where query: "one_row_query table_id key = Ok query"
    using assms(3) by (auto simp: read_row_with_options_def split: sum.splits)
  then obtain res where run: "read_start x rd (cl_config self) query options w = Some (res, w', sent)"
    and res: "and_then res first_row = Ok row"
    using assms(3) by (auto simp: read_row_with_options_def read_rows_with_options_def map_result_def)
  obtain out where out: "res = Ok out" "first_row out = Ok row" using res by (auto simp: and_then_Inr_iff)
  have "complete_delivery (scan_result db (into_request query (cl_config self))) out"
    using read_start_complete [OF run [unfolded out(1)] assms(1)] assms(2) one_row_query_Ok [OF query] by simp
  then show ?thesis using first_row_complete [OF _ out(2)] scan_one_row [OF query] by simp
qed

section \<open>Properties\<close>

text \<open>
  C34. Reading one row by its key: against a service that answers its requests with the rows of
  the table, the operation ends, and unless it reports an error it returns the row with that
  key if the table has one, and no row if not, whatever attempts fail on the way.
\<close>

theorem read_row_finds_the_row:
  assumes "faithful db rd" and "scan.in_order False (map row_key db)"
    and "max_backoff (ro_retry options) < 2 ^ 63 * nanos_per_sec" and "powi64_nonneg (x_powi x)"
  shows "\<exists>res w' sent. read_row_with_options x rd self table_id key options w = Some (res, w', sent)
    \<and> (case res of Inl _ \<Rightarrow> True | Inr row \<Rightarrow> row = find (\<lambda>r. row_key r = key) db)"
proof (cases "one_row_query table_id key")
  case (Inl e)
  then show ?thesis by (simp add: read_row_with_options_def)
next
  case (Inr query)
  have "read_start x rd (cl_config self) query options w \<noteq> None"
    by (rule read_start_returns [OF assms(3,4)])
  then obtain res w' sent where run: "read_row_with_options x rd self table_id key options w = Some (res, w', sent)"
    using Inr by (auto simp: read_row_with_options_def read_rows_with_options_def map_result_def)
  then show ?thesis using read_row_found [OF assms(1,2)] by (cases res) auto
qed

text \<open>
  A typed read is the row read with each row mapped: started from the same state it returns
  the same error, or a stream whose items are the items of the row stream, mapped one by one,
  with the errors of the read and of the mapping in their places.
\<close>

lemma typed_read_maps_rows:
  "map_option (\<lambda>(res, w). (map_ok (typed_all from_row n) res, w)) (read_rows_as x rd self query w)
   = map_option (\<lambda>(res, w). (map_ok (\<lambda>rows. map (map_row from_row) (take n rows)) res, w))
       (read_rows x rd self query w)"
  by (cases "read_rows x rd self query w")
    (auto simp: read_rows_as_def map_result_def typed_all_map and_then_def map_ok_def
      split: sum.split prod.split)

text \<open>
  C35. Every request of a connected client carries the version and feature headers. With an
  emulator no token is fetched and no authorization is added; otherwise a request goes out
  only with the bearer header of the provider's token while that is valid, and is refused as
  unauthenticated when it has expired.
\<close>

theorem connected_client_headers:
  assumes "connect_builder x out builder = Ok client"
  shows "cl_config client = cb_config builder
    \<and> (if uses_emulator (cb_config builder)
       then \<exists>request'. interceptor_call now (cl_interceptor client) request = Ok request'
          \<and> request' ''authorization'' = request ''authorization''
          \<and> request' ''x-goog-api-client'' = Some api_client_header
          \<and> x_parse_metadata x (out_encode_flags out feature_flags) = Ok (the (request' ''bigtable-features''))
       else \<exists>token. (cb_provider builder = Some (Ok token) \<or>
              (cb_provider builder = None \<and> out_default_provider out = Ok (Ok token)))
          \<and> (if now < tok_expires_at token
             then \<exists>request'. interceptor_call now (cl_interceptor client) request = Ok request'
                \<and> x_parse_metadata x (''Bearer '' @ tok_secret token) = Ok (the (request' ''authorization''))
                \<and> request' ''x-goog-api-client'' = Some api_client_header
                \<and> x_parse_metadata x (out_encode_flags out feature_flags)
                    = Ok (the (request' ''bigtable-features''))
             else interceptor_call now (cl_interceptor client) request = Err unauthenticated))"
proof (cases "uses_emulator (cb_config builder)")
  case True
  then show ?thesis
    using assms by (auto simp: connect_builder_def result_iffs auth_interceptor_new_def
        feature_flags_header_def interceptor_call_def)
next
  case False
  obtain provider tokens where
    provider: "cb_provider builder = Some provider \<or>
      (cb_provider builder = None \<and> out_default_provider out = Ok provider)" and
    tokens: "token_manager_start x (gcp_token provider) = Ok tokens" and
    client: "auth_interceptor_new x (out_encode_flags out) (Some tokens) = Ok (cl_interceptor client)"
      "cl_config client = cb_config builder"
    using assms False
    by (auto simp: connect_builder_def result_iffs map_ok_Inr_iff split: option.splits)
  obtain token :: AccessToken where token: "provider = Ok token" "gcp_token provider = Ok token"
    and snapshot: "snapshot_try_from x token = Ok (tm_current tokens)"
    using tokens by (cases provider) (auto simp: token_manager_start_def result_iffs)
  have "ts_expires_at (tm_current tokens) = tok_expires_at token"
    "x_parse_metadata x (''Bearer '' @ tok_secret token) = Ok (ts_authorization (tm_current tokens))"
    using snapshot_try_from_Ok [OF snapshot] by simp_all
  moreover have "ai_tokens (cl_interceptor client) = Some tokens"
    "ai_api_client (cl_interceptor client) = api_client_header"
    "x_parse_metadata x (out_encode_flags out feature_flags) = Ok (ai_feature_flags (cl_interceptor client))"
    using auth_interceptor_new_Ok [OF client(1)] by simp_all
  ultimately show ?thesis
    using False provider token(1) client(2)
    by (auto simp: interceptor_call_def authorization_def intro!: exI [of _ token])
qed

theorem read_row_finds_the_row_witness:
  "\<exists>res w' sent. read_row_with_options sample_env sample_table_side
       \<lparr>cl_config = sample_config, cl_channel = Balanced 0 [], cl_interceptor = \<lparr>ai_tokens = None, ai_api_client = api_client_header,
          ai_feature_flags = []\<rparr>, cl_observer = True\<rparr>
       ''t'' [1, 0] read_options_default sample_world = Some (res, w', sent)
     \<and> (case res of Inl _ \<Rightarrow> True
        | Inr row \<Rightarrow> row = find (\<lambda>r. row_key r = [1, 0]) sample_rows)"
  by (rule read_row_finds_the_row [OF sample_table_side_faithful])
    (simp_all add: sample_rows_ok sample_env_def sample_powi_nonneg read_options_default_def
      retry_policy_default_def secs_def nanos_per_sec_def)

definition sample_outside :: Outside where
  "sample_outside = \<lparr>out_default_provider = Err ''no credentials'', out_parse_uri = sample_parse_uri,
     out_tls = None, out_connect = (\<lambda>_. None), out_send = (\<lambda>_. True), out_encode_flags = (\<lambda>_. ''CgE'')\<rparr>"

definition sample_builder :: ClientBuilder where
  "sample_builder = with_token_provider (client_builder_new sample_config)
     (Ok \<lparr>tok_secret = ''a'', tok_expires_at = secs 100\<rparr>)"

theorem connected_client_headers_witness:
  "\<exists>client. connect_builder sample_env sample_outside sample_builder = Ok client
    \<and> (\<exists>request'. interceptor_call (secs 99) (cl_interceptor client) Map.empty = Ok request'
        \<and> request' ''x-goog-api-client'' = Some api_client_header)"
proof -
  have emulator: "\<not> uses_emulator (cb_config sample_builder)"
    by (simp add: sample_builder_def with_token_provider_def client_builder_new_def uses_emulator_def
        sample_config_def)
  obtain client where client: "connect_builder sample_env sample_outside sample_builder = Ok client"
    using emulator
    by (simp add: connect_builder_def sample_builder_def with_token_provider_def client_builder_new_def
        sample_outside_def token_manager_start_def snapshot_try_from_def sample_env_def
        auth_interceptor_new_def feature_flags_header_def channel_connect_def build_endpoint_def
        service_endpoint_def sample_parse_uri_def sample_config_def upt_conv_Cons Let_def)
  have "cb_provider sample_builder = Some (Ok \<lparr>tok_secret = ''a'', tok_expires_at = secs 100\<rparr>)"
    by (simp add: sample_builder_def with_token_provider_def)
  then show ?thesis
    using connected_client_headers [OF client, of "secs 99" Map.empty] client emulator
    by (auto simp: secs_def)
qed

end
