(* ===== verification/WriteThenRead.thy ===== *)
theory WriteThenRead
  imports WriteEffects WriteDelays Client
begin

text \<open>
  A write and a read of one row through clients, over the table that the write left: what a table
  holds of a row, the run of a write of one row, and a table and a service for the example.
\<close>

section \<open>A row that is written and read\<close>

text \<open>
  What a table holds of a row, from the rows a read gives: the versions of each cell. A database
  stores a table when its rows hold what the table has under their keys.
\<close>

definition contents_of :: "Row option \<Rightarrow> contents" where
  "contents_of row = (case row of
      None \<Rightarrow> (\<lambda>_. None)
    | Some r \<Rightarrow> (\<lambda>(f, q, t). map_option cell_value
        (find (\<lambda>c. cell_timestamp_micros c = t) (cells_at (row_families r) f q))))"

definition stores :: "Row list \<Rightarrow> table \<Rightarrow> bool" where
  "stores db T \<longleftrightarrow> (\<forall>key. contents_of (find (\<lambda>r. row_key r = key) db) = T key)"

lemma mutate_row_runs:
  assumes "mutate_row_with_options x len svc sch self table_id m options w = Some (Ok (), w', sents)"
  obtains bulk r where "bm_entries bulk = [m]"
    "execute x len svc sch (cl_config self) bulk options w = Some (Ok r, w', sents)"
proof -
  obtain bulk where bulk: "one_entry_bulk table_id m = Ok bulk"
    using assms by (auto simp: mutate_row_with_options_def split: sum.splits)
  then have "bm_entries bulk = [m]"
    by (auto simp: one_entry_bulk_def bulk_new_def bulk_entry_def bulk_push_def result_iffs split: if_splits)
  moreover obtain res where "execute x len svc sch (cl_config self) bulk options w = Some (res, w', sents)"
    "\<exists>r. res = Ok r"
    using assms bulk
    by (auto simp: mutate_row_with_options_def mutate_rows_with_options_def map_result_def and_then_Inr_iff)
  ultimately show thesis using that by blast
qed

text \<open>A row that is written to an empty table, by a service that confirms it at once.\<close>

definition confirming_service :: Service where
  "confirming_service = sample_service\<lparr>sv_mutate_rows :=
     (\<lambda>_ _ _. MutateReply.Connected [Response [\<lparr>re_index = 0, re_status = None\<rparr>]])\<rparr>"

definition written_db :: "Row list" where
  "written_db = [\<lparr>row_key = [1], row_families = [\<lparr>fam_name = ''f'', fam_columns =
     [\<lparr>col_qualifier = [1], col_cells = [sample_cell 5000 [9]]\<rparr>]\<rparr>]\<rparr>]"

definition written_side :: ReadSide where
  "written_side = sample_table_side\<lparr>rd_read_rows := (\<lambda>_ request.
     if rr_reversed (sr_message request) then Streaming [ReadError attempt_timeout_status]
     else Streaming (full_reply written_db (sr_message request)))\<rparr>"

definition sample_client :: Client where
  "sample_client = \<lparr>cl_config = sample_config, cl_channel = Balanced 0 [], cl_interceptor =
     \<lparr>ai_tokens = None, ai_api_client = api_client_header, ai_feature_flags = []\<rparr>, cl_observer = True\<rparr>"

lemma written_side_faithful: "faithful written_db written_side" "scan.in_order False (map row_key written_db)"
proof -
  have ok: "list_all row_ok written_db"
    by (simp add: written_db_def sample_cell_def row_ok_def families_ok_def family_ok_def)
  show order: "scan.in_order False (map row_key written_db)" by (simp add: written_db_def scan.in_order_def)
  show "faithful written_db written_side"
    using replies_serve(2) [OF ok] order broken_off_serves
    by (auto simp: faithful_def written_side_def sample_table_side_def full_reply_def reply_rows_def)
qed

lemma confirming_first:
  assumes "run_loop sample_env confirming_service self w [] = Some (self', w', sent')"
    and "bo_pending self = [e]" "0 < bo_deadline self"
  shows "carries sent' (pe_original_index e) 0 0 \<and> length (fst (sent' ! 0)) = 1"
proof -
  obtain w1 where now: "now_instant (x_clock sample_env) w = (0, w1)" by (simp add: now_instant_def sample_env_def)
  obtain current request attempt self1 w2 where
    first: "run_attempt sample_env confirming_service self w1 = ((current, request, attempt), self1, w2)"
    by (metis prod.exhaust)
  have "current = [count_attempt e]"
    using run_attempt_ok [of self sample_env confirming_service w1] first assms(2) by (simp add: round_ok_def)
  moreover have "prefix [(current, request)] sent'"
    using assms now first
    by (subst (asm) run_loop.simps)
      (auto simp: Let_def dest: run_loop_extends split: if_splits option.splits)
  ultimately show ?thesis by (auto simp: prefix_def carries_def count_attempt_def)
qed

lemma confirming_verdict:
  "verdict sample_env 1 (sv_mutate_rows confirming_service b n request) 0 = Some (Ok ())"
  by (simp add: verdict_def confirming_service_def valid_results_def result_of_def status_result_def)

lemma sample_written:
  obtains w sents where "mutate_row_with_options sample_env sample_lengths confirming_service
    (sample_schedule [0]) sample_client ''t'' sample_row_mutation one_entry_options sample_world
      = Some (Ok (), w, sents)"
proof -
  obtain bulk where bulk: "one_entry_bulk ''t'' sample_row_mutation = Ok bulk" "bm_entries bulk = [sample_row_mutation]"
    by (simp add: one_entry_bulk_def bulk_new_def validate_table_id_def chars_count_def is_continuation_def
        max_table_id_chars_def bulk_entry_def bulk_push_def row_is_empty_def sample_row_mutation_def)
  obtain res w sents where run: "execute sample_env sample_lengths confirming_service (sample_schedule [0])
      sample_config bulk one_entry_options sample_world = Some (res, w, sents)" and ran: "ran_batches res"
    by (rule one_entry_ran [of bulk confirming_service "[0]"]) (simp add: bulk)
  have sch: "schedule_ok (sample_schedule [0])
      (length (operation_batches sample_lengths sample_config bulk one_entry_options))"
    by (simp add: one_row_batches [OF bulk(2)] schedule_ok_def sample_schedule_def)
  obtain ctx wa self wb sent where sents: "sents = [sent]" and ctx:
    "ctx_deadline ctx = x_clock sample_env (w_ticks sample_world) + operation_timeout (wo_deadlines one_entry_options)"
    and loop: "run_loop sample_env confirming_service (batch_operation ctx 0 [pending_of (0, sample_row_mutation)]) wa []
      = Some (self, wb, sent)"
    by (rule one_row_run [OF run bulk(2) ran])
  have "0 < ctx_deadline ctx"
    using ctx by (simp add: one_entry_options_def bulk_mutation_options_default_def secs_def nanos_per_sec_def)
  then have "carries sent 0 0 0" "length (fst (sent ! 0)) = 1"
    using confirming_first [OF loop] by (simp_all add: batch_operation_def pending_of_def)
  then have "entry_confirmed sample_env confirming_service (sample_schedule [0]) sents 0"
    using confirming_verdict unfolding entry_confirmed_def confirmed_def answer_def
    by (intro exI [of _ 0]) (auto simp: sents intro!: exI [of _ 0])
  then have "0 \<notin> mf_index ` set (listed_failures res)"
    using execute_answered [OF run sch ran] bulk(2) by auto
  then have "\<exists>r. res = Ok r"
    using execute_accounts [OF run sch] ran bulk(2)
    by (cases res) (auto simp: result_accounts_def ran_batches_def listed_failures_def list_all_iff neq_Nil_conv
        split: Error.splits)
  then show thesis
    using that run bulk(1)
    by (auto simp: mutate_row_with_options_def mutate_rows_with_options_def map_result_def sample_client_def)
qed

text \<open>Reading the row: one attempt, one message.\<close>

definition sample_row_query :: Query where
  "sample_row_query = \<lparr>q_table_id = ''t'', q_row_keys = [[1]], q_row_ranges = [], q_filter = None,
     q_limit = Some 1, q_reversed = False\<rparr>"

abbreviation "sample_row_request \<equiv> into_request sample_row_query sample_config"

lemma sample_row_query: "one_row_query ''t'' [1] = Ok sample_row_query"
  by (simp add: one_row_query_def query_new_def query_row_key_def query_limit_def validate_table_id_def
      chars_count_def is_continuation_def max_table_id_chars_def i64_max_def result_iffs sample_row_query_def)

lemma sample_row_request:
  "scan_result written_db sample_row_request = written_db"
  "resume_request sample_row_request None 0 = Some sample_row_request"
  "rr_reversed sample_row_request = False" "rr_rows_limit sample_row_request = 1"
  by (simp_all add: sample_row_query_def scan_result_def written_db_def into_request_def request_selects_def
      in_row_set_def resume_request_def Let_def)

lemma sample_row_opened:
  assumes "ro_original self = sample_row_request" "ro_progress self = None" "ro_rows_returned self = 0"
    and "0 < ro_deadline self" "ro_deadline self \<le> secs 600"
  obtains active self1 w1 sent1 where
    "read_open sample_env written_side False self None w [] = Some (Ok (Active active), self1, w1, sent1)"
    "aa_stream active = full_reply written_db sample_row_request" "only_telemetry (self\<lparr>ro_attempts := ro_attempts self + 1\<rparr>) self1"
proof -
  have "\<exists>active self1 w1 sent1. read_open sample_env written_side False self None w [] = Some (Ok (Active active), self1, w1, sent1)
    \<and> aa_stream active = full_reply written_db sample_row_request \<and> only_telemetry (self\<lparr>ro_attempts := ro_attempts self + 1\<rparr>) self1"
    using assms
    by (subst read_open.simps)
      (simp add: open_attempt_def remaining_def now_instant_def sample_row_request checked_add_def written_side_def
        sample_env_def secs_def nanos_per_sec_def Let_def split_beta)
  then show thesis using that by blast
qed

lemma sample_row_items:
  assumes "ro_original self = sample_row_request" "ro_rows_returned self = 0" "ro_merger self = merger_new False"
    and "ro_progress self = None"
  shows "\<exists>self' w'. read_items sample_env written_side self active (full_reply written_db sample_row_request) w []
    = (TaskEnds, self', w', map Ok written_db)"
proof -
  have ok: "list_all row_ok written_db"
    by (simp add: written_db_def sample_cell_def row_ok_def families_ok_def family_ok_def)
  obtain m' where merged: "merge_run (merger_new False) (map PushChunk (concat (map encode_row written_db))) = (written_db, Ok m')"
    using merge_encoded_rows [OF between_rows_new ok written_side_faithful(2)] by (auto simp: list_all_iff)
  have takes: "rd_takes written_side n" for n by (simp add: written_side_def sample_table_side_def)
  obtain t v where first: "first_response (x_clock sample_env) (aa_telemetry active, w) = (t, v)" by fastforce
  obtain w' where chunks: "handle_chunks sample_env written_side self (concat (map encode_row written_db)) v [] =
      (Ok True, self\<lparr>ro_merger := m', ro_rows_returned := ro_rows_returned self + int (length written_db),
         ro_progress := m_last_complete_key m'\<rparr>, w', [] @ map Inr written_db)"
    using handle_chunks_run [of self "concat (map encode_row written_db)" written_db m' written_side sample_env v "[]"]
      assms(3,4) takes merger_inv_new [of False] merged by (auto simp: merger_new_def)
  have "length written_db = 1" by (simp add: written_db_def)
  then show ?thesis
    using first chunks assms
    by (simp add: full_reply_def reply_rows_def sample_row_request handle_response_def limit_reached_def split_beta Let_def)
qed

lemma sample_row_read:
  obtains v requests where "read_row_with_options sample_env written_side sample_client ''t'' [1] read_options_default
    sample_world = Some (Ok (Some (hd written_db)), v, requests)"
proof -
  have checks: "and_then (validate read_options_default) (\<lambda>_. query_validate sample_row_query) = Ok ()"
    by (simp add: validate_def query_validate_def sample_row_query_def read_options_default_def retry_policy_default_def
        deadline_policy_default_def validate_policies_def millis_def secs_def nanos_per_sec_def is_finite_def less_f64_def
        map_err_Inr_iff and_then_Inr_iff max_row_key_bytes_def i64_max_def)
  obtain routing where routing: "read_routing sample_env (rr_table_name sample_row_request) = Ok routing"
    by (simp add: read_routing_def sample_env_def)
  obtain t w1 where now: "now_instant (x_clock sample_env) sample_world = (t, w1)" by fastforce
  have deadline: "checked_add sample_env t (operation_timeout (ro_deadlines read_options_default)) = Some (secs 600)"
    using now by (auto simp: now_instant_def checked_add_def sample_env_def read_options_default_def
        deadline_policy_default_def secs_def nanos_per_sec_def)
  obtain op w2 where op: "telemetry_operation (x_clock sample_env) sample_config BigtableOperation.ReadRows ''t'' 0 w1 = (op, w2)"
    by fastforce
  let ?self = "read_operation_new sample_row_request routing read_options_default (secs 600) op"
  have self: "ro_original ?self = sample_row_request" "ro_progress ?self = None" "ro_rows_returned ?self = 0"
    "0 < ro_deadline ?self" "ro_deadline ?self \<le> secs 600" "ro_merger ?self = merger_new False"
    by (simp_all add: read_operation_new_def sample_row_request secs_def nanos_per_sec_def)
  obtain active self1 w3 sent where opened:
    "read_open sample_env written_side False ?self None w2 [] = Some (Ok (Active active), self1, w3, sent)"
    "aa_stream active = full_reply written_db sample_row_request"
    "only_telemetry (?self\<lparr>ro_attempts := ro_attempts ?self + 1\<rparr>) self1"
    by (rule sample_row_opened [OF self(1-5)])
  have same: "ro_original self1 = sample_row_request" "ro_rows_returned self1 = 0"
    "ro_merger self1 = merger_new False" "ro_progress self1 = None"
    using only_telemetryD [OF opened(3)] self by simp_all
  obtain self2 w4 where items: "read_items sample_env written_side self1 active (full_reply written_db sample_row_request) w3 []
      = (TaskEnds, self2, w4, map Ok written_db)"
    using sample_row_items [OF same] by blast
  have "q_table_id sample_row_query = ''t''" by (simp add: sample_row_query_def)
  then have "\<exists>v requests. read_start sample_env written_side sample_config sample_row_query read_options_default sample_world
    = Some (Ok (map Ok written_db), v, requests)"
    using checks routing now deadline op opened(1,2) items
    by (simp add: read_start_def read_run.simps [of _ _ self1 active])
  then show thesis
    using that sample_row_query
    by (auto simp: read_row_with_options_def read_rows_with_options_def map_result_def sample_client_def
        first_row_def stream_next_def written_db_def)
qed

lemma sample_row_stored:
  assumes run: "mutate_row_with_options sample_env sample_lengths confirming_service (sample_schedule [0])
      sample_client ''t'' sample_row_mutation one_entry_options sample_world = Some (Ok (), w, sents)"
    and sch: "schedule_ok (sample_schedule [0]) 1"
  obtains served where "log_documented sample_env confirming_service (sample_schedule [0]) sents served"
    "stores written_db (foldl (apply_at (\<lambda>_ s. s) sents) (\<lambda>_ _. None) served)"
proof -
  obtain bulk r where bulk: "bm_entries bulk = [sample_row_mutation]"
    and run': "execute sample_env sample_lengths confirming_service (sample_schedule [0]) sample_config bulk
      one_entry_options sample_world = Some (Ok r, w, sents)"
    using mutate_row_runs [OF run] by (auto simp: sample_client_def)
  have sch': "schedule_ok (sample_schedule [0])
      (length (operation_batches sample_lengths sample_config bulk one_entry_options))"
    using sch by (simp add: one_row_batches [OF bulk])
  have "entry_idempotency (entry_at sents p) = None" if "sent_at sents p" for p
    using place_row [OF run' sch' that] by (auto simp: bulk sample_row_mutation_def into_proto_def)
  from all_applied_documented [OF this] obtain served
    where doc: "log_documented sample_env confirming_service (sample_schedule [0]) sents served" by blast
  have here: "0 < length (bm_entries bulk)" "bm_entries bulk ! 0 = sample_row_mutation"
    "distinct (map rm_row_key (bm_entries bulk))" by (simp_all add: bulk)
  have "0 \<notin> mf_index ` set (listed_failures (Ok r))" "ran_batches (Ok r)"
    by (simp_all add: listed_failures_def ran_batches_def)
  then have "entry_confirmed sample_env confirming_service (sample_schedule [0]) sents 0"
    using execute_answered [OF run' sch'] here(1) by blast
  then obtain t where "applied_at sents served (rm_row_key sample_row_mutation) = Some t"
    using confirmed_applied [OF run' sch' doc] here(2) by force
  then have written: "foldl (apply_at (\<lambda>_ s. s) sents) (\<lambda>_ _. None) served [1]
      = apply_entry (\<lambda>_ s. s) t (into_proto sample_row_mutation) (\<lambda>_. None)"
    using row_applied_once [OF run' sch' here(3) doc here(1), of "\<lambda>_ s. s" "\<lambda>_ _. None"] here(2)
    by (simp add: sample_row_mutation_def)
  have other: "foldl (apply_at (\<lambda>_ s. s) sents) (\<lambda>_ _. None) served key = (\<lambda>_. None)" if "key \<noteq> [1]" for key
    using other_rows [OF run' sch' doc, of key] that by (simp add: bulk sample_row_mutation_def)
  have "stores written_db (foldl (apply_at (\<lambda>_ s. s) sents) (\<lambda>_ _. None) served)"
    unfolding stores_def
  proof
    fix key :: bytes
    show "contents_of (find (\<lambda>r. row_key r = key) written_db)
        = foldl (apply_at (\<lambda>_ s. s) sents) (\<lambda>_ _. None) served key"
      using written other [of key]
      by (cases "key = [1]") (auto simp: written_db_def contents_of_def cells_at_def sample_cell_def
          sample_row_mutation_def apply_entry_def into_proto_def fun_eq_iff)
  qed
  with doc show thesis by (rule that)
qed

end
