(* ===== verification/Observer.thy ===== *)
theory Observer
  imports Read BulkWrite
begin

text \<open>
  An observer changes nothing: a read or a bulk mutation without one goes through the same
  requests, waits, results, measurements and counters as with one; only the events are missing.
\<close>

section \<open>Without an observer\<close>

definition mute :: "World \<Rightarrow> World" where
  "mute w = w\<lparr>w_observer := False, w_events := []\<rparr>"

named_theorems mute_simps

lemma mute_fields [simp]:
  "w_ticks (mute w) = w_ticks w" "w_measurements (mute w) = w_measurements w"
  "w_context (mute w) = w_context w" "w_attempts (mute w) = w_attempts w"
  "w_retries (mute w) = w_retries w" "w_observer (mute w) = False" "w_events (mute w) = []"
  by (simp_all add: mute_def)

lemma mute_updates [simp]:
  "(mute w)\<lparr>w_ticks := k\<rparr> = mute (w\<lparr>w_ticks := k\<rparr>)"
  "(mute w)\<lparr>w_measurements := ms\<rparr> = mute (w\<lparr>w_measurements := ms\<rparr>)"
  "(mute w)\<lparr>w_context := c\<rparr> = mute (w\<lparr>w_context := c\<rparr>)"
  "(mute w)\<lparr>w_attempts := n\<rparr> = mute (w\<lparr>w_attempts := n\<rparr>)"
  "(mute w)\<lparr>w_retries := n\<rparr> = mute (w\<lparr>w_retries := n\<rparr>)"
  by (simp_all add: mute_def)

lemma mute_emit [simp]: "emit e (mute w) = mute w" "mute (emit e w) = mute w"
  by (simp_all add: emit_def mute_def)

lemma mute_record [simp]: "record_measurements ms (mute w) = mute (record_measurements ms w)"
  by (simp add: record_measurements_def)

lemma mute_now [mute_simps]: "now_instant clk (mute w) = map_prod id mute (now_instant clk w)"
  by (simp add: now_instant_def)

lemma mute_elapsed [mute_simps]: "elapsed clk t (mute w) = map_prod id mute (elapsed clk t w)"
  by (simp add: elapsed_def split_beta mute_simps)

lemma mute_telemetry [mute_simps]:
  "telemetry_operation clk config op table n (mute w) = map_prod id mute (telemetry_operation clk config op table n w)"
  "handle_attempt clk b a n timeout (mute w) = map_prod id mute (handle_attempt clk b a n timeout w)"
  "handle_retry b a code delay n (mute w) = mute (handle_retry b a code delay n w)"
  "application_blocked el (mute w) = mute (application_blocked el w)"
  "first_response clk (t, mute w) = map_prod id mute (first_response clk (t, w))"
  "attempt_finish clk code summary (t, mute w) = map_prod id mute (attempt_finish clk code summary (t, w))"
  "operation_finish clk code summary (o', mute w) = map_prod id mute (operation_finish clk code summary (o', w))"
  "operation_drop clk (o', mute w) = mute (operation_drop clk (o', w))"
  by (simp_all add: telemetry_operation_def handle_attempt_def handle_retry_def application_blocked_def
      first_response_def attempt_finish_def attempt_record_finish_def operation_finish_def
      operation_drop_def operation_record_finish_def record_measurements_def elapsed_def now_instant_def
      emit_def mute_def Let_def)

lemma mute_telemetry_pair [mute_simps]:
  "first_response clk (map_prod id mute p) = map_prod id mute (first_response clk p)"
  "attempt_finish clk code summary (map_prod id mute p) = map_prod id mute (attempt_finish clk code summary p)"
  "operation_finish clk code summary (map_prod id mute q) = map_prod id mute (operation_finish clk code summary q)"
  "operation_drop clk (map_prod id mute q) = mute (operation_drop clk q)"
  by (cases p; cases q; simp add: mute_simps)+

section \<open>Bulk mutations\<close>

abbreviation mute3 :: "'a \<times> 'b \<times> World \<Rightarrow> 'a \<times> 'b \<times> World" where
  "mute3 \<equiv> map_prod id (map_prod id mute)"

abbreviation mute_mid :: "'a \<times> World \<times> 'b \<Rightarrow> 'a \<times> World \<times> 'b" where
  "mute_mid \<equiv> map_prod id (map_prod mute id)"

lemma mute_consume_items [mute_simps]:
  "consume_items x n s items (t, mute w) = mute3 (consume_items x n s items (t, w))"
proof (induction x n s items "(t, w)" arbitrary: t w rule: consume_items.induct)
  case (4 x n s rs items t w)
  obtain t1 w1 where first: "first_response (x_clock x) (t, w) = (t1, w1)" by fastforce
  obtain s1 issue where entries: "consume_entries x n s rs = (s1, issue)" by fastforce
  show ?case
    using 4 [OF first [symmetric] entries [symmetric]] first entries
    by (cases issue) (simp_all add: mute_simps)
qed simp_all

lemma mute_consume_stream [mute_simps]:
  "consume_stream x limit current items (t, mute w) = mute3 (consume_stream x limit current items (t, w))"
  by (simp add: consume_stream_def split_beta mute_simps)

lemma mute_consume_stream_pair [mute_simps]:
  "consume_stream x limit current items (map_prod id mute p) = mute3 (consume_stream x limit current items p)"
  by (cases p) (simp add: mute_simps)

lemma mute_write_request [mute_simps]:
  "write_request x self entries d (mute w) = map_prod id mute (write_request x self entries d w)"
  by (simp add: write_request_def split_beta mute_simps)

lemma mute_run_attempt [mute_simps]:
  "run_attempt x svc self (mute w) = mute3 (run_attempt x svc self w)"
  by (simp add: run_attempt_def Let_def split_beta mute_simps split: MutateReply.split)

lemma mute_run_pause [mute_simps]:
  "run_pause x svc attempt self (mute w) = map_option mute3 (run_pause x svc attempt self w)"
  by (simp add: run_pause_def Let_def split_beta mute_simps split: option.split)

lemma mute_run_loop [mute_simps]:
  "run_loop x svc self (mute w) sent = map_option mute_mid (run_loop x svc self w sent)"
proof (induction x svc self w sent rule: run_loop.induct)
  case (1 x svc self w sent)
  obtain t w1 where now: "now_instant (x_clock x) w = (t, w1)" by fastforce
  obtain current request attempt self1 w2 where
    run: "run_attempt x svc self w1 = ((current, request, attempt), self1, w2)"
    by (metis prod.exhaust)
  let ?sent = "sent @ [(current, request)]"
  show ?case
  proof (cases "bo_pending self = [] \<or> t \<ge> bo_deadline self \<or> bo_pending self1 = []")
    case True
    then show ?thesis
      using now run by (subst (1 2) run_loop.simps) (auto simp: mute_simps)
  next
    case False
    show ?thesis
    proof (cases "run_pause x svc attempt self1 w2")
      case None
      then show ?thesis using now run False by (subst (1 2) run_loop.simps) (simp add: mute_simps)
    next
      case (Some p)
      obtain continue self2 w3 where p: "p = (continue, self2, w3)" by (cases p)
      have "continue \<Longrightarrow> run_loop x svc self2 (mute w3) ?sent = map_option mute_mid (run_loop x svc self2 w3 ?sent)"
        using 1 [OF _ now [symmetric] refl _ run [symmetric] refl refl refl refl _ Some [unfolded p] refl refl] False by blast
      then show ?thesis
        using now run False Some p by (cases continue; subst (1 2) run_loop.simps) (simp_all add: mute_simps Let_def)
    qed
  qed
qed

lemma mute_batch_run [mute_simps]:
  "batch_run x svc self (mute w) = map_option mute_mid (batch_run x svc self w)"
  by (cases "run_loop x svc self w []") (auto simp: batch_run_def mute_simps)

lemma those_map_option: "those (map (map_option f) xs) = map_option (map f) (those xs)"
proof (induction xs)
  case (Cons a xs)
  then show ?case by (cases a; cases "those xs") simp_all
qed simp

text \<open>
  The merged log of concurrent batches is what a schedule makes of theirs, so that worlds are
  compared without their events from here on.
\<close>

lemma mute_join: "mute (join_worlds sch n (mute w) (map mute ws)) = mute (join_worlds sch n w ws)"
  by (simp add: join_worlds_def mute_def comp_def)

lemma mute_mute [simp]: "mute (mute w) = mute w"
  by (simp add: mute_def)

lemma mute_run_batches:
  "map_option mute_mid (run_batches x svc sch ctx batches (mute w))
     = map_option mute_mid (run_batches x svc sch ctx batches w)"
proof (cases "length batches = 1")
  case True
  then show ?thesis
    by (cases "batch_run x svc (batch_operation ctx 0 (hd batches)) w")
      (auto simp: run_batches_def mute_simps)
next
  case False
  let ?start = "w\<lparr>w_events := [], w_measurements := [], w_attempts := 0, w_retries := 0\<rparr>"
  let ?run = "\<lambda>v i. batch_run (x\<lparr>x_clock := sc_clock sch i, x_rand := sc_rand sch i\<rparr>) svc
      (batch_operation ctx i (batches ! i)) v"
  have start: "(mute w)\<lparr>w_events := [], w_measurements := [], w_attempts := 0, w_retries := 0\<rparr> = mute ?start"
    by (simp add: mute_def)
  have outs: "those (map (?run (mute ?start)) (sc_order sch))
      = map_option (map mute_mid) (those (map (?run ?start) (sc_order sch)))"
    unfolding those_map_option [symmetric] by (simp add: comp_def mute_simps)
  show ?thesis
  proof (cases "those (map (?run ?start) (sc_order sch))")
    case None
    then show ?thesis using False outs by (simp add: run_batches_def start Let_def)
  next
    case (Some rs)
    have "map fst (map mute_mid rs) = map fst rs" "map (snd \<circ> snd) (map mute_mid rs) = map (snd \<circ> snd) rs"
      "map (fst \<circ> snd) (map mute_mid rs) = map mute (map (fst \<circ> snd) rs)" by simp_all
    then show ?thesis
      using False outs Some mute_join [of sch "max_in_flight_requests (wo_batch (ctx_options ctx))" w "map (fst \<circ> snd) rs"]
      by (simp only: run_batches_def start Let_def if_False option.case option.map map_prod_simp id_apply)
  qed
qed

lemma mute_finish:
  assumes "mute v = mute w"
  shows "fst (operation_finish clk code summary (t, v)) = fst (operation_finish clk code summary (t, w))"
    and "mute (snd (operation_finish clk code summary (t, v))) = mute (snd (operation_finish clk code summary (t, w)))"
proof -
  have "map_prod id mute (operation_finish clk code summary (t, v))
      = map_prod id mute (operation_finish clk code summary (t, w))"
    by (simp only: mute_telemetry(7) [symmetric] assms)
  then show "fst (operation_finish clk code summary (t, v)) = fst (operation_finish clk code summary (t, w))"
    and "mute (snd (operation_finish clk code summary (t, v))) = mute (snd (operation_finish clk code summary (t, w)))"
    by (simp_all add: prod_eq_iff)
qed

lemma mute_execute:
  "map_option mute_mid (execute x len svc sch config mutation options (mute w))
     = map_option mute_mid (execute x len svc sch config mutation options w)"
proof (cases "validate_options options")
  case (Inl error)
  then show ?thesis by (simp add: execute_def)
next
  case valid: (Inr u)
  show ?thesis
  proof (cases "bm_entries mutation = []")
    case True
    with valid show ?thesis by (simp add: execute_def)
  next
    case False
    obtain t w1 where now: "now_instant (x_clock x) w = (t, w1)" by fastforce
    show ?thesis
    proof (cases "checked_add x t (operation_timeout (wo_deadlines options))")
      case None
      with valid False now show ?thesis by (simp add: execute_def mute_simps)
    next
      case deadline: (Some d)
      show ?thesis
      proof (cases "routing_header x (table_name config (bm_table_id mutation))")
        case (Inl error)
        with valid False now deadline show ?thesis by (simp add: execute_def into_parts_def mute_simps)
      next
        case routing: (Inr routing)
        obtain op w2 where op: "telemetry_operation (x_clock x) config MutateRows (bm_table_id mutation)
            (length (bm_entries mutation)) w1 = (op, w2)" by fastforce
        let ?ctx = "\<lparr>ctx_app_profile_id = app_profile_id config,
            ctx_table_name = table_name config (bm_table_id mutation), ctx_routing = routing,
            ctx_options = options, ctx_deadline = d\<rparr>"
        let ?batches = "operation_batches len config mutation options"
        let ?fin = "\<lambda>((n, r, fs), wb, sents). let fs = sort_key mf_index fs in
            if fs = [] then
              (Ok \<lparr>br_entries = n, br_rpc_attempts = r, br_request_batches = length ?batches\<rparr>,
               snd (operation_finish (x_clock x) OkCode (summary_default\<lparr>sum_successful_entries := n\<rparr>) (op, wb)), sents)
            else (Err (BulkMutation \<lparr>bme_total_entries = length (bm_entries mutation),
                 bme_successful_entries = n, bme_rpc_attempts = r, bme_failures = fs\<rparr>),
               snd (operation_finish (x_clock x) (mutation_failures_code fs)
                 (summary_default\<lparr>sum_successful_entries := n, sum_failed_entries := length fs\<rparr>) (op, wb)), sents)"
        have run: "execute x len svc sch config mutation options w = map_option ?fin (run_batches x svc sch ?ctx ?batches w2)"
          "execute x len svc sch config mutation options (mute w)
             = map_option ?fin (run_batches x svc sch ?ctx ?batches (mute w2))"
          using valid False now deadline routing op
          by (simp_all add: execute_def into_parts_def Let_def split_beta mute_simps split: option.split)
        have "mute_mid (?fin p) = mute_mid (?fin q)" if "mute_mid p = mute_mid q" for p q
        proof -
          obtain n r fs v s where p: "p = ((n, r, fs), v, s)" by (metis prod.exhaust)
          moreover obtain n' r' fs' v' s' where "q = ((n', r', fs'), v', s')" by (metis prod.exhaust)
          ultimately have q: "q = ((n, r, fs), v', s)" and same: "mute v = mute v'" using that by auto
          show ?thesis
            by (cases "sort_key mf_index fs = []") (simp_all add: p q Let_def mute_finish(2) [OF same])
        qed
        then show ?thesis
          using mute_run_batches [of x svc sch ?ctx ?batches w2] unfolding run
          by (cases "run_batches x svc sch ?ctx ?batches w2"; cases "run_batches x svc sch ?ctx ?batches (mute w2)")
            (simp_all only: option.map option.simps)
      qed
    qed
  qed
qed

section \<open>Reads\<close>

abbreviation mute4 :: "'a \<times> 'b \<times> World \<times> 'c \<Rightarrow> 'a \<times> 'b \<times> World \<times> 'c" where
  "mute4 \<equiv> map_prod id (map_prod id (map_prod mute id))"

lemma mute_pair [mute_simps]: "(fst p, mute (snd p)) = map_prod id mute p"
  by (cases p) simp

lemma mute_finishes [mute_simps]:
  "active_finish x code active (mute w) = map_prod id mute (active_finish x code active w)"
  "read_finish x code self (mute w) = map_prod id mute (read_finish x code self w)"
  by (simp_all add: active_finish_def read_finish_def split_beta mute_simps)

lemma mute_remaining [mute_simps]:
  "remaining x self (mute w) = mute3 (remaining x self w)"
  by (simp add: remaining_def split_beta mute_simps)

lemma mute_open_pause [mute_simps]:
  "open_pause x rd sender status self (mute w) = map_option mute3 (open_pause x rd sender status self w)"
proof -
  obtain left self1 w1 where "remaining x self w = (left, self1, w1)" by (metis prod_cases3)
  then show ?thesis
    by (cases left)
      (auto simp: open_pause_def Let_def split_beta mute_simps split: option.split)
qed

lemma mute_open_attempt [mute_simps]:
  "open_attempt x rd sender self (mute w) sent = mute4 (open_attempt x rd sender self w sent)"
proof -
  obtain left self1 w1 where "remaining x self w = (left, self1, w1)" by (metis prod_cases3)
  then show ?thesis
    by (cases left)
      (auto simp: open_attempt_def Let_def split_beta mute_simps split: option.split ReadReply.split)
qed

lemma mute_read_open [mute_simps]:
  "read_open x rd sender self failure (mute w) sent = map_option mute4 (read_open x rd sender self failure w sent)"
proof (induction x rd sender self failure w sent rule: read_open.induct)
  case (1 x rd sender self failure w sent)
  obtain t w1 where now: "now_instant (x_clock x) w = (t, w1)" by fastforce
  define pause where "pause = (\<lambda>v. case failure of None \<Rightarrow> Some (None, self, v)
      | Some status \<Rightarrow> open_pause x rd sender status self v)"
  have fold: "(case failure of None \<Rightarrow> Some (None, self, v)
      | Some status \<Rightarrow> open_pause x rd sender status self v) = pause v" for v
    by (simp add: pause_def)
  have mute: "pause (mute w1) = map_option mute3 (pause w1)"
    by (simp add: pause_def mute_simps split: option.split)
  show ?case
  proof (cases "t \<ge> ro_deadline self \<or> pause w1 = None")
    case True
    then show ?thesis
      using now mute
      by (subst (1 2) read_open.simps) (auto simp: mute_simps split_beta fold)
  next
    case False
    then obtain r self1 w2 where p: "pause w1 = Some (r, self1, w2)" by auto
    show ?thesis
    proof (cases r)
      case (Some res)
      then show ?thesis
        using now mute False p
        by (subst (1 2) read_open.simps) (simp add: mute_simps fold)
    next
      case None
      obtain a self2 w3 sent2 where attempt: "open_attempt x rd sender self1 w2 sent = (a, self2, w3, sent2)"
        by (metis prod_cases4)
      have IH: "read_open x rd sender self2 (Some status) (mute w3) sent2
          = map_option mute4 (read_open x rd sender self2 (Some status) w3 sent2)" if "a = Inr status" for status
        using 1 [OF refl now [symmetric] _ p [unfolded pause_def] refl None refl attempt [symmetric, unfolded that] refl refl]
          False by blast
      then show ?thesis
        using now mute False p None attempt
        by (cases a; subst (1 2) read_open.simps) (simp_all add: mute_simps fold)
    qed
  qed
qed

lemma mute_handle_chunks [mute_simps]:
  "handle_chunks x rd self chunks (mute w) out = mute4 (handle_chunks x rd self chunks w out)"
proof (induction chunks arbitrary: self w out)
  case (Cons chunk chunks)
  obtain res m where push: "push (ro_merger self) chunk = (res, m)" by fastforce
  show ?case
  proof (cases res)
    case (Inr r)
    then show ?thesis
      using push Cons.IH by (cases r) (simp_all add: Let_def split_beta mute_simps)
  qed (simp add: push)
qed simp

lemma mute_handle_response [mute_simps]:
  "handle_response x rd self response (mute w) out = mute4 (handle_response x rd self response w out)"
  by (cases "scan_marker (ro_merger self) (rsp_last_scanned_row_key response)"; cases "fst (scan_marker (ro_merger self) (rsp_last_scanned_row_key response))")
    (simp_all add: handle_response_def mute_simps)

lemma mute_read_items [mute_simps]:
  "read_items x rd self active items (mute w) out = mute4 (read_items x rd self active items w out)"
proof (induction items arbitrary: self active w out)
  case Nil
  then show ?case by (simp add: Let_def split_beta mute_simps split: sum.split)
next
  case (Cons item items)
  show ?case
  proof (cases item)
    case (Message response)
    obtain t w1 where first: "first_response (x_clock x) (aa_telemetry active, w) = (t, w1)" by fastforce
    obtain res self1 w2 out1 where
      h: "handle_response x rd self response w1 out = (res, self1, w2, out1)" by (metis prod_cases4)
    consider e where "res = Inl e" | "res = Inr True" | "res = Inr False" by (cases res) auto
    then show ?thesis
      by cases (simp_all add: Message first h Cons.IH Let_def split_beta mute_simps)
  qed (simp_all add: Let_def split_beta mute_simps)
qed

lemma mute_read_run [mute_simps]:
  "read_run x rd self active (mute w) sent out = map_option mute_mid (read_run x rd self active w sent out)"
proof (induction x rd self active w sent out rule: read_run.induct)
  case (1 x rd self active w sent out)
  obtain e self1 w1 out1 where items: "read_items x rd self active (aa_stream active) w out = (e, self1, w1, out1)"
    by (metis prod_cases4)
  show ?case
  proof (cases e)
    case TaskEnds
    then show ?thesis using items by (subst (1 2) read_run.simps) (simp add: mute_simps)
  next
    case (AttemptFails status)
    show ?thesis
    proof (cases "read_open x rd True self1 (Some status) w1 sent")
      case None
      then show ?thesis using items AttemptFails by (subst (1 2) read_run.simps) (simp add: mute_simps)
    next
      case (Some p)
      obtain res self2 w2 sent2 where p: "p = (res, self2, w2, sent2)" by (metis prod_cases4)
      consider (active) a where "res = Inr (Active a)" | (other) "\<nexists>a. res = Inr (Active a)" by blast
      then show ?thesis
      proof cases
        case active
        have "read_run x rd self2 a (mute w2) sent2 out1 = map_option mute_mid (read_run x rd self2 a w2 sent2 out1)"
          by (rule 1 [OF items [symmetric] AttemptFails refl refl Some [unfolded p active] refl refl refl refl refl])
        then show ?thesis
          using items AttemptFails Some p active by (subst (1 2) read_run.simps) (simp add: mute_simps)
      next
        case other
        then show ?thesis
          using items AttemptFails Some p
          by (subst (1 2) read_run.simps) (auto simp: mute_simps split: sum.split OpenResult.split)
      qed
    qed
  qed
qed

lemma mute_read_start:
  "read_start x rd config query options (mute w) = map_option mute_mid (read_start x rd config query options w)"
proof (cases "and_then (validate options) (\<lambda>_. query_validate query)")
  case (Inl error)
  then show ?thesis by (simp add: read_start_def)
next
  case valid: (Inr u)
  obtain t w1 where now: "now_instant (x_clock x) w = (t, w1)" by fastforce
  show ?thesis
  proof (cases "read_routing x (rr_table_name (into_request query config))")
    case (Inl error)
    with valid show ?thesis by (simp add: read_start_def)
  next
    case routing: (Inr routing)
    show ?thesis
    proof (cases "checked_add x t (operation_timeout (ro_deadlines options))")
      case None
      with valid routing now show ?thesis by (simp add: read_start_def mute_simps)
    next
      case deadline: (Some d)
      obtain op w2 where op: "telemetry_operation (x_clock x) config BigtableOperation.ReadRows (q_table_id query) 0 w1
          = (op, w2)" by fastforce
      let ?new = "read_operation_new (into_request query config) routing options d op"
      note facts = valid routing now deadline op
      show ?thesis
      proof (cases "read_open x rd False ?new None w2 []")
        case None
        with facts show ?thesis by (simp add: read_start_def mute_simps)
      next
        case (Some p)
        obtain res self w3 sent where p: "p = (res, self, w3, sent)" by (metis prod_cases4)
        consider (active) a where "res = Inr (Active a)" | (other) "\<nexists>a. res = Inr (Active a)" by blast
        then show ?thesis
        proof cases
          case active
          show ?thesis
          proof (cases "read_run x rd self a w3 sent []")
            case None
            with facts Some p active show ?thesis by (simp add: read_start_def mute_simps)
          next
            case ran: (Some q)
            with facts Some p active show ?thesis by (cases q) (simp add: read_start_def mute_simps)
          qed
        next
          case other
          with facts Some p show ?thesis
            by (auto simp: read_start_def mute_simps split: sum.split OpenResult.split)
        qed
      qed
    qed
  qed
qed

section \<open>Property\<close>

text \<open>
  C28. Observing changes nothing. A client without an observer and one with an observer, with the
  same service, application, clock and random numbers, send the same requests, deliver the same
  rows and errors, end bulk mutations with the same result, record the same measurements and
  counters, and read the clock as often: all but the observer and its events is the same.
\<close>

theorem observing_changes_nothing:
  "map_option (\<lambda>(res, w', sent). (res, mute w', sent)) (read_start x rd config query options (mute w))
     = map_option (\<lambda>(res, w', sent). (res, mute w', sent)) (read_start x rd config query options w)
   \<and> map_option (\<lambda>(res, w', sents). (res, mute w', sents)) (execute x len svc sch config mutation woptions (mute w))
     = map_option (\<lambda>(res, w', sents). (res, mute w', sents)) (execute x len svc sch config mutation woptions w)"
proof -
  have shape: "(\<lambda>(a, w', b). (a, mute w', b)) = mute_mid" by (auto simp: fun_eq_iff)
  have again: "map_option mute_mid (map_option mute_mid r) = map_option mute_mid r"
    for r :: "('a \<times> World \<times> 'b) option"
    by (cases r) auto
  show ?thesis
    unfolding shape mute_execute mute_read_start again by simp
qed

end
