(* ===== verification/Redaction.thy ===== *)
theory Redaction
  imports Client
begin

text \<open>
  The \<open>Debug\<close> implementations written by hand in \<open>auth.rs\<close>, \<open>client.rs\<close>, \<open>telemetry.rs\<close>, \<open>read.rs\<close>
  and \<open>mapping.rs\<close>, and the derived one of the configuration: what they hand to the formatter of
  the standard library, as a tree. They keep access tokens and row contents out of logs.
\<close>

section \<open>What is shown\<close>

text \<open>
  A structure with its name and its fields; \<open>False\<close> when \<open>finish\_non\_exhaustive\<close> ends it, which
  the output tells by two dots. The text of a leaf is the business of the standard library, or of
  the library of the header values.
\<close>

datatype Shown =
    ShownText string
  | ShownBool bool
  | ShownNat nat
  | ShownTime instant
  | ShownDuration duration
  | ShownHeader string
  | ShownOption "Shown option"
  | ShownStruct string "(string \<times> Shown) list" bool

definition token_manager_fmt :: "TokenManager \<Rightarrow> Shown" where
  "token_manager_fmt self = ShownStruct ''TokenManager'' [(''authorization'', ShownText ''[redacted]'')] False"

definition token_snapshot_fmt :: "TokenSnapshot \<Rightarrow> Shown" where
  "token_snapshot_fmt self = ShownStruct ''TokenSnapshot''
     [(''authorization'', ShownText ''[redacted]''), (''expires_at'', ShownTime (ts_expires_at self))] True"

definition client_config_fmt :: "ClientConfig \<Rightarrow> Shown" where
  "client_config_fmt self = ShownStruct ''ClientConfig''
     [(''project_id'', ShownText (project_id self)),
      (''instance_id'', ShownText (instance_id self)),
      (''app_profile_id'', ShownText (app_profile_id self)),
      (''endpoint'', ShownText (endpoint self)),
      (''emulator_host'', ShownOption (map_option ShownText (emulator_host self))),
      (''channel_pool_size'', ShownNat (channel_pool_size self)),
      (''connect_timeout'', ShownDuration (connect_timeout self)),
      (''request_timeout'', ShownDuration (request_timeout self)),
      (''keep_alive_interval'', ShownDuration (keep_alive_interval self)),
      (''keep_alive_timeout'', ShownDuration (keep_alive_timeout self))] True"

definition client_builder_fmt :: "ClientBuilder \<Rightarrow> Shown" where
  "client_builder_fmt self = ShownStruct ''ClientBuilder''
     [(''config'', client_config_fmt (cb_config self)),
      (''has_token_provider'', ShownBool (cb_provider self \<noteq> None)),
      (''has_diagnostic_observer'', ShownBool (cb_observer self)),
      (''has_custom_meter'', ShownBool (cb_meter self))] False"

definition client_fmt :: "Client \<Rightarrow> Shown" where
  "client_fmt self = ShownStruct ''Client'' [(''config'', client_config_fmt (cl_config self))] False"

definition auth_interceptor_fmt :: "AuthInterceptor \<Rightarrow> Shown" where
  "auth_interceptor_fmt self = ShownStruct ''AuthInterceptor''
     [(''authenticated'', ShownBool (ai_tokens self \<noteq> None)),
      (''api_client'', ShownHeader (ai_api_client self)),
      (''feature_flags'', ShownHeader (ai_feature_flags self))] True"

text \<open>Of the telemetry only whether there is an observer is shown; the model keeps no more of it.\<close>

definition telemetry_fmt :: "bool \<Rightarrow> Shown" where
  "telemetry_fmt observer = ShownStruct ''Telemetry'' [(''has_observer'', ShownBool observer)] False"

definition row_stream_fmt :: "delivered \<Rightarrow> Shown" where
  "row_stream_fmt self = ShownStruct ''RowStream'' [] False"

definition row_decoder_fmt :: "RowDecoder \<Rightarrow> Shown" where
  "row_decoder_fmt self = ShownStruct ''RowDecoder''
     [(''row_key_bytes'', ShownNat (length (row_key (rd_row self))))] False"

text \<open>\<open>type_name\<close> is the name the compiler gives to the target of the stream.\<close>

definition typed_row_stream_fmt :: "string \<Rightarrow> TypedRowStream \<Rightarrow> Shown" where
  "typed_row_stream_fmt type_name self = ShownStruct ''TypedRowStream'' [(''target'', ShownText type_name)] False"

section \<open>Properties\<close>

lemma connected_tokens:
  assumes "connect_builder x out (b\<lparr>cb_provider := Some (Ok t)\<rparr>) = Ok c"
  shows "cl_config c = cb_config b \<and> ai_api_client (cl_interceptor c) = api_client_header
    \<and> x_parse_metadata x (out_encode_flags out feature_flags) = Ok (ai_feature_flags (cl_interceptor c))
    \<and> (case ai_tokens (cl_interceptor c) of
         None \<Rightarrow> uses_emulator (cb_config b)
       | Some tokens \<Rightarrow> \<not> uses_emulator (cb_config b) \<and> ts_expires_at (tm_current tokens) = tok_expires_at t)"
  using assms
  by (auto simp: connect_builder_def token_manager_start_def result_iffs map_ok_Inr_iff
      dest!: auth_interceptor_new_Ok snapshot_try_from_Ok split: if_splits)

text \<open>
  C38. No \<open>Debug\<close> output shows an access token. Two clients that are connected alike, but with
  tokens that have only the time of their expiry in common, cannot be told apart by the output of
  their builders, of the clients, of the interceptors that add the tokens to the requests, of the
  token managers and of the snapshots that hold the tokens.
\<close>

theorem debug_output_hides_tokens:
  assumes "connect_builder x out (b\<lparr>cb_provider := Some (Ok t)\<rparr>) = Ok c"
    and "connect_builder x out (b\<lparr>cb_provider := Some (Ok t')\<rparr>) = Ok c'"
    and "tok_expires_at t' = tok_expires_at t"
  shows "client_builder_fmt (b\<lparr>cb_provider := Some (Ok t')\<rparr>) = client_builder_fmt (b\<lparr>cb_provider := Some (Ok t)\<rparr>)
    \<and> client_fmt c' = client_fmt c
    \<and> auth_interceptor_fmt (cl_interceptor c') = auth_interceptor_fmt (cl_interceptor c)
    \<and> map_option token_manager_fmt (ai_tokens (cl_interceptor c'))
        = map_option token_manager_fmt (ai_tokens (cl_interceptor c))
    \<and> map_option (token_snapshot_fmt \<circ> tm_current) (ai_tokens (cl_interceptor c'))
        = map_option (token_snapshot_fmt \<circ> tm_current) (ai_tokens (cl_interceptor c))"
  using connected_tokens [OF assms(1)] connected_tokens [OF assms(2)] assms(3)
  by (auto simp: client_builder_fmt_def client_fmt_def auth_interceptor_fmt_def token_manager_fmt_def
      token_snapshot_fmt_def split: option.splits)

text \<open>Two tokens, one client.\<close>

lemma sample_token_connects:
  obtains client where "connect_builder sample_env sample_outside (sample_builder\<lparr>cb_provider :=
    Some (Ok \<lparr>tok_secret = secret, tok_expires_at = secs 100\<rparr>)\<rparr>) = Ok client"
    "ai_tokens (cl_interceptor client) = Some \<lparr>tm_current = \<lparr>ts_authorization = ''Bearer '' @ secret,
       ts_expires_at = secs 100\<rparr>, tm_refresh_task = True\<rparr>"
  by (simp add: connect_builder_def sample_builder_def with_token_provider_def client_builder_new_def
      sample_outside_def token_manager_start_def snapshot_try_from_def sample_env_def
      auth_interceptor_new_def feature_flags_header_def channel_connect_def build_endpoint_def uses_emulator_def
      service_endpoint_def sample_parse_uri_def sample_config_def upt_conv_Cons Let_def)

theorem debug_output_hides_tokens_witness:
  "\<exists>c c'. ai_tokens (cl_interceptor c') \<noteq> ai_tokens (cl_interceptor c)
    \<and> connect_builder sample_env sample_outside
        (sample_builder\<lparr>cb_provider := Some (Ok \<lparr>tok_secret = ''a'', tok_expires_at = secs 100\<rparr>)\<rparr>) = Ok c
    \<and> connect_builder sample_env sample_outside
        (sample_builder\<lparr>cb_provider := Some (Ok \<lparr>tok_secret = ''b'', tok_expires_at = secs 100\<rparr>)\<rparr>) = Ok c'
    \<and> client_fmt c' = client_fmt c
    \<and> auth_interceptor_fmt (cl_interceptor c') = auth_interceptor_fmt (cl_interceptor c)
    \<and> map_option (token_snapshot_fmt \<circ> tm_current) (ai_tokens (cl_interceptor c'))
        = map_option (token_snapshot_fmt \<circ> tm_current) (ai_tokens (cl_interceptor c))"
proof -
  obtain c where c: "connect_builder sample_env sample_outside
      (sample_builder\<lparr>cb_provider := Some (Ok \<lparr>tok_secret = ''a'', tok_expires_at = secs 100\<rparr>)\<rparr>) = Ok c"
    "ai_tokens (cl_interceptor c) = Some \<lparr>tm_current = \<lparr>ts_authorization = ''Bearer '' @ ''a'',
       ts_expires_at = secs 100\<rparr>, tm_refresh_task = True\<rparr>" by (rule sample_token_connects)
  obtain c' where c': "connect_builder sample_env sample_outside
      (sample_builder\<lparr>cb_provider := Some (Ok \<lparr>tok_secret = ''b'', tok_expires_at = secs 100\<rparr>)\<rparr>) = Ok c'"
    "ai_tokens (cl_interceptor c') = Some \<lparr>tm_current = \<lparr>ts_authorization = ''Bearer '' @ ''b'',
       ts_expires_at = secs 100\<rparr>, tm_refresh_task = True\<rparr>" by (rule sample_token_connects)
  have "ai_tokens (cl_interceptor c') \<noteq> ai_tokens (cl_interceptor c)" by (simp add: c(2) c'(2))
  then show ?thesis
    using debug_output_hides_tokens [OF c(1) c'(1)] c(1) c'(1) by (intro exI [of _ c] exI [of _ c']) simp
qed

end
