(* ===== verification/Derive.thy ===== *)
theory Derive
  imports RowMapping
begin

text \<open>
  The derive macro of \<open>bigtable-client-derive\<close>: what it reads from a struct and its
  \<open>#[bigtable(...)]\<close> attributes, which structs it refuses, the code it writes, and what that
  code does with a row.

  Tokens are parsed by the \<open>syn\<close> crate. An attribute is given as the list of its entries, a
  name with what follows it, up to the end or to the first entry that is not of this form.
  Positions of errors are left out; the errors of \<open>syn\<close> itself are \<open>Parse\<close>.
\<close>

section \<open>The input\<close>

datatype Expr = StrLit string | ByteStrLit bytes | OtherExpr

datatype MetaArg = NoArg | Assign Expr | OtherTokens

record NestedMeta =
  meta_path :: string
  meta_arg :: MetaArg

record Attribute =
  attr_path :: string
  attr_metas :: "NestedMeta list"
  attr_malformed :: bool

datatype Ty = TyPath "(string \<times> PathArguments) list" | TyOther string
  and PathArguments = NoArguments | AngleBracketed "GenericArgument list" | Parenthesized
  and GenericArgument = TypeArgument Ty | OtherArgument

record Field =
  fld_ident :: string
  fld_attrs :: "Attribute list"
  fld_ty :: Ty

datatype Data = NamedStruct "Field list" | UnnamedStruct | UnitStruct | Enum | Union

record DeriveInput =
  di_ident :: string
  di_attrs :: "Attribute list"
  di_data :: Data

datatype DeriveError = Parse | Message string

section \<open>Attributes\<close>

definition set_once :: "string \<Rightarrow> 'a \<Rightarrow> 'a option \<Rightarrow> (DeriveError, 'a option) result" where
  "set_once name value slot =
     (if slot \<noteq> None then Err (Message (''duplicate bigtable attribute '' @ quoted name))
      else Ok (Some value))"

definition set_flag :: "string \<Rightarrow> bool \<Rightarrow> (DeriveError, bool) result" where
  "set_flag name slot =
     (if slot then Err (Message (''duplicate bigtable attribute '' @ quoted name)) else Ok True)"

text \<open>\<open>meta.value()\<close> wants an equals sign; \<open>parse()\<close> to a \<open>LitStr\<close> wants a string literal.\<close>

definition meta_value :: "NestedMeta \<Rightarrow> (DeriveError, Expr) result" where
  "meta_value meta = (case meta_arg meta of Assign e \<Rightarrow> Ok e | _ \<Rightarrow> Err Parse)"

definition parse_lit_str :: "Expr \<Rightarrow> (DeriveError, string) result" where
  "parse_lit_str e = (case e of StrLit s \<Rightarrow> Ok s | _ \<Rightarrow> Err Parse)"

text \<open>Tokens that the callback leaves after a flag are an error of \<open>parse\_nested\_meta\<close>.\<close>

definition nothing_after :: "NestedMeta \<Rightarrow> 'a \<Rightarrow> (DeriveError, 'a) result" where
  "nothing_after meta a = (if meta_arg meta = NoArg then Ok a else Err Parse)"

text \<open>\<open>parse\_nested\_meta\<close> of the attributes named \<open>bigtable\<close>, one entry after another.\<close>

fun fold_metas ::
    "(NestedMeta \<Rightarrow> 's \<Rightarrow> (DeriveError, 's) result) \<Rightarrow> NestedMeta list \<Rightarrow> 's
     \<Rightarrow> (DeriveError, 's) result" where
  "fold_metas step [] s = Ok s"
| "fold_metas step (meta # metas) s = and_then (step meta s) (fold_metas step metas)"

fun fold_attributes ::
    "(NestedMeta \<Rightarrow> 's \<Rightarrow> (DeriveError, 's) result) \<Rightarrow> Attribute list \<Rightarrow> 's
     \<Rightarrow> (DeriveError, 's) result" where
  "fold_attributes step [] s = Ok s"
| "fold_attributes step (a # attrs) s =
     (if attr_path a = ''bigtable''
      then and_then (fold_metas step (attr_metas a) s)
        (\<lambda>s. if attr_malformed a then Err Parse else fold_attributes step attrs s)
      else fold_attributes step attrs s)"

record StructConfig =
  sc_family :: "string option"

definition struct_meta :: "NestedMeta \<Rightarrow> StructConfig \<Rightarrow> (DeriveError, StructConfig) result" where
  "struct_meta meta config =
     (if meta_path meta = ''family''
      then and_then (and_then (meta_value meta) parse_lit_str) (\<lambda>family.
        map_ok (\<lambda>f. config\<lparr>sc_family := f\<rparr>) (set_once ''family'' family (sc_family config)))
      else Err (Message ''unsupported struct-level bigtable attribute''))"

definition struct_config_parse :: "Attribute list \<Rightarrow> (DeriveError, StructConfig) result" where
  "struct_config_parse attributes = fold_attributes struct_meta attributes \<lparr>sc_family = None\<rparr>"

record Qualifier =
  qual_bytes :: bytes

definition qualifier_parse :: "Expr \<Rightarrow> (DeriveError, Qualifier) result" where
  "qualifier_parse expression = (case expression of
     StrLit value \<Rightarrow> Ok \<lparr>qual_bytes = as_bytes value\<rparr>
   | ByteStrLit value \<Rightarrow> Ok \<lparr>qual_bytes = value\<rparr>
   | OtherExpr \<Rightarrow> Err (Message ''qualifier must be a string or byte string literal''))"

record FieldConfig =
  fc_row_key :: bool
  fc_family :: "string option"
  fc_qualifier :: "Qualifier option"
  fc_json :: bool
  fc_with :: "string option"
  fc_default :: bool

definition field_config_default :: FieldConfig where
  "field_config_default = \<lparr>fc_row_key = False, fc_family = None, fc_qualifier = None,
     fc_json = False, fc_with = None, fc_default = False\<rparr>"

text \<open>\<open>parse\_path\<close> is \<open>Path::parse\_mod\_style\<close> of \<open>syn\<close> on the text of the literal.\<close>

definition field_meta ::
    "(string \<Rightarrow> string option) \<Rightarrow> NestedMeta \<Rightarrow> FieldConfig \<Rightarrow> (DeriveError, FieldConfig) result" where
  "field_meta parse_path meta config =
     (if meta_path meta = ''row_key'' then
        and_then (map_ok (\<lambda>b. config\<lparr>fc_row_key := b\<rparr>) (set_flag ''row_key'' (fc_row_key config)))
          (nothing_after meta)
      else if meta_path meta = ''family'' then
        and_then (and_then (meta_value meta) parse_lit_str) (\<lambda>family.
          map_ok (\<lambda>f. config\<lparr>fc_family := f\<rparr>) (set_once ''family'' family (fc_family config)))
      else if meta_path meta = ''qualifier'' then
        and_then (and_then (meta_value meta) qualifier_parse) (\<lambda>qualifier.
          map_ok (\<lambda>q. config\<lparr>fc_qualifier := q\<rparr>)
            (set_once ''qualifier'' qualifier (fc_qualifier config)))
      else if meta_path meta = ''json'' then
        and_then (map_ok (\<lambda>b. config\<lparr>fc_json := b\<rparr>) (set_flag ''json'' (fc_json config)))
          (nothing_after meta)
      else if meta_path meta = ''with'' then
        and_then (and_then (and_then (meta_value meta) parse_lit_str)
            (\<lambda>text. ok_or Parse (parse_path text))) (\<lambda>path.
          map_ok (\<lambda>p. config\<lparr>fc_with := p\<rparr>) (set_once ''with'' path (fc_with config)))
      else if meta_path meta = ''default'' then
        and_then (map_ok (\<lambda>b. config\<lparr>fc_default := b\<rparr>) (set_flag ''default'' (fc_default config)))
          (nothing_after meta)
      else Err (Message ''unsupported field-level bigtable attribute''))"

definition field_config_parse ::
    "(string \<Rightarrow> string option) \<Rightarrow> Field \<Rightarrow> (DeriveError, FieldConfig) result" where
  "field_config_parse parse_path field =
     and_then (fold_attributes (field_meta parse_path) (fld_attrs field) field_config_default) (\<lambda>config.
       if fc_json config \<and> fc_with config \<noteq> None
       then Err (Message ''a field cannot use both #[bigtable(json)] and #[bigtable(with = \"...\")]'')
       else Ok config)"

section \<open>The code that is written\<close>

text \<open>
  The calls of an initializer, with their type argument or decoder path, and whether
  \<open>unwrap\_or\_default\<close> follows; the predicates added to the where clause.
\<close>

datatype Call =
    CallRowKey Ty | CallRowKeyJson Ty | CallRowKeyWith string
  | CallRequired Ty string bytes | CallRequiredJson Ty string bytes | CallRequiredWith string bytes string
  | CallOptional Ty string bytes | CallOptionalJson Ty string bytes | CallOptionalWith string bytes string

record Initializer =
  ini_ident :: string
  ini_call :: Call
  ini_unwrap_or_default :: bool

datatype Bound = FromCellValue | FromJsonValue | Default

type_synonym Generics = "(Ty \<times> Bound) list"

definition option_inner :: "Ty \<Rightarrow> Ty option" where
  "option_inner field_type = (case field_type of
     TyOther _ \<Rightarrow> None
   | TyPath segments \<Rightarrow>
       if segments = [] then None
       else case last segments of (ident, arguments) \<Rightarrow>
         if ident \<noteq> ''Option'' then None
         else case arguments of AngleBracketed [TypeArgument inner] \<Rightarrow> Some inner | _ \<Rightarrow> None)"

definition add_bound :: "Ty \<Rightarrow> Bound \<Rightarrow> Generics \<Rightarrow> Generics" where
  "add_bound target_type bound generics = generics @ [(target_type, bound)]"

definition add_decoder_bound :: "Ty \<Rightarrow> FieldConfig \<Rightarrow> Generics \<Rightarrow> Generics" where
  "add_decoder_bound target_type config generics =
     (if fc_with config \<noteq> None then generics
      else add_bound target_type (if fc_json config then FromJsonValue else FromCellValue) generics)"

definition validate_row_key_config :: "FieldConfig \<Rightarrow> Ty option \<Rightarrow> (DeriveError, unit) result" where
  "validate_row_key_config config inner =
     (if fc_family config \<noteq> None \<or> fc_qualifier config \<noteq> None
      then Err (Message ''a row key field cannot select a family or qualifier'')
      else if inner \<noteq> None then Err (Message ''a row key field cannot be Option'')
      else if fc_default config then Err (Message ''a row key field cannot use #[bigtable(default)]'')
      else Ok ())"

definition row_key_decoder :: "FieldConfig \<Rightarrow> Ty \<Rightarrow> Call" where
  "row_key_decoder config target_type =
     (if fc_json config then CallRowKeyJson target_type
      else case fc_with config of Some path \<Rightarrow> CallRowKeyWith path | None \<Rightarrow> CallRowKey target_type)"

definition column_decoder :: "bool \<Rightarrow> FieldConfig \<Rightarrow> Ty \<Rightarrow> string \<Rightarrow> bytes \<Rightarrow> Call" where
  "column_decoder sparse config target_type family qualifier =
     (if fc_json config
      then (if sparse then CallOptionalJson else CallRequiredJson) target_type family qualifier
      else case fc_with config of
        Some path \<Rightarrow> (if sparse then CallOptionalWith else CallRequiredWith) family qualifier path
      | None \<Rightarrow> (if sparse then CallOptional else CallRequired) target_type family qualifier)"

definition or_else :: "'a option \<Rightarrow> 'a option \<Rightarrow> 'a option" where
  "or_else a b = (case a of None \<Rightarrow> b | Some _ \<Rightarrow> a)"

definition field_initializer ::
    "Field \<Rightarrow> FieldConfig \<Rightarrow> StructConfig \<Rightarrow> Generics \<Rightarrow> (DeriveError, Initializer \<times> Generics) result" where
  "field_initializer field config struct_config generics =
     (let inner = option_inner (fld_ty field) in
      if fc_row_key config then
        and_then (validate_row_key_config config inner) (\<lambda>_.
          Ok (\<lparr>ini_ident = fld_ident field, ini_call = row_key_decoder config (fld_ty field),
                ini_unwrap_or_default = False\<rparr>,
              add_decoder_bound (fld_ty field) config generics))
      else
        and_then (ok_or (Message ''column fields need #[bigtable(family = \"...\")] on the struct or field'')
            (or_else (fc_family config) (sc_family struct_config))) (\<lambda>family.
          let qualifier = (case fc_qualifier config of Some q \<Rightarrow> qual_bytes q
                | None \<Rightarrow> as_bytes (fld_ident field))
          in if inner \<noteq> None \<and> fc_default config
             then Err (Message ''Option fields are already sparse and cannot also use #[bigtable(default)]'')
             else
               let target_type = (case inner of Some t \<Rightarrow> t | None \<Rightarrow> fld_ty field);
                   generics = add_decoder_bound target_type config generics;
                   generics = (if fc_default config then add_bound target_type Default generics
                     else generics);
                   sparse = (inner \<noteq> None \<or> fc_default config)
               in Ok (\<lparr>ini_ident = fld_ident field,
                        ini_call = column_decoder sparse config target_type family qualifier,
                        ini_unwrap_or_default = fc_default config\<rparr>, generics)))"

text \<open>The loop over the fields: the initializers, the where clause and the row key field so far.\<close>

record Expansion =
  ex_initializers :: "Initializer list"
  ex_generics :: Generics
  ex_row_key :: bool

fun expand_fields ::
    "(string \<Rightarrow> string option) \<Rightarrow> StructConfig \<Rightarrow> Field list \<Rightarrow> Expansion
     \<Rightarrow> (DeriveError, Expansion) result" where
  "expand_fields parse_path struct_config [] ex = Ok ex"
| "expand_fields parse_path struct_config (field # flds) ex =
     and_then (field_config_parse parse_path field) (\<lambda>config.
       if fc_row_key config \<and> ex_row_key ex
       then Err (Message ''only one field can use #[bigtable(row_key)]'')
       else and_then (field_initializer field config struct_config (ex_generics ex)) (\<lambda>(ini, generics).
         expand_fields parse_path struct_config flds
           \<lparr>ex_initializers = ex_initializers ex @ [ini], ex_generics = generics,
             ex_row_key = ex_row_key ex \<or> fc_row_key config\<rparr>))"

definition expand_from_row ::
    "(string \<Rightarrow> string option) \<Rightarrow> Generics \<Rightarrow> DeriveInput \<Rightarrow> (DeriveError, Expansion) result" where
  "expand_from_row parse_path generics input =
     and_then (struct_config_parse (di_attrs input)) (\<lambda>struct_config.
       case di_data input of
         NamedStruct flds \<Rightarrow> expand_fields parse_path struct_config flds
           \<lparr>ex_initializers = [], ex_generics = generics, ex_row_key = False\<rparr>
       | UnnamedStruct \<Rightarrow> Err (Message ''FromRow can only be derived for a struct with named fields'')
       | UnitStruct \<Rightarrow> Err (Message ''FromRow can only be derived for a struct with named fields'')
       | Enum \<Rightarrow> Err (Message ''FromRow cannot be derived for an enum'')
       | Union \<Rightarrow> Err (Message ''FromRow cannot be derived for a union''))"

text \<open>The path of the client crate in the code: \<open>crate\_name\<close> is an external lookup.\<close>

datatype FoundCrate = Itself | FoundName string

definition client_crate :: "FoundCrate option \<Rightarrow> string" where
  "client_crate crate = (case crate of
     Some (FoundName name) \<Rightarrow> ''::'' @ map (\<lambda>c. if c = CHR ''-'' then CHR ''_'' else c) name
   | _ \<Rightarrow> ''::bigtable_client'')"

section \<open>What the code does\<close>

text \<open>
  The impls the code is compiled against: the decoders and defaults of types and the functions
  that decoder paths name. A field's value is plain or an \<open>Option\<close>.
\<close>

datatype 'v Value = Plain 'v | Opt "'v option"

record 'v Impls =
  im_cell :: "Ty \<Rightarrow> 'v decoder"
  im_json :: "Ty \<Rightarrow> 'v decoder"
  im_default :: "Ty \<Rightarrow> 'v"
  im_with :: "string \<Rightarrow> bytes \<Rightarrow> (string, 'v) result"
  im_with_target :: "string \<Rightarrow> string"

definition run_call :: "'v Impls \<Rightarrow> RowDecoder \<Rightarrow> Call \<Rightarrow> (RowMappingError, 'v Value) result" where
  "run_call im decoder call = (case call of
     CallRowKey t \<Rightarrow> map_ok Plain (decode_row_key decoder (im_cell im t))
   | CallRowKeyJson t \<Rightarrow> map_ok Plain (decode_row_key_json decoder (im_json im t))
   | CallRowKeyWith p \<Rightarrow> map_ok Plain (decode_row_key_with decoder (im_with_target im p) (im_with im p))
   | CallRequired t f q \<Rightarrow> map_ok Plain (required decoder f q (im_cell im t))
   | CallRequiredJson t f q \<Rightarrow> map_ok Plain (required_json decoder f q (im_json im t))
   | CallRequiredWith f q p \<Rightarrow>
       map_ok Plain (required_with decoder f q (im_with_target im p) (im_with im p))
   | CallOptional t f q \<Rightarrow> map_ok Opt (optional decoder f q (im_cell im t))
   | CallOptionalJson t f q \<Rightarrow> map_ok Opt (optional_json decoder f q (im_json im t))
   | CallOptionalWith f q p \<Rightarrow>
       map_ok Opt (optional_with decoder f q (im_with_target im p) (im_with im p)))"

text \<open>\<open>unwrap\_or\_default\<close> of the field's own type, which the expression's type gives.\<close>

definition unwrap_or_default :: "'v \<Rightarrow> 'v Value \<Rightarrow> 'v Value" where
  "unwrap_or_default d v = (case v of Opt (Some x) \<Rightarrow> Plain x | Opt None \<Rightarrow> Plain d | Plain x \<Rightarrow> Plain x)"

definition run_initializer ::
    "'v Impls \<Rightarrow> (string \<Rightarrow> Ty) \<Rightarrow> RowDecoder \<Rightarrow> Initializer \<Rightarrow> (RowMappingError, string \<times> 'v Value) result" where
  "run_initializer im field_ty decoder ini =
     map_ok (\<lambda>v. (ini_ident ini,
         if ini_unwrap_or_default ini then unwrap_or_default (im_default im (field_ty (ini_ident ini))) v
         else v))
       (run_call im decoder (ini_call ini))"

text \<open>The generated \<open>from\_row\<close>: the fields in order, the first error returned.\<close>

definition generated_from_row ::
    "'v Impls \<Rightarrow> (string \<Rightarrow> Ty) \<Rightarrow> Initializer list \<Rightarrow> (string \<times> 'v Value) list from_row" where
  "generated_from_row im field_ty initializers row =
     collect (run_initializer im field_ty (row_decoder_new row)) initializers"

section \<open>Fields that are accepted\<close>

text \<open>The column of a call, and the type that an initializer's expression has.\<close>

fun call_column :: "Call \<Rightarrow> (string \<times> bytes) option" where
  "call_column (CallRequired _ f q) = Some (f, q)"
| "call_column (CallRequiredJson _ f q) = Some (f, q)"
| "call_column (CallRequiredWith f q _) = Some (f, q)"
| "call_column (CallOptional _ f q) = Some (f, q)"
| "call_column (CallOptionalJson _ f q) = Some (f, q)"
| "call_column (CallOptionalWith f q _) = Some (f, q)"
| "call_column _ = None"

fun call_optional :: "Call \<Rightarrow> bool" where
  "call_optional (CallOptional _ _ _) = True"
| "call_optional (CallOptionalJson _ _ _) = True"
| "call_optional (CallOptionalWith _ _ _) = True"
| "call_optional _ = False"

text \<open>The type argument of a call; a decoder path returns the type of its field.\<close>

fun call_type :: "Call \<Rightarrow> (Ty \<times> Bound) option" where
  "call_type (CallRowKey t) = Some (t, FromCellValue)"
| "call_type (CallRowKeyJson t) = Some (t, FromJsonValue)"
| "call_type (CallRequired t _ _) = Some (t, FromCellValue)"
| "call_type (CallRequiredJson t _ _) = Some (t, FromJsonValue)"
| "call_type (CallOptional t _ _) = Some (t, FromCellValue)"
| "call_type (CallOptionalJson t _ _) = Some (t, FromJsonValue)"
| "call_type _ = None"

text \<open>
  An initializer fits its field: the expression has the field's type, which is \<open>Option\<close> of
  what the decoder returns exactly for an \<open>Option\<close> field, and the where clause has the traits
  that the expression uses.
\<close>

definition fits :: "Field \<Rightarrow> Generics \<Rightarrow> Initializer \<Rightarrow> bool" where
  "fits field generics ini \<longleftrightarrow>
     ini_ident ini = fld_ident field
   \<and> (ini_unwrap_or_default ini \<longrightarrow> call_optional (ini_call ini)
        \<and> (fld_ty field, Default) \<in> set generics)
   \<and> (option_inner (fld_ty field) \<noteq> None \<longleftrightarrow>
        call_optional (ini_call ini) \<and> \<not> ini_unwrap_or_default ini)
   \<and> (case call_type (ini_call ini) of None \<Rightarrow> True
      | Some (t, bound) \<Rightarrow> t = (case option_inner (fld_ty field) of Some t \<Rightarrow> t | None \<Rightarrow> fld_ty field)
          \<and> (t, bound) \<in> set generics)"

lemma fits_mono: "fits field generics ini \<Longrightarrow> set generics \<subseteq> set generics' \<Longrightarrow> fits field generics' ini"
  by (auto simp: fits_def split: option.splits)

lemma decoder_calls:
  "call_optional (column_decoder sparse config t f q) = sparse"
  "\<not> call_optional (row_key_decoder config t)"
  "call_type (column_decoder sparse config t f q) = call_type (row_key_decoder config t)"
  by (auto simp: column_decoder_def row_key_decoder_def split: option.split)

text \<open>The bound of a call is added because no field has both a JSON decoder and a path.\<close>

lemma decoder_bound:
  assumes "\<not> (fc_json config \<and> fc_with config \<noteq> None)"
  shows "(case call_type (row_key_decoder config t) of None \<Rightarrow> True
    | Some (t', bound) \<Rightarrow> t' = t \<and> (t, bound) \<in> set (add_decoder_bound t config generics))"
  using assms by (auto simp: row_key_decoder_def add_decoder_bound_def add_bound_def split: option.split)

lemma add_decoder_bound_mono: "set generics \<subseteq> set (add_decoder_bound t config generics)"
  by (auto simp: add_decoder_bound_def add_bound_def)

lemma field_initializer_fits:
  assumes init: "field_initializer field config struct_config generics = Ok (ini, generics')"
    and config: "\<not> (fc_json config \<and> fc_with config \<noteq> None)"
  shows "fits field generics' ini \<and> set generics \<subseteq> set generics'"
proof (cases "fc_row_key config")
  case True
  then have "ini = \<lparr>ini_ident = fld_ident field, ini_call = row_key_decoder config (fld_ty field),
        ini_unwrap_or_default = False\<rparr>"
    and gen: "generics' = add_decoder_bound (fld_ty field) config generics"
    and inner: "option_inner (fld_ty field) = None"
    using init by (auto simp: field_initializer_def validate_row_key_config_def Let_def split: if_splits)
  then show ?thesis
    using decoder_bound [OF config, of "fld_ty field" generics] add_decoder_bound_mono
    unfolding fits_def gen inner by (auto simp: decoder_calls split: option.splits)
next
  case False
  let ?inner = "option_inner (fld_ty field)"
  let ?t = "case ?inner of Some t \<Rightarrow> t | None \<Rightarrow> fld_ty field"
  let ?gen = "add_decoder_bound ?t config generics"
  obtain family qualifier where
    ini: "ini = \<lparr>ini_ident = fld_ident field,
        ini_call = column_decoder (?inner \<noteq> None \<or> fc_default config) config ?t family qualifier,
        ini_unwrap_or_default = fc_default config\<rparr>"
    and gen: "generics' = (if fc_default config then add_bound ?t Default ?gen else ?gen)"
    and plain: "\<not> (?inner \<noteq> None \<and> fc_default config)"
    using init False by (auto simp: field_initializer_def Let_def and_then_Inr_iff split: if_splits)
  have sub: "set ?gen \<subseteq> set generics'" by (auto simp: gen add_bound_def)
  have bound: "case call_type (ini_call ini) of None \<Rightarrow> True
      | Some (t', bound) \<Rightarrow> t' = ?t \<and> (t', bound) \<in> set generics'"
    using decoder_bound [OF config, of ?t generics] sub
    by (auto simp: ini decoder_calls split: option.splits)
  have default: "fc_default config \<Longrightarrow> (fld_ty field, Default) \<in> set generics'"
    using plain by (auto simp: gen add_bound_def)
  have "call_optional (ini_call ini) = (?inner \<noteq> None \<or> fc_default config)"
    by (simp add: ini decoder_calls)
  then have "fits field generics' ini"
    unfolding fits_def using bound default plain by (auto simp: ini)
  then show ?thesis using sub add_decoder_bound_mono by blast
qed

lemma field_config_decoder:
  "field_config_parse parse_path field = Ok config \<Longrightarrow> \<not> (fc_json config \<and> fc_with config \<noteq> None)"
  by (auto simp: field_config_parse_def and_then_Inr_iff split: if_splits)

lemma expand_fields_fits:
  assumes "expand_fields parse_path sc flds ex = Ok ex'"
  shows "\<exists>new. ex_initializers ex' = ex_initializers ex @ new
    \<and> list_all2 (\<lambda>field ini. fits field (ex_generics ex') ini) flds new
    \<and> set (ex_generics ex) \<subseteq> set (ex_generics ex')"
  using assms
proof (induction parse_path sc flds ex arbitrary: ex' rule: expand_fields.induct)
  case (2 parse_path sc field flds ex)
  obtain config ini generics where
    config: "field_config_parse parse_path field = Ok config" "\<not> (fc_row_key config \<and> ex_row_key ex)" and
    ini: "field_initializer field config sc (ex_generics ex) = Ok (ini, generics)" and
    rest: "expand_fields parse_path sc flds \<lparr>ex_initializers = ex_initializers ex @ [ini],
        ex_generics = generics, ex_row_key = ex_row_key ex \<or> fc_row_key config\<rparr> = Ok ex'"
    using 2(2) by (auto simp: and_then_Inr_iff split: if_splits)
  obtain new where new: "ex_initializers ex' = ex_initializers ex @ ini # new"
    "list_all2 (\<lambda>field ini. fits field (ex_generics ex') ini) flds new"
    "set generics \<subseteq> set (ex_generics ex')"
    using 2(1) [OF config(2) rest] by auto
  then show ?case
    using field_initializer_fits [OF ini field_config_decoder [OF config(1)]] fits_mono
    by (intro exI [of _ "ini # new"]) auto
qed auto

lemma expand_from_row_fits:
  assumes "expand_from_row parse_path generics input = Ok ex"
  obtains flds where "di_data input = NamedStruct flds"
    and "list_all2 (\<lambda>field ini. fits field (ex_generics ex) ini) flds (ex_initializers ex)"
proof -
  obtain sc flds where "di_data input = NamedStruct flds" and
    "expand_fields parse_path sc flds
       \<lparr>ex_initializers = [], ex_generics = generics, ex_row_key = False\<rparr> = Ok ex"
    using assms by (cases "di_data input") (auto simp: expand_from_row_def and_then_Inr_iff)
  then show thesis using expand_fields_fits that by fastforce
qed

section \<open>What the generated code returns\<close>

fun is_opt :: "'v Value \<Rightarrow> bool" where
  "is_opt (Opt _) = True"
| "is_opt (Plain _) = False"

lemma run_call_shape: "run_call im decoder call = Ok v \<Longrightarrow> is_opt v \<longleftrightarrow> call_optional call"
  by (cases call) (auto simp: run_call_def map_ok_def split: sum.splits)

lemma run_initializer_Ok:
  assumes "run_initializer im field_ty decoder ini = Ok (ident, v)"
  shows "ident = ini_ident ini \<and> (is_opt v \<longleftrightarrow> call_optional (ini_call ini) \<and> \<not> ini_unwrap_or_default ini)"
proof -
  obtain u where "run_call im decoder (ini_call ini) = Ok u"
    using assms by (cases "run_call im decoder (ini_call ini)") (auto simp: run_initializer_def)
  then show ?thesis
    using assms run_call_shape [of im decoder "ini_call ini" u]
    by (auto simp: run_initializer_def unwrap_or_default_def split: Value.splits option.splits if_splits)
qed

lemma collect_Ok: "collect f xs = Ok ys \<Longrightarrow> list_all2 (\<lambda>x y. f x = Ok y) xs ys"
proof (induction xs arbitrary: ys)
  case (Cons x xs)
  then show ?case by (cases "f x"; cases "collect f xs") auto
qed simp

lemma collect_Err:
  "collect f xs = Err e \<Longrightarrow> \<exists>i < length xs. f (xs ! i) = Err e \<and> (\<forall>j < i. \<exists>y. f (xs ! j) = Ok y)"
proof (induction xs)
  case (Cons x xs)
  show ?case
  proof (cases "f x")
    case (Inl e')
    then show ?thesis using Cons(2) by (intro exI [of _ 0]) simp
  next
    case (Inr y)
    then obtain i where "i < length xs" "f (xs ! i) = Err e" "\<forall>j < i. \<exists>y. f (xs ! j) = Ok y"
      using Cons by (cases "collect f xs") auto
    then show ?thesis
      using Inr by (intro exI [of _ "Suc i"]) (auto simp: nth_Cons less_Suc_eq_0_disj split: nat.split)
  qed
qed simp

text \<open>An invalid value, as opposed to a missing one.\<close>

definition is_invalid_value :: "RowMappingIssue \<Rightarrow> bool" where
  "is_invalid_value issue \<longleftrightarrow> (case issue of InvalidValue _ _ \<Rightarrow> True | _ \<Rightarrow> False)"

lemma decode_errors:
  "decode_cell self f q d c = Err e \<Longrightarrow> is_invalid_value (rme_issue e) \<and> rme_row_key e = row_key (rd_row self)"
  "decode_json_cell self f q d c = Err e \<Longrightarrow>
     is_invalid_value (rme_issue e) \<and> rme_row_key e = row_key (rd_row self)"
  "decode_cell_with self f q t w c = Err e \<Longrightarrow>
     is_invalid_value (rme_issue e) \<and> rme_row_key e = row_key (rd_row self)"
  by (auto simp: decode_cell_def decode_json_cell_def decode_cell_with_def invalid_value_def
      mapping_error_def row_mapping_error_def is_invalid_value_def map_err_Inl_iff)

lemma row_key_errors:
  "decode_row_key self d = Err e \<Longrightarrow> is_invalid_value (rme_issue e) \<and> rme_row_key e = row_key (rd_row self)"
  "decode_row_key_json self d = Err e \<Longrightarrow>
     is_invalid_value (rme_issue e) \<and> rme_row_key e = row_key (rd_row self)"
  "decode_row_key_with self t w = Err e \<Longrightarrow>
     is_invalid_value (rme_issue e) \<and> rme_row_key e = row_key (rd_row self)"
  by (auto simp: decode_row_key_def decode_row_key_json_def decode_row_key_with_def invalid_value_def
      mapping_error_def row_mapping_error_def is_invalid_value_def map_err_Inl_iff)

lemma latest_cell_error_key: "latest_cell self f q = Err e \<Longrightarrow> rme_row_key e = row_key (rd_row self)"
  by (auto simp: latest_cell_def required_column_cases mapping_error_def row_mapping_error_def first_def
      split: option.splits list.splits)

lemma map_ok_Inl_iff: "map_ok f r = Inl e \<longleftrightarrow> r = Inl e"
  by (cases r) auto

lemma map_transpose_Err: "map_transpose f x = Err e \<Longrightarrow> \<exists>a. f a = Err e"
  by (cases x) (auto simp: map_transpose_def map_ok_Inl_iff)

lemma run_call_Err:
  assumes "run_call im decoder call = Err e"
  shows "rme_row_key e = row_key (rd_row decoder)
    \<and> (is_invalid_value (rme_issue e) \<or>
       (\<not> call_optional call \<and> (\<exists>f q. call_column call = Some (f, q) \<and>
          rme_issue e \<in> {RowMappingIssue.MissingFamily f, MissingColumn f q, MissingCell f q})))"
proof (cases "call_optional call \<or> call_column call = None")
  case True
  then show ?thesis
    using assms
    by (cases call) (auto simp: run_call_def map_ok_Inl_iff optional_def optional_json_def optional_with_def
        dest!: map_transpose_Err decode_errors row_key_errors)
next
  case False
  then obtain f q where fq: "call_column call = Some (f, q)" by auto
  have "latest_cell decoder f q = Err e
      \<or> is_invalid_value (rme_issue e) \<and> rme_row_key e = row_key (rd_row decoder)"
    using assms False fq
    by (cases call) (auto simp: run_call_def map_ok_Inl_iff required_def required_json_def required_with_def
        and_then_Inl_iff dest!: decode_errors)
  then show ?thesis using latest_cell_Err latest_cell_error_key False fq by blast
qed

section \<open>Properties\<close>

text \<open>
  C39. The derived code has the types of its struct: whenever the macro accepts a struct, every
  field gets one initializer in its place whose expression has the field's type, an \<open>Option\<close>
  exactly for an \<open>Option\<close> field, and the where clause has the trait of every decoder and
  default used. Run on any row, the code gives the values of the fields in order.
\<close>

theorem derived_code_fits_struct:
  assumes "expand_from_row parse_path generics input = Ok ex"
  shows "\<exists>flds. di_data input = NamedStruct flds
    \<and> list_all2 (\<lambda>field ini. fits field (ex_generics ex) ini) flds (ex_initializers ex)
    \<and> (\<forall>im field_ty row vals. generated_from_row im field_ty (ex_initializers ex) row = Ok vals \<longrightarrow>
        list_all2 (\<lambda>field (ident, v). ident = fld_ident field
          \<and> (is_opt v \<longleftrightarrow> option_inner (fld_ty field) \<noteq> None)) flds vals)"
proof -
  obtain flds where flds: "di_data input = NamedStruct flds"
    "list_all2 (\<lambda>field ini. fits field (ex_generics ex) ini) flds (ex_initializers ex)"
    by (rule expand_from_row_fits [OF assms])
  have "list_all2 (\<lambda>field (ident, v). ident = fld_ident field
        \<and> (is_opt v \<longleftrightarrow> option_inner (fld_ty field) \<noteq> None)) flds vals"
    if "generated_from_row im field_ty (ex_initializers ex) row = Ok vals"
    for im :: "'v Impls" and field_ty row vals
  proof (rule list_all2_trans [OF _ flds(2) collect_Ok [OF that [unfolded generated_from_row_def]]])
    fix field ini iv
    assume "fits field (ex_generics ex) ini"
      and "run_initializer im field_ty (row_decoder_new row) ini = Ok iv"
    then show "(\<lambda>field (ident, v). ident = fld_ident field
        \<and> (is_opt v \<longleftrightarrow> option_inner (fld_ty field) \<noteq> None)) field iv"
      by (cases iv) (auto simp: fits_def dest!: run_initializer_Ok)
  qed
  then show ?thesis using flds by blast
qed

text \<open>
  A derived mapping fails only for a reason: the error is that of the first field, in the
  order of the struct, that cannot be decoded, it carries the key of the row, and it reports
  missing data only for a field that is neither an \<open>Option\<close> nor marked \<open>default\<close>.
\<close>

theorem derived_errors_have_a_field:
  assumes "expand_from_row parse_path generics input = Ok ex"
    and "generated_from_row im field_ty (ex_initializers ex) row = Err e"
  shows "\<exists>flds i. di_data input = NamedStruct flds \<and> i < length flds
    \<and> (\<forall>j < i. \<exists>v. run_initializer im field_ty (row_decoder_new row) (ex_initializers ex ! j) = Ok v)
    \<and> run_initializer im field_ty (row_decoder_new row) (ex_initializers ex ! i) = Err e
    \<and> rme_row_key e = row_key row
    \<and> (\<not> is_invalid_value (rme_issue e) \<longrightarrow> option_inner (fld_ty (flds ! i)) = None
        \<and> \<not> ini_unwrap_or_default (ex_initializers ex ! i))"
proof -
  obtain flds where flds: "di_data input = NamedStruct flds"
    "list_all2 (\<lambda>field ini. fits field (ex_generics ex) ini) flds (ex_initializers ex)"
    by (rule expand_from_row_fits [OF assms(1)])
  let ?run = "run_initializer im field_ty (row_decoder_new row)"
  obtain i where i: "i < length (ex_initializers ex)" "?run (ex_initializers ex ! i) = Err e"
    "\<forall>j < i. \<exists>v. ?run (ex_initializers ex ! j) = Ok v"
    using collect_Err [OF assms(2) [unfolded generated_from_row_def]] by blast
  have "run_call im (row_decoder_new row) (ini_call (ex_initializers ex ! i)) = Err e"
    using i(2) by (simp add: run_initializer_def map_ok_Inl_iff)
  note err = run_call_Err [OF this]
  have fit: "fits (flds ! i) (ex_generics ex) (ex_initializers ex ! i)"
    using flds(2) i(1) by (simp add: list_all2_conv_all_nth)
  then have "\<not> is_invalid_value (rme_issue e) \<longrightarrow> option_inner (fld_ty (flds ! i)) = None
      \<and> \<not> ini_unwrap_or_default (ex_initializers ex ! i)"
    using err by (auto simp: fits_def)
  then show ?thesis
    using flds i err list_all2_lengthD [OF flds(2)] by (auto simp: row_decoder_new_def)
qed

text \<open>The struct of the passing test of the macro, without its type parameter.\<close>

definition sample_path :: "string \<Rightarrow> Ty" where "sample_path name = TyPath [(name, NoArguments)]"

definition bigtable_attr :: "(string \<times> MetaArg) list \<Rightarrow> Attribute" where
  "bigtable_attr metas = \<lparr>attr_path = ''bigtable'',
     attr_metas = map (\<lambda>(p, a). \<lparr>meta_path = p, meta_arg = a\<rparr>) metas, attr_malformed = False\<rparr>"

definition sample_input :: DeriveInput where
  "sample_input = \<lparr>di_ident = ''Record'',
     di_attrs = [bigtable_attr [(''family'', Assign (StrLit ''profile''))]],
     di_data = NamedStruct
       [\<lparr>fld_ident = ''key'', fld_attrs = [bigtable_attr [(''row_key'', NoArg)]],
          fld_ty = sample_path ''Bytes''\<rparr>,
        \<lparr>fld_ident = ''value'', fld_attrs = [], fld_ty = sample_path ''u64''\<rparr>,
        \<lparr>fld_ident = ''sparse'', fld_attrs = [],
          fld_ty = TyPath [(''Option'', AngleBracketed [TypeArgument (sample_path ''String'')])]\<rparr>,
        \<lparr>fld_ident = ''count'', fld_attrs = [bigtable_attr [(''default'', NoArg)]],
          fld_ty = sample_path ''u64''\<rparr>,
        \<lparr>fld_ident = ''custom'', fld_attrs = [bigtable_attr
             [(''family'', Assign (StrLit ''binary'')), (''qualifier'', Assign (ByteStrLit [0xFF])),
              (''with'', Assign (StrLit ''decode''))]],
          fld_ty = sample_path ''String''\<rparr>]\<rparr>"

definition sample_expansion :: Expansion where
  "sample_expansion = \<lparr>ex_initializers =
       [\<lparr>ini_ident = ''key'', ini_call = CallRowKey (sample_path ''Bytes''), ini_unwrap_or_default = False\<rparr>,
        \<lparr>ini_ident = ''value'', ini_call = CallRequired (sample_path ''u64'') ''profile'' (as_bytes ''value''),
          ini_unwrap_or_default = False\<rparr>,
        \<lparr>ini_ident = ''sparse'', ini_call = CallOptional (sample_path ''String'') ''profile'' (as_bytes ''sparse''),
          ini_unwrap_or_default = False\<rparr>,
        \<lparr>ini_ident = ''count'', ini_call = CallOptional (sample_path ''u64'') ''profile'' (as_bytes ''count''),
          ini_unwrap_or_default = True\<rparr>,
        \<lparr>ini_ident = ''custom'', ini_call = CallRequiredWith ''binary'' [0xFF] ''decode'',
          ini_unwrap_or_default = False\<rparr>],
     ex_generics = [(sample_path ''Bytes'', FromCellValue), (sample_path ''u64'', FromCellValue),
       (sample_path ''String'', FromCellValue), (sample_path ''u64'', FromCellValue),
       (sample_path ''u64'', Default)],
     ex_row_key = True\<rparr>"

lemma sample_expands: "expand_from_row Some [] sample_input = Ok sample_expansion"
  by (simp add: expand_from_row_def sample_input_def sample_expansion_def bigtable_attr_def
      struct_config_parse_def struct_meta_def meta_value_def parse_lit_str_def set_once_def set_flag_def
      field_config_parse_def field_config_default_def field_meta_def nothing_after_def qualifier_parse_def
      field_initializer_def validate_row_key_config_def row_key_decoder_def column_decoder_def
      add_decoder_bound_def add_bound_def option_inner_def or_else_def sample_path_def Let_def)

theorem derived_code_fits_struct_witness:
  "\<exists>flds. di_data sample_input = NamedStruct flds
    \<and> list_all2 (\<lambda>field ini. fits field (ex_generics sample_expansion) ini) flds
        (ex_initializers sample_expansion)"
  using derived_code_fits_struct [OF sample_expands] by blast

definition sample_impls :: "nat Impls" where
  "sample_impls = \<lparr>im_cell = (\<lambda>t v. Ok (length v)), im_json = (\<lambda>t v. Ok (length v)),
     im_default = (\<lambda>t. 0), im_with = (\<lambda>p v. Ok (length v)), im_with_target = (\<lambda>p. ''usize'')\<rparr>"

abbreviation sample_missing :: RowMappingError where
  "sample_missing \<equiv> row_mapping_error [1] (RowMappingIssue.MissingFamily ''profile'')"

theorem derived_errors_have_a_field_witness:
  "generated_from_row sample_impls sample_path (ex_initializers sample_expansion) two_versions = Err sample_missing
   \<and> (\<exists>flds i. di_data sample_input = NamedStruct flds \<and> i < length flds \<and> option_inner (fld_ty (flds ! i)) = None)"
proof -
  have run: "generated_from_row sample_impls sample_path (ex_initializers sample_expansion) two_versions
      = Err sample_missing"
    by (simp add: generated_from_row_def sample_expansion_def run_initializer_def run_call_def
        sample_impls_def two_versions_def row_decoder_new_def decode_row_key_def required_def
        latest_cell_def required_column_def mapping_error_def)
  from derived_errors_have_a_field [OF sample_expands run]
  obtain flds i where "di_data sample_input = NamedStruct flds" "i < length flds"
    "\<not> is_invalid_value (rme_issue sample_missing) \<longrightarrow> option_inner (fld_ty (flds ! i)) = None"
    by blast
  then show ?thesis using run by (auto simp: is_invalid_value_def row_mapping_error_def)
qed

text \<open>
  A field with a raw identifier reads the column whose name includes the \<open>r#\<close>: the name that
  \<open>to\_string\<close> gives to an identifier keeps it.
\<close>

lemma raw_identifier_qualifier:
  "field_initializer \<lparr>fld_ident = ''r#type'', fld_attrs = [], fld_ty = sample_path ''String''\<rparr>
     field_config_default \<lparr>sc_family = Some ''profile''\<rparr> []
   = Ok (\<lparr>ini_ident = ''r#type'',
         ini_call = CallRequired (sample_path ''String'') ''profile'' (as_bytes ''r#type''),
         ini_unwrap_or_default = False\<rparr>, [(sample_path ''String'', FromCellValue)])"
  by (simp add: field_initializer_def field_config_default_def or_else_def option_inner_def
      sample_path_def column_decoder_def add_decoder_bound_def add_bound_def Let_def)

end
