(* ===== verification/Spec2Isabelle.thy ===== *)
theory Spec2Isabelle
  imports Config Query Encoding ReadTrace ReadAnswers WriteThenRead Observer Redaction Derive
begin

text \<open>
  A model of the Bigtable data client of this repository: the crate \<open>bigtable-client\<close>
  (\<open>src/crates/bigtable-client/src\<close>) and its derive macro
  (\<open>src/crates/bigtable-client-derive/src/lib.rs\<close>).

  \<^bold>\<open>The program.\<close> A client reads rows and writes bulk mutations over gRPC. A read turns a
  \<open>Query\<close> into a request, opens a streaming call and assembles rows from the cell chunks of
  the responses; when an attempt breaks off it waits and sends a request for what is left. A
  bulk write splits its entries into batches, sends the batches concurrently, and sends those
  entries again that failed and may be applied twice. Both report to an observer, keep a
  deadline, and give up after a number of attempts. Rows are mapped to Rust values by hand or by
  derived code. Requests carry a token that a task keeps fresh.

  \<^bold>\<open>The theories,\<close> in the order of the calls:

  \<^item> \<open>Prelude\<close>: bytes, strings, results, machine integers, list lemmas.
  \<^item> \<open>Errors\<close> (\<open>error.rs\<close>): the errors and their texts.
  \<^item> \<open>Config\<close> (\<open>config.rs\<close>, \<open>resource.rs\<close>, \<open>build\_endpoint\<close> of \<open>channel.rs\<close>): settings, their
    checks, resource names, the endpoint.
  \<^item> \<open>Query\<close> (\<open>query.rs\<close>): ranges, the builder, the request; which keys a request selects.
  \<^item> \<open>Rows\<close> (\<open>row.rs\<close>), \<open>Merge\<close> (\<open>merge.rs\<close>), \<open>Encoding\<close>: the row model, the scan order as a
    locale, the chunk state machine \<open>RowMerger\<close> with its invariant \<open>merger\_inv\<close>, and an encoder
    of rows into chunks against which it is proved.
  \<^item> \<open>Float64\<close>, \<open>Retry\<close> (\<open>retry.rs\<close>): IEEE doubles as far as the backoff uses them; policies,
    their checks, retry decisions, the backoff.
  \<^item> \<open>Mutation\<close> (\<open>mutation.rs\<close>): builders, limits, retry safety, and what a mutation does to a row.
  \<^item> \<open>Telemetry\<close> (\<open>telemetry.rs\<close>): events, the operation and attempt trackers, counters, and
    what is recorded on the instruments of the meter; \<open>Trace\<close>: the protocol of the events of one
    sequence of attempts, as a state machine, and the steps of the trackers in it.
  \<^item> \<open>Environment\<close>: what the operations use of other crates and of the machine.
  \<^item> \<open>Batches\<close>, \<open>Attempt\<close>, \<open>Write\<close>, \<open>BulkWrite\<close> (\<open>write.rs\<close>): the splitting of a write, one
    attempt of a batch with its stream of results, the retry loop of a batch, the operation.
  \<^item> \<open>Resume\<close>, \<open>Read\<close>, \<open>ReadRuns\<close>, \<open>ReadComplete\<close> (\<open>read.rs\<close>): the request that continues a
    read, the operation with its state, the invariants of its runs, and its result against a
    service that serves a table.
  \<^item> \<open>ReadTrace\<close>, \<open>WriteTrace\<close>: reads and writes together with telemetry and time: what an
    observer sees of a whole operation, and the timeouts of its requests. \<open>ReadAnswers\<close>,
    \<open>WriteAnswers\<close>: their results and the answers of the service. \<open>Observer\<close>: both operations without an
    observer.
  \<^item> \<open>Concurrency\<close>: how many attempts of a write are under way at a time. \<open>WriteDelays\<close>: when a
    write sends again what a service asks to be sent later. \<open>WriteEffects\<close>: what a write does to the rows of a
    table, through the log of a service.
  \<^item> \<open>RowMapping\<close> (\<open>mapping.rs\<close>), \<open>Derive\<close> (the macro): decoding of rows, and the code the macro
    writes with its meaning. \<open>Redaction\<close>: the \<open>Debug\<close> implementations that leave out tokens.
  \<^item> \<open>Auth\<close> (\<open>auth.rs\<close>), \<open>Client\<close> (\<open>client.rs\<close>, \<open>connect\<close> of \<open>channel.rs\<close>): tokens and their
    refresh, headers, the builder, and the operations of a client. \<open>WriteThenRead\<close>: what
    relates a write and a read of one client; the theorem on both is below.

  \<^bold>\<open>How state and operations correspond.\<close> A struct is a record with prefixed field names, an
  enum a datatype, a method the definition of its name, with a prefix where the name is taken.
  A method that changes its receiver returns it. \<open>World\<close> is what the trackers change: the clock
  ticks, the events, the measurements, the counters; it is threaded through every operation. A panic is \<open>None\<close>;
  the only one the model found reachable is that of \<open>backoff\<close>, for delays of \<open>2 ^ 63\<close> seconds
  and more. Errors are left summands.

  \<^bold>\<open>Interfaces\<close> are locales, interpreted on the model where it provides them: \<open>scan\_order\<close>, the order
  in which a scan meets keys, for both directions; \<open>row\_source\<close>, what a reader relies on in the
  merger to get complete rows in that order; \<open>batching\<close>, greedy packing, for the batches of a
  write; \<open>finishing\_tracker\<close>, a tracker that reports one finish, for the events and for the
  measurements of attempts and operations.

  \<^bold>\<open>Parameters.\<close> What is not in the repository is an argument: \<open>Env\<close> holds the clock, the
  random numbers, \<open>powi\<close>, codecs of messages, the parser of metadata; \<open>ReadSide\<close> and \<open>Service\<close>
  the answers of the service to every request, which timers expire and what the application
  takes; \<open>Schedule\<close> the clocks of the batches and the order in which they complete, since they
  run concurrently and share nothing but the observer. Nothing is assumed of these unless a
  theorem says so: that \<open>powi\<close> of numbers that are not negative is not negative
  (\<open>powi64\_nonneg\<close>), that a schedule completes every batch once (\<open>schedule\_ok\<close>) and keeps the
  order of the events of each batch, with at most as many batches under way as the stream
  combinator of the \<open>futures\<close> crate is told to buffer (\<open>log\_ok\<close>), that clocks do not run backwards
  (\<open>clocks\_ok\<close>), that the service serves a table (\<open>faithful\<close>), that it applies an entry it
  confirms, and an idempotency token once (\<open>log\_documented\<close>), that the table read is the one written
  (\<open>stores\<close>).

  \<^bold>\<open>Loops.\<close> There is no fuel: the loops of reads and writes are functions whose termination is
  proved from the attempts left, which the service cannot raise. The refresh task runs for ever
  in the code; \<open>refresh\_loop\<close> is its run over any finite number of answers.

  \<^bold>\<open>What is shown.\<close> Reads: rows come in scan order, once, complete (\<open>delivered\_rows\_in\_order\<close>);
  the requests of a read ask for what is left and nothing else; against a service that serves a
  table the result is the table's (\<open>faithful\_read\_delivers\_result\<close>), and a single row is found
  by its key; no read is cut short without an error (\<open>read\_ends\_for\_a\_reason\<close>). Writes:
  every entry is accounted for, only entries that may be repeated are, and
  repeating them changes nothing (below), so that a confirmed row is what one application of its mutation makes
  of it (\<open>bulk\_write\_is\_exactly\_once\<close>) and is read back as such
  (\<open>written\_row\_is\_read\_back\<close>); no more requests are in flight than allowed
  (\<open>in\_flight\_requests\_are\_limited\<close>); retries wait as long as the service asks
  (\<open>retries\_wait\_as\_asked\<close>); an entry is reported as written exactly when the service
  confirmed it (\<open>success\_is\_confirmed\<close>), and a failure carries the answer to the last request of
  its row (\<open>failures\_repeat\_the\_service\<close>). Both always return, and send no request whose timeout
  exceeds that of an attempt or of the operation. Both report themselves faithfully: attempts are
  numbered without a gap, each ends once, before a retry is scheduled with its status, and the one
  finish event adds up attempts, retries, rows and entries (\<open>read\_reports\_its\_attempts\<close>,
  \<open>bulk\_write\_reports\_every\_batch\<close>), and being observed changes nothing else
  (\<open>observing\_changes\_nothing\<close>). Around them: limits and names of requests, decoding of
  rows and derived code, tokens and their absence from \<open>Debug\<close> output, backoff.

  \<^bold>\<open>Not modelled.\<close> How the \<open>figment\<close> crate reads settings from the process environment: what it
  extracts is an argument of \<open>config\_load\<close>; tracing spans and log lines, which are output only; derived
  \<open>Debug\<close> implementations, plain getters and wrappers that only pass their arguments on; JSON and the parsing of floating point numbers, which are arguments
  of the decoders; the parsing of Rust tokens by the \<open>syn\<close> crate, whose results are the input
  of the macro; the re-exports of \<open>lib.rs\<close>; the transport itself; the tests
  inside the source files, which make up most of the lines no definition covers.
\<close>

section \<open>Writes and reads together\<close>

text \<open>
  C3. A row that a client has written is read back. When a client writes a row and the write
  succeeds, against a service that keeps what it documents, and the table is not changed otherwise,
  then a client that reads the row, from a service that answers with the rows of the table, gets
  no error or gets the row as one application of the mutation left it: with the cells it set, without
  those it deleted, whatever was retried on either way.
\<close>

theorem written_row_is_read_back:
  assumes "mutate_row_with_options x len svc sch self table_id m options w = Some (Ok (), w', sents)"
    and "schedule_ok sch 1" and "log_documented x svc sch sents served"
    and "faithful db rd" and "scan.in_order False (map row_key db)"
    and "stores db (foldl (apply_at aggregate sents) T served)"
    and "read_row_with_options x' rd self' table_id (rm_row_key m) read_options v = Some (Ok row, v', requests)"
  shows "\<exists>t. contents_of row = apply_entry aggregate t (into_proto m) (T (rm_row_key m))"
proof -
  obtain bulk r where bulk: "bm_entries bulk = [m]"
    and run: "execute x len svc sch (cl_config self) bulk options w = Some (Ok r, w', sents)"
    by (rule mutate_row_runs [OF assms(1)])
  have sch: "schedule_ok sch (length (operation_batches len (cl_config self) bulk options))"
    using assms(2) by (simp add: one_row_batches [OF bulk])
  have here: "0 < length (bm_entries bulk)" "bm_entries bulk ! 0 = m" by (simp_all add: bulk)
  have "0 \<notin> mf_index ` set (listed_failures (Ok r))" "ran_batches (Ok r)"
    by (simp_all add: listed_failures_def ran_batches_def)
  then have "entry_confirmed x svc sch sents 0" using execute_answered [OF run sch] here(1) by blast
  then obtain t where "applied_at sents served (rm_row_key m) = Some t"
    using confirmed_applied [OF run sch assms(3)] here(2) by force
  then have "foldl (apply_at aggregate sents) T served (rm_row_key m)
      = apply_entry aggregate t (into_proto m) (T (rm_row_key m))"
    using row_applied_once [OF run sch _ assms(3) here(1), of aggregate T] by (simp add: bulk)
  moreover have "row = find (\<lambda>r. row_key r = rm_row_key m) db" by (rule read_row_found [OF assms(4,5,7)])
  ultimately show ?thesis using assms(6) by (auto simp: stores_def)
qed

theorem written_row_is_read_back_witness:
  "\<exists>w sents served row v requests t.
     mutate_row_with_options sample_env sample_lengths confirming_service (sample_schedule [0]) sample_client
       ''t'' sample_row_mutation one_entry_options sample_world = Some (Ok (), w, sents)
   \<and> log_documented sample_env confirming_service (sample_schedule [0]) sents served
   \<and> read_row_with_options sample_env written_side sample_client ''t'' [1] read_options_default sample_world
       = Some (Ok row, v, requests)
   \<and> contents_of row = apply_entry (\<lambda>_ s. s) t (into_proto sample_row_mutation) (\<lambda>_. None)"
proof -
  have sch: "schedule_ok (sample_schedule [0]) 1" by (simp add: schedule_ok_def sample_schedule_def)
  obtain w sents where wrote: "mutate_row_with_options sample_env sample_lengths confirming_service
      (sample_schedule [0]) sample_client ''t'' sample_row_mutation one_entry_options sample_world
        = Some (Ok (), w, sents)" by (rule sample_written)
  obtain served where served: "log_documented sample_env confirming_service (sample_schedule [0]) sents served"
    "stores written_db (foldl (apply_at (\<lambda>_ s. s) sents) (\<lambda>_ _. None) served)"
    by (rule sample_row_stored [OF wrote sch])
  obtain v requests where read: "read_row_with_options sample_env written_side sample_client ''t'' [1]
      read_options_default sample_world = Some (Ok (Some (hd written_db)), v, requests)" by (rule sample_row_read)
  have key: "rm_row_key sample_row_mutation = [1]" by (simp add: sample_row_mutation_def)
  from written_row_is_read_back [OF wrote sch served(1) written_side_faithful served(2), of sample_env sample_client
      read_options_default sample_world, unfolded key, OF read]
  show ?thesis using wrote served(1) read by metis
qed

section \<open>Writes and mutations together\<close>

text \<open>
  A bulk write never changes a row by sending it again: every entry that a batch sends
  after its first request, and that does not carry an idempotency token for the server to
  recognise it by, leaves the row as the first application left it, however often it is applied.
\<close>

theorem resent_entries_change_nothing:
  assumes "execute x len svc sch config mutation options w = Some (res, w', sents)"
    and "schedule_ok sch (length (operation_batches len config mutation options))"
  shows "list_all (\<lambda>sent. list_all (\<lambda>(_, request). list_all (\<lambda>e. entry_idempotency e = None \<longrightarrow>
      (\<forall>aggregate t0 ts s. foldl (\<lambda>s t. apply_entry aggregate t e s) (apply_entry aggregate t0 e s) ts
         = apply_entry aggregate t0 e s)) (mr_entries request)) (tl sent)) sents"
proof -
  have "foldl (\<lambda>s t. apply_entry aggregate t e s) (apply_entry aggregate t0 e s) ts
      = apply_entry aggregate t0 e s"
    if e: "sent \<in> set sents" "(current, request) \<in> set (tl sent)" "e \<in> set (mr_entries request)"
      "entry_idempotency e = None"
    for sent current request e aggregate t0 ts s
  proof -
    obtain row where "e = into_proto row" "is_retry_safe row"
      using resent_rows [OF assms e(1-3)] by blast
    then show ?thesis using repeated_replay [of row] e(4) by (simp add: into_proto_def)
  qed
  then show ?thesis by (auto simp: list_all_iff)
qed

theorem resent_entries_change_nothing_witness:
  "\<exists>res w sents. sample_execute [0, 1] sample_world = Some (res, w, sents)
     \<and> list_all (\<lambda>sent. list_all (\<lambda>(_, request). list_all (\<lambda>e. entry_idempotency e = None \<longrightarrow>
         (\<forall>aggregate t0 ts s. foldl (\<lambda>s t. apply_entry aggregate t e s) (apply_entry aggregate t0 e s) ts
            = apply_entry aggregate t0 e s)) (mr_entries request)) (tl sent)) sents"
proof -
  obtain res w sents where run: "sample_execute [0, 1] sample_world = Some (res, w, sents)"
    by (rule sample_returns)
  have "schedule_ok (sample_schedule [0, 1])
      (length (operation_batches sample_lengths sample_config sample_pair one_entry_options))"
    using sample_schedules(1) by (simp add: sample_batches numeral_2_eq_2)
  from resent_entries_change_nothing [OF run this] run show ?thesis by blast
qed

end
